(* ===== verification/Uvg_Prelude.thy ===== *)
theory Uvg_Prelude
  imports Main "HOL-Library.Word" "HOL-Library.Monad_Syntax"
begin

unbundle bit_operations_syntax

text \<open>
  Shared vocabulary of the development.

  \<^item> Machine types: \<open>u8\<close>, \<open>u16\<close>, \<open>u32\<close>, \<open>u64\<close> are words. A C \<open>int\<close> is an \<open>int\<close> and a
    \<open>size_t\<close> a \<open>nat\<close>; conversions and differences that can leave the range of the C type
    go through \<open>size_t_of\<close>, \<open>u32_of\<close>, \<open>int32_of\<close>, \<open>size_sub\<close>, which wrap as the machine does.
  \<^item> Undefined behaviour: an operation that may read or write outside an object, divide by
    zero or use an indeterminate value returns an \<open>option\<close>, and \<open>None\<close> is exactly that case.
    Error codes and NULL results are ordinary values inside \<open>Some\<close>.
  \<^item> Loops: \<open>foldM\<close> runs a loop body that may be undefined over the list of its indices.
\<close>

type_synonym u8 = "8 word"
type_synonym u16 = "16 word"
type_synonym u32 = "32 word"
type_synonym u64 = "64 word"
type_synonym status = int

abbreviation (input) EXIT_SUCCESS :: status where "EXIT_SUCCESS \<equiv> 0"
abbreviation (input) EXIT_FAILURE :: status where "EXIT_FAILURE \<equiv> 1"

named_theorems sizes \<open>evaluation of the machine conversions on values in range\<close>
named_theorems run \<open>characteristic equations of operations on well-formed states\<close>

subsection \<open>Machine conversions\<close>

definition size_t_of :: "int \<Rightarrow> nat" where
  "size_t_of i = nat (i mod 2 ^ 64)"

definition u32_of :: "int \<Rightarrow> nat" where
  "u32_of i = nat (i mod 2 ^ 32)"

definition int32_of :: "int \<Rightarrow> int" where
  "int32_of i = (i + 2 ^ 31) mod 2 ^ 32 - 2 ^ 31"

definition int64_of :: "int \<Rightarrow> int" where
  "int64_of i = (i + 2 ^ 63) mod 2 ^ 64 - 2 ^ 63"

definition size_sub :: "nat \<Rightarrow> nat \<Rightarrow> nat" where
  "size_sub a b = size_t_of (int a - int b)"

lemma size_t_of_id [sizes]: "0 \<le> i \<Longrightarrow> i < 2 ^ 64 \<Longrightarrow> size_t_of i = nat i"
  by (simp add: size_t_of_def)

lemma u32_of_id [sizes]: "0 \<le> i \<Longrightarrow> i < 2 ^ 32 \<Longrightarrow> u32_of i = nat i"
  by (simp add: u32_of_def)

lemma int32_of_id [sizes]: "- (2 ^ 31) \<le> i \<Longrightarrow> i < 2 ^ 31 \<Longrightarrow> int32_of i = i"
  by (simp add: int32_of_def)

lemma int64_of_id [sizes]: "- (2 ^ 63) \<le> i \<Longrightarrow> i < 2 ^ 63 \<Longrightarrow> int64_of i = i"
  by (simp add: int64_of_def)

lemma size_sub_id [sizes]: "b \<le> a \<Longrightarrow> a < 2 ^ 64 \<Longrightarrow> size_sub a b = a - b"
  by (auto simp: size_sub_def size_t_of_def nat_mod_distrib nat_diff_distrib)

lemma int32_of_nat [sizes]: "n < 2 ^ 31 \<Longrightarrow> int32_of (int n) = int n"
  by (simp add: int32_of_def)

lemma size_t_of_nat [sizes]: "n < 2 ^ 64 \<Longrightarrow> size_t_of (int n) = n"
  by (simp add: size_t_of_def)

lemma size_t_of_mult: "a * b < 2 ^ 64 \<Longrightarrow> size_t_of (int a * int b) = a * b"
  using size_t_of_nat [of "a * b"] by simp

lemma size_t_of_less: "size_t_of i < 2 ^ 64"
  by (simp add: size_t_of_def nat_less_iff)

lemma size_sub_less: "size_sub a b < 2 ^ 64"
  unfolding size_sub_def by (rule size_t_of_less)

lemma int64_of_range: "- (2 ^ 63) \<le> int64_of i \<and> int64_of i < 2 ^ 63"
  by (simp add: int64_of_def)

lemma int32_of_range: "- (2 ^ 31) \<le> int32_of i \<and> int32_of i < 2 ^ 31"
  by (simp add: int32_of_def)

subsection \<open>Loops whose body may be undefined\<close>

fun foldM :: "('i \<Rightarrow> 's \<Rightarrow> 's option) \<Rightarrow> 'i list \<Rightarrow> 's \<Rightarrow> 's option" where
  "foldM f [] s = Some s"
| "foldM f (i # is) s = Option.bind (f i s) (foldM f is)"

lemma foldM_append [simp]: "foldM f (xs @ ys) s = Option.bind (foldM f xs s) (foldM f ys)"
  by (induction xs arbitrary: s) (auto intro: Option.bind_cong)

text \<open>The loop rule: an invariant indexed by the iterations already done.\<close>

lemma foldM_upt_rule:
  assumes init: "P lo s"
    and step: "\<And>i t. lo \<le> i \<Longrightarrow> i < hi \<Longrightarrow> P i t \<Longrightarrow> \<exists>t'. f i t = Some t' \<and> P (Suc i) t'"
    and le: "lo \<le> hi"
  shows "\<exists>t. foldM f [lo..<hi] s = Some t \<and> P hi t"
proof -
  have "\<exists>t. foldM f [lo..<lo + n] s = Some t \<and> P (lo + n) t" if "lo + n \<le> hi" for n
    using that
  proof (induction n)
    case 0
    with init show ?case by simp
  next
    case (Suc n)
    then obtain t where t: "foldM f [lo..<lo + n] s = Some t" "P (lo + n) t" by auto
    with Suc.prems step [of "lo + n" t] obtain t' where "f (lo + n) t = Some t'" "P (lo + Suc n) t'"
      by auto
    with t(1) show ?case by simp
  qed
  from this [of "hi - lo"] le show ?thesis by simp
qed

text \<open>A run of operations on a state, with the list of their results.\<close>

fun traceM :: "('o \<Rightarrow> 's \<Rightarrow> ('r \<times> 's) option) \<Rightarrow> 'o list \<Rightarrow> 's \<Rightarrow> ('r list \<times> 's) option" where
  "traceM step [] s = Some ([], s)"
| "traceM step (x # xs) s = do {
     (r, s') \<leftarrow> step x s;
     (rs, s'') \<leftarrow> traceM step xs s';
     Some (r # rs, s'')
   }"

subsection \<open>Lists\<close>

lemma in_set_bind_option: "Option.bind m f = Some y \<longleftrightarrow> (\<exists>x. m = Some x \<and> f x = Some y)"
  by (cases m) auto

text \<open>Overwriting a block inside a buffer: what \<open>memcpy (dst + off) src n\<close> does.\<close>

definition splice :: "'a list \<Rightarrow> nat \<Rightarrow> 'a list \<Rightarrow> 'a list" where
  "splice dst off src = take off dst @ src @ drop (off + length src) dst"

definition memcpy_at :: "'a list \<Rightarrow> nat \<Rightarrow> 'a list \<Rightarrow> 'a list option" where
  "memcpy_at dst off src =
     (if off + length src \<le> length dst then Some (splice dst off src) else None)"

lemma length_splice [simp]:
  "off + length src \<le> length dst \<Longrightarrow> length (splice dst off src) = length dst"
  by (simp add: splice_def)

lemma nth_splice:
  assumes "off + length src \<le> length dst" "i < length dst"
  shows "splice dst off src ! i =
    (if off \<le> i \<and> i < off + length src then src ! (i - off) else dst ! i)"
  using assms by (auto simp: splice_def nth_append)

lemma take_drop_splice:
  "off + length src \<le> length dst \<Longrightarrow> take (length src) (drop off (splice dst off src)) = src"
  by (simp add: splice_def)

end
