(* ===== verification/Uvg_Bitfield.thy ===== *)
theory Uvg_Bitfield
  imports Uvg_Prelude
begin

text \<open>
  The packed bitfield of \<^verbatim>\<open>src/src/bitfield\<close>: bit 0 is the highest bit of byte 0. The mutex of
  the struct only serialises callers and is not part of the state. A bit read or written outside
  the byte array is undefined (\<open>None\<close>).
\<close>

record bitfield =
  bit_count :: nat
  bytes_count :: nat
  bytes :: "u8 list"

abbreviation (input) BITS_PER_INT :: int where "BITS_PER_INT \<equiv> 8"

definition bitfield_mask :: "int \<Rightarrow> u8" where
  "bitfield_mask bit_index = drop_bit (nat bit_index) 0x80"

definition bitfield_set_bit :: "bitfield \<Rightarrow> int \<Rightarrow> int \<Rightarrow> bitfield option" where
  "bitfield_set_bit b i v =
     (if size_t_of i < bit_count b then
        (let byte_index = nat (i div BITS_PER_INT); mask = bitfield_mask (i mod BITS_PER_INT)
         in if i < 0 \<or> length (bytes b) \<le> byte_index then None
            else if v = 0 then Some (b\<lparr>bytes := (bytes b)[byte_index := bytes b ! byte_index AND NOT mask]\<rparr>)
            else if v = 1 then Some (b\<lparr>bytes := (bytes b)[byte_index := bytes b ! byte_index OR mask]\<rparr>)
            else Some b)
      else Some b)"

definition bitfield_get_bit :: "bitfield \<Rightarrow> int \<Rightarrow> int option" where
  "bitfield_get_bit b i =
     (let byte_index = nat (i div BITS_PER_INT); mask = bitfield_mask (i mod BITS_PER_INT)
      in if i < 0 \<or> length (bytes b) \<le> byte_index then None
         else Some (if bytes b ! byte_index AND mask \<noteq> 0 then 1 else 0))"

text \<open>
  \<open>bitfield_new\<close>: the flag says whether \<open>malloc\<close> succeeds; a failed allocation gives NULL
  (\<open>Some None\<close>). \<open>memset\<close> stores the low byte of the default byte value.
\<close>

definition bitfield_new :: "bool \<Rightarrow> nat \<Rightarrow> int \<Rightarrow> int \<Rightarrow> bitfield option option" where
  "bitfield_new malloc_ok n default_bit_value default_byte_value =
     (let n_bytes = (n + (8 - 1)) div 8
      in if \<not> malloc_ok then Some None
         else map_option Some
           (foldM (\<lambda>i b. bitfield_set_bit b (int i) default_bit_value) [0..<n]
             \<lparr>bit_count = n, bytes_count = n_bytes,
              bytes = replicate n_bytes (word_of_int default_byte_value)\<rparr>))"

subsection \<open>The bit vector a bitfield stores\<close>

definition bf_wf :: "bitfield \<Rightarrow> bool" where
  "bf_wf b \<longleftrightarrow> length (bytes b) = bytes_count b \<and> bytes_count b = (bit_count b + 7) div 8
     \<and> bit_count b < 2 ^ 31"

definition bf_bit :: "bitfield \<Rightarrow> nat \<Rightarrow> bool" where
  "bf_bit b i = bit (bytes b ! (i div 8)) (7 - i mod 8)"

lemma bit_0x80: "bit (0x80 :: u8) n \<longleftrightarrow> n = 7"
  using bit_exp_iff [where 'a = u8, of 7 n] by auto

lemma bit_mask: "k < 8 \<Longrightarrow> bit (bitfield_mask (int k)) j \<longleftrightarrow> j = 7 - k"
  unfolding bitfield_mask_def bit_drop_bit_eq nat_int o_apply bit_0x80 by auto

lemma and_mask_nonzero: "k < 8 \<Longrightarrow> w AND bitfield_mask (int k) \<noteq> 0 \<longleftrightarrow> bit w (7 - k)"
  by (subst (1) bit_eq_iff) (auto simp add: bit_and_iff bit_mask)

lemma bit_or_mask: "k < 8 \<Longrightarrow> bit (w OR bitfield_mask (int k)) j \<longleftrightarrow> bit w j \<or> j = 7 - k"
  by (simp add: bit_or_iff bit_mask)

lemma bit_and_not_mask:
  "k < 8 \<Longrightarrow> j < 8 \<Longrightarrow> bit (w AND NOT (bitfield_mask (int k))) j \<longleftrightarrow> bit w j \<and> j \<noteq> 7 - k"
  by (auto simp: bit_and_iff bit_not_iff bit_mask)

lemma index_of_nat: "nat (int i div 8) = i div 8" "int i mod 8 = int (i mod 8)"
  by (simp_all add: nat_div_distrib zmod_int)

lemma same_bit_position:
  assumes "(i::nat) div 8 = j div 8" "7 - i mod 8 = 7 - j mod 8"
  shows "i = j"
proof -
  have "i mod 8 < 8" "j mod 8 < 8" by simp_all
  with assms(2) have "i mod 8 = j mod 8" by linarith
  with assms(1) show ?thesis by (metis div_mod_decomp)
qed

lemma bf_wf_index: "bf_wf b \<Longrightarrow> i < bit_count b \<Longrightarrow> i div 8 < length (bytes b)"
  by (auto simp: bf_wf_def)

lemma bitfield_get_bit_run [run]:
  "i div 8 < length (bytes b) \<Longrightarrow> bitfield_get_bit b (int i) = Some (of_bool (bf_bit b i))"
  by (simp add: bitfield_get_bit_def bf_bit_def and_mask_nonzero index_of_nat)

lemma bf_bit_update:
  assumes "i div 8 < length (bytes b)"
  shows "bf_bit (b\<lparr>bytes := (bytes b)[i div 8 := bytes b ! (i div 8) OR bitfield_mask (int (i mod 8))]\<rparr>)
           = (bf_bit b)(i := True)"
    and "bf_bit (b\<lparr>bytes := (bytes b)[i div 8 := bytes b ! (i div 8) AND NOT (bitfield_mask (int (i mod 8)))]\<rparr>)
           = (bf_bit b)(i := False)"
  using assms
  by (auto simp: fun_eq_iff bf_bit_def nth_list_update bit_or_mask bit_and_not_mask
      dest: same_bit_position)

text \<open>What setting one bit to \<open>v\<close> does to the vector: only values 0 and 1 have an effect.\<close>

definition bf_put :: "int \<Rightarrow> nat \<Rightarrow> (nat \<Rightarrow> bool) \<Rightarrow> nat \<Rightarrow> bool" where
  "bf_put v i f = (if v = 0 then f(i := False) else if v = 1 then f(i := True) else f)"

lemma bitfield_set_bit_run:
  assumes "bf_wf b" "i < bit_count b"
  shows "\<exists>b'. bitfield_set_bit b (int i) v = Some b' \<and> bf_wf b' \<and> bit_count b' = bit_count b
           \<and> bytes_count b' = bytes_count b \<and> bf_bit b' = bf_put v i (bf_bit b)"
proof -
  have idx: "i div 8 < length (bytes b)" using assms by (rule bf_wf_index)
  have sz: "size_t_of (int i) < bit_count b"
    using assms by (simp add: bf_wf_def sizes)
  show ?thesis
    using idx sz assms bf_bit_update [OF idx]
    by (simp add: bitfield_set_bit_def index_of_nat Let_def bf_put_def) (simp add: bf_wf_def)
qed

lemma bitfield_set_bit_beyond:
  assumes "bf_wf b" "i < 0 \<or> int (bit_count b) \<le> i" "- (2 ^ 31) \<le> i" "i < 2 ^ 31"
  shows "bitfield_set_bit b i v = Some b"
proof -
  have "\<not> size_t_of i < bit_count b"
  proof (cases "i < 0")
    case True
    have "i mod 2 ^ 64 = (i + 2 ^ 64) mod 2 ^ 64" by simp
    also have "\<dots> = i + 2 ^ 64" using assms True by (intro mod_pos_pos_trivial) auto
    finally have "i mod 2 ^ 64 = i + 2 ^ 64" .
    with assms True show ?thesis by (auto simp: size_t_of_def bf_wf_def nat_less_iff)
  next
    case False
    with assms show ?thesis by (simp add: sizes)
  qed
  then show ?thesis by (simp add: bitfield_set_bit_def)
qed

subsection \<open>The interface the rest of the program uses\<close>

text \<open>
  A bit vector with partial operations: reading and writing inside the vector is defined, a write
  at an \<open>int\<close> outside it is ignored. The clients (claims, completion, peer bitfields) rely on
  these laws only.
\<close>

locale bit_vector =
  fixes get :: "'b \<Rightarrow> int \<Rightarrow> int option"
    and set_to :: "'b \<Rightarrow> int \<Rightarrow> int \<Rightarrow> 'b option"
    and size_of :: "'b \<Rightarrow> nat"
    and vec :: "'b \<Rightarrow> nat \<Rightarrow> bool"
    and ok :: "'b \<Rightarrow> bool"
  assumes get_in: "ok b \<Longrightarrow> i < size_of b \<Longrightarrow> get b (int i) = Some (of_bool (vec b i))"
    and set_in: "ok b \<Longrightarrow> i < size_of b \<Longrightarrow>
      \<exists>b'. set_to b (int i) v = Some b' \<and> ok b' \<and> size_of b' = size_of b
        \<and> vec b' = bf_put v i (vec b)"
    and set_out: "ok b \<Longrightarrow> k < 0 \<or> int (size_of b) \<le> k \<Longrightarrow> - (2 ^ 31) \<le> k \<Longrightarrow> k < 2 ^ 31 \<Longrightarrow>
      set_to b k v = Some b"
begin

lemma set_defined:
  "ok b \<Longrightarrow> - (2 ^ 31) \<le> i \<Longrightarrow> i < 2 ^ 31 \<Longrightarrow> \<exists>b'. set_to b i v = Some b' \<and> ok b' \<and> size_of b' = size_of b"
  using set_in [of b "nat i" v] set_out [of b i v]
  by (cases "0 \<le> i \<and> i < int (size_of b)") (auto simp: nat_less_iff)

lemma set_get_same:
  assumes "ok b" "i < size_of b" "v = 0 \<or> v = 1" "set_to b (int i) v = Some b'"
  shows "get b' (int i) = Some v"
  using set_in [OF assms(1,2), of v] assms get_in by (auto simp: bf_put_def)

lemma set_get_other:
  assumes "ok b" "i < size_of b" "j < size_of b" "j \<noteq> i" "set_to b (int i) v = Some b'"
  shows "get b' (int j) = get b (int j)"
  using set_in [OF assms(1,2), of v] assms get_in by (auto simp: bf_put_def)

text \<open>Setting the first \<open>n\<close> bits in a loop.\<close>

lemma fill:
  assumes "ok b" "n \<le> size_of b" "v = 0 \<or> v = 1"
  shows "\<exists>b'. foldM (\<lambda>i b. set_to b (int i) v) [0..<n] b = Some b' \<and> ok b' \<and> size_of b' = size_of b
           \<and> vec b' = (\<lambda>i. if i < n then v = 1 else vec b i)"
proof -
  let ?P = "\<lambda>k t. ok t \<and> size_of t = size_of b \<and> vec t = (\<lambda>i. if i < k then v = 1 else vec b i)"
  have "\<exists>t. foldM (\<lambda>i b. set_to b (int i) v) [0..<n] b = Some t \<and> ?P n t"
  proof (rule foldM_upt_rule)
    fix i t assume "0 \<le> i" "i < n" "?P i t"
    then show "\<exists>t'. set_to t (int i) v = Some t' \<and> ?P (Suc i) t'"
      using set_in [of t i v] assms by (auto simp: bf_put_def fun_eq_iff less_Suc_eq)
  qed (use assms in auto)
  then show ?thesis by blast
qed

end

interpretation bf: bit_vector bitfield_get_bit bitfield_set_bit bit_count bf_bit bf_wf
proof unfold_locales
  fix b :: bitfield and i :: nat and v :: int
  assume b: "bf_wf b" "i < bit_count b"
  show "bitfield_get_bit b (int i) = Some (of_bool (bf_bit b i))"
    by (rule bitfield_get_bit_run) (rule bf_wf_index [OF b])
  show "\<exists>b'. bitfield_set_bit b (int i) v = Some b' \<and> bf_wf b' \<and> bit_count b' = bit_count b
      \<and> bf_bit b' = bf_put v i (bf_bit b)"
    using bitfield_set_bit_run [OF b, of v] by blast
qed (rule bitfield_set_bit_beyond)

lemma bytes_count_run:
  assumes "bf_wf b" "bf_wf b'" "bit_count b' = bit_count b"
  shows "bytes_count b' = bytes_count b \<and> length (bytes b') = length (bytes b)"
  using assms by (simp add: bf_wf_def)

lemma bitfield_new_run:
  assumes n: "n < 2 ^ 31" and v: "v = 0 \<or> v = 1"
  shows "\<exists>b. bitfield_new True n v w = Some (Some b) \<and> bf_wf b \<and> bit_count b = n
    \<and> (\<forall>i < n. bf_bit b i = (v = 1))
    \<and> (\<forall>i. n \<le> i \<longrightarrow> i < 8 * bytes_count b \<longrightarrow> bf_bit b i = bit (word_of_int w :: u8) (7 - i mod 8))"
proof -
  let ?b0 = "\<lparr>bit_count = n, bytes_count = (n + 7) div 8,
    bytes = replicate ((n + 7) div 8) (word_of_int w :: u8)\<rparr>"
  have ok: "bf_wf ?b0" using n by (simp add: bf_wf_def)
  obtain b where b: "foldM (\<lambda>i b. bitfield_set_bit b (int i) v) [0..<n] ?b0 = Some b"
    "bf_wf b" "bit_count b = n" "bf_bit b = (\<lambda>i. if i < n then v = 1 else bf_bit ?b0 i)"
    using bf.fill [OF ok _ v, of n] by auto
  have "bf_bit ?b0 i = bit (word_of_int w :: u8) (7 - i mod 8)" if "i < 8 * ((n + 7) div 8)" for i
    using that by (simp add: bf_bit_def nth_replicate less_mult_imp_div_less mult.commute)
  with b show ?thesis
    by (auto simp: bitfield_new_def bf_wf_def)
qed

subsection \<open>Properties\<close>

text \<open>
  A bitfield behaves as a vector of bits. After \<open>bitfield_set_bit\<close> with 0 or 1 inside the
  bitfield, reading that bit gives the value written, every other bit reads as before, and the
  bitfield stays well formed with the same size; in particular neither call leaves the byte array.
\<close>

theorem bitfield_set_then_get:
  assumes "bf_wf b" "i < bit_count b" "j < bit_count b" "v = 0 \<or> v = 1"
  shows "\<exists>b'. bitfield_set_bit b (int i) v = Some b' \<and> bf_wf b' \<and> bit_count b' = bit_count b
    \<and> bitfield_get_bit b' (int j) = (if j = i then Some v else bitfield_get_bit b (int j))"
proof -
  obtain b' where b': "bitfield_set_bit b (int i) v = Some b'" "bf_wf b'" "bit_count b' = bit_count b"
    using bf.set_in [OF assms(1,2)] by blast
  show ?thesis
    using b' bf.set_get_same [OF assms(1,2,4) b'(1)] bf.set_get_other [OF assms(1,2,3) _ b'(1)]
    by auto
qed

theorem bitfield_set_then_get_witness:
  "bf_wf \<lparr>bit_count = 10, bytes_count = 2, bytes = [0, 0xFF]\<rparr> \<and>
   (\<exists>b'. bitfield_set_bit \<lparr>bit_count = 10, bytes_count = 2, bytes = [0, 0xFF]\<rparr> (int 2) 1 = Some b'
      \<and> bf_wf b' \<and> bit_count b' = 10 \<and> bitfield_get_bit b' (int 2) = Some 1)"
proof -
  have wf: "bf_wf \<lparr>bit_count = 10, bytes_count = 2, bytes = [0, 0xFF]\<rparr>"
    by (simp add: bf_wf_def)
  show ?thesis using bitfield_set_then_get [OF wf, of 2 2 1] wf by simp
qed

text \<open>
  A new bitfield holds the default bit in every one of its bits, and its padding bits (those
  of the last byte past \<open>bit_count\<close>) keep the default byte, so that a completed last byte compares
  equal to 0xFF when the default byte is 0xFF.
\<close>

theorem bitfield_new_defaults:
  assumes "n < 2 ^ 31" "v = 0 \<or> v = 1"
  shows "\<exists>b. bitfield_new True n v w = Some (Some b) \<and> bf_wf b \<and> bit_count b = n
    \<and> (\<forall>i < n. bitfield_get_bit b (int i) = Some v)
    \<and> (\<forall>i. n \<le> i \<longrightarrow> i < 8 * bytes_count b \<longrightarrow>
         bitfield_get_bit b (int i) = Some (of_bool (bit (word_of_int w :: u8) (7 - i mod 8))))"
proof -
  obtain b where b: "bitfield_new True n v w = Some (Some b)" "bf_wf b" "bit_count b = n"
    "\<forall>i < n. bf_bit b i = (v = 1)"
    "\<forall>i. n \<le> i \<longrightarrow> i < 8 * bytes_count b \<longrightarrow> bf_bit b i = bit (word_of_int w :: u8) (7 - i mod 8)"
    using bitfield_new_run [OF assms] by blast
  have "bitfield_get_bit b (int i) = Some (of_bool (bf_bit b i))" if "i < 8 * bytes_count b" for i
    by (rule bitfield_get_bit_run) (use that b(2) in \<open>auto simp: bf_wf_def\<close>)
  moreover have "n \<le> 8 * bytes_count b" using b(2,3) by (auto simp: bf_wf_def)
  ultimately show ?thesis using b assms(2) by (intro exI [of _ b]) auto
qed

theorem bitfield_new_defaults_witness:
  "\<exists>b. bitfield_new True 10 0 0xFF = Some (Some b) \<and> bitfield_get_bit b (int 9) = Some 0
     \<and> bitfield_get_bit b (int 10) = Some 1"
proof -
  obtain b where b: "bitfield_new True 10 0 0xFF = Some (Some b)" "bf_wf b" "bit_count b = 10"
    "\<forall>i < 10. bitfield_get_bit b (int i) = Some 0"
    "\<forall>i. 10 \<le> i \<longrightarrow> i < 8 * bytes_count b \<longrightarrow>
       bitfield_get_bit b (int i) = Some (of_bool (bit (word_of_int 0xFF :: u8) (7 - i mod 8)))"
    using bitfield_new_defaults [of 10 0 "0xFF"] by auto
  have "bytes_count b = 2" using b(2,3) by (simp add: bf_wf_def)
  then show ?thesis
    using b(1) b(4) [rule_format, of 9] b(5) [rule_format, of 10] by simp
qed

end
