(* ===== verification/Uvg_HashMap.thy ===== *)
theory Uvg_HashMap
  imports Uvg_Prelude "HOL-Library.Multiset"
begin

text \<open>
  The chained hash map of \<^verbatim>\<open>src/src/hash_map\<close>: an array of buckets, each bucket the list of its
  items in chain order. Keys are C strings; \<open>char\<close> is signed, so a byte above 127 is sign
  extended before it is added to the hash. \<open>hashmap_get\<close> removes the item it returns. Setting a
  key that is already present jumps to the error label past the initialisation of \<open>item\<close> and frees
  an indeterminate pointer, which is undefined (\<open>None\<close>).
\<close>

type_synonym 'v item = "string \<times> 'v"

record 'v hash_map =
  max_buckets :: int
  buckets :: "'v item list list"

definition char_as_u32 :: "char \<Rightarrow> u32" where
  "char_as_u32 c = word_of_int (sint (of_char c :: u8))"

fun jenkins_loop :: "string \<Rightarrow> u32 \<Rightarrow> u32" where
  "jenkins_loop [] h = h"
| "jenkins_loop (c # cs) h =
     (let h1 = h + char_as_u32 c; h2 = h1 + push_bit 10 h1; h3 = h2 XOR drop_bit 6 h2
      in jenkins_loop cs h3)"

definition jenkins_one_at_a_time_hash :: "string \<Rightarrow> u32" where
  "jenkins_one_at_a_time_hash key =
     (let h = jenkins_loop key 0; h1 = h + push_bit 3 h; h2 = h1 XOR drop_bit 11 h1
      in h2 + push_bit 15 h2)"

definition hashmap_new :: "bool \<Rightarrow> int \<Rightarrow> 'v hash_map option" where
  "hashmap_new malloc_ok n =
     (if malloc_ok then Some \<lparr>max_buckets = n, buckets = replicate (nat n) []\<rparr> else None)"

text \<open>\<open>hash % hm->max_buckets\<close>: the \<open>int\<close> is converted to \<open>uint32_t\<close>; a zero divisor or an index
  outside the array is undefined.\<close>

definition bucket_index :: "'v hash_map \<Rightarrow> string \<Rightarrow> nat option" where
  "bucket_index hm key =
     (let m = u32_of (max_buckets hm) in
      if m = 0 then None
      else let index = unat (jenkins_one_at_a_time_hash key) mod m
        in if index < length (buckets hm) then Some index else None)"

fun chain_take :: "string \<Rightarrow> 'v item list \<Rightarrow> ('v \<times> 'v item list) option" where
  "chain_take key [] = None"
| "chain_take key ((k, v) # items) =
     (if key = k then Some (v, items)
      else map_option (\<lambda>(w, items'). (w, (k, v) # items')) (chain_take key items))"

definition hashmap_get :: "'v hash_map \<Rightarrow> string \<Rightarrow> ('v option \<times> 'v hash_map) option" where
  "hashmap_get hm key = do {
     index \<leftarrow> bucket_index hm key;
     (case chain_take key (buckets hm ! index) of
        Some (value, rest) \<Rightarrow> Some (Some value, hm\<lparr>buckets := (buckets hm)[index := rest]\<rparr>)
      | None \<Rightarrow> Some (None, hm))
   }"

fun chain_has :: "string \<Rightarrow> 'v item list \<Rightarrow> bool" where
  "chain_has key [] = False"
| "chain_has key ((k, v) # items) = (if key = k then True else chain_has key items)"

definition hashmap_has_key :: "'v hash_map \<Rightarrow> string \<Rightarrow> int option" where
  "hashmap_has_key hm key = do {
     index \<leftarrow> bucket_index hm key;
     Some (if chain_has key (buckets hm ! index) then 1 else 0)
   }"

text \<open>\<open>malloc_ok\<close> is the result of the allocation of the item. The copy of the key is taken to succeed: its result is
  not tested, and an item with the key NULL makes the next walk through its bucket undefined.\<close>

definition hashmap_set :: "bool \<Rightarrow> 'v hash_map \<Rightarrow> string \<Rightarrow> 'v \<Rightarrow> (status \<times> 'v hash_map) option" where
  "hashmap_set malloc_ok hm key value = do {
     present \<leftarrow> hashmap_has_key hm key;
     (if present = 1 then None
      else if \<not> malloc_ok then Some (EXIT_FAILURE, hm)
      else do {
        index \<leftarrow> bucket_index hm key;
        Some (EXIT_SUCCESS, hm\<lparr>buckets := (buckets hm)[index := buckets hm ! index @ [(key, value)]]\<rparr>)
      })
   }"

text \<open>\<open>hashmap_empty\<close> unlinks the last item of the first bucket that is not empty.\<close>

fun empty_scan :: "'v item list list \<Rightarrow> ('v \<times> 'v item list list) option" where
  "empty_scan [] = None"
| "empty_scan (items # rest) =
     (if items \<noteq> [] then Some (snd (last items), butlast items # rest)
      else map_option (\<lambda>(v, rest'). (v, items # rest')) (empty_scan rest))"

definition hashmap_empty :: "'v hash_map \<Rightarrow> 'v option \<times> 'v hash_map" where
  "hashmap_empty hm =
     (case empty_scan (buckets hm) of
        Some (value, bs) \<Rightarrow> (Some value, hm\<lparr>buckets := bs\<rparr>)
      | None \<Rightarrow> (None, hm))"

text \<open>The clean-up loop of the clients: call \<open>hashmap_empty\<close> until it returns NULL.\<close>

function hashmap_drain :: "'v hash_map \<Rightarrow> 'v list \<times> 'v hash_map" where
  "hashmap_drain hm =
     (case hashmap_empty hm of
        (Some v, hm') \<Rightarrow> (let (vs, hm'') = hashmap_drain hm' in (v # vs, hm''))
      | (None, hm') \<Rightarrow> ([], hm'))"
  by pat_completeness auto

lemma empty_scan_length:
  "empty_scan bs = Some (v, bs') \<Longrightarrow> sum_list (map length bs) = Suc (sum_list (map length bs'))"
  by (induction bs arbitrary: v bs') (auto split: if_splits)

termination hashmap_drain
  by (relation "measure (\<lambda>hm. sum_list (map length (buckets hm)))")
    (auto simp: hashmap_empty_def split: option.splits dest: empty_scan_length)

declare hashmap_drain.simps [simp del]

subsection \<open>The finite map a hash map stores\<close>

definition hm_wf :: "'v hash_map \<Rightarrow> bool" where
  "hm_wf hm \<longleftrightarrow> 0 < max_buckets hm \<and> max_buckets hm < 2 ^ 31
     \<and> length (buckets hm) = nat (max_buckets hm)
     \<and> (\<forall>i < length (buckets hm). distinct (map fst (buckets hm ! i))
          \<and> (\<forall>(k, v) \<in> set (buckets hm ! i). bucket_index hm k = Some i))"

definition hm_lookup :: "'v hash_map \<Rightarrow> string \<Rightarrow> 'v option" where
  "hm_lookup hm key = Option.bind (bucket_index hm key) (\<lambda>i. map_of (buckets hm ! i) key)"

definition hm_values :: "'v hash_map \<Rightarrow> 'v multiset" where
  "hm_values hm = mset (map snd (concat (buckets hm)))"

lemma bucket_index_cong [simp]:
  "length bs = length (buckets hm) \<Longrightarrow> bucket_index (hm\<lparr>buckets := bs\<rparr>) key = bucket_index hm key"
  by (simp add: bucket_index_def Let_def)

lemma bucket_index_defined:
  assumes "hm_wf hm"
  obtains i where "bucket_index hm key = Some i" "i < length (buckets hm)"
proof -
  have "u32_of (max_buckets hm) = nat (max_buckets hm)"
    using assms by (auto simp: hm_wf_def u32_of_def)
  with assms that show ?thesis
    by (auto simp: bucket_index_def hm_wf_def Let_def)
qed

lemma bucket_index_less: "bucket_index hm key = Some i \<Longrightarrow> i < length (buckets hm)"
  by (auto simp: bucket_index_def Let_def split: if_splits)

lemma chain_has_iff: "chain_has key items \<longleftrightarrow> map_of items key \<noteq> None"
  by (induction key items rule: chain_has.induct) auto

lemma chain_take_None: "chain_take key items = None \<longleftrightarrow> map_of items key = None"
  by (induction key items rule: chain_take.induct) auto

lemma chain_take_Some:
  assumes "chain_take key items = Some (v, rest)" "distinct (map fst items)"
  shows "map_of items key = Some v \<and> map_of rest = (map_of items)(key := None)
    \<and> distinct (map fst rest) \<and> set rest \<subseteq> set items
    \<and> mset (map snd items) = add_mset v (mset (map snd rest))"
  using assms
proof (induction key items arbitrary: rest rule: chain_take.induct)
  case (2 key k w items)
  show ?case
  proof (cases "key = k")
    case True
    with 2 have "map_of items k = None" by (simp add: map_of_eq_None_iff)
    with True 2 show ?thesis by (auto simp: fun_eq_iff)
  next
    case False
    with 2 obtain items' where *: "chain_take key items = Some (v, items')" "rest = (k, w) # items'"
      by auto
    with 2 False show ?thesis by (auto simp: fun_eq_iff)
  qed
qed simp

text \<open>Replacing one bucket: the three views of the new map.\<close>

lemma hm_lookup_update:
  assumes "i < length (buckets hm)" "bucket_index hm k = Some i"
    and "\<And>k'. k' \<noteq> k \<Longrightarrow> map_of b k' = map_of (buckets hm ! i) k'"
  shows "hm_lookup (hm\<lparr>buckets := (buckets hm)[i := b]\<rparr>) = (hm_lookup hm)(k := map_of b k)"
  using assms by (auto simp: hm_lookup_def fun_eq_iff nth_list_update split: bind_splits)

lemma hm_wf_update:
  assumes "hm_wf hm" "i < length (buckets hm)" "distinct (map fst b)"
    and "\<And>k v. (k, v) \<in> set b \<Longrightarrow> bucket_index hm k = Some i"
  shows "hm_wf (hm\<lparr>buckets := (buckets hm)[i := b]\<rparr>)"
  using assms by (auto simp: hm_wf_def nth_list_update)

lemma mset_concat_update:
  assumes "i < length bs"
  shows "mset (concat (bs[i := b])) + mset (bs ! i) = mset (concat bs) + mset b"
  using assms by (subst (3) id_take_nth_drop [OF assms]) (simp add: upd_conv_take_nth_drop)

lemma hm_values_update:
  assumes "i < length (buckets hm)"
  shows "hm_values (hm\<lparr>buckets := (buckets hm)[i := b]\<rparr>) + mset (map snd (buckets hm ! i))
    = hm_values hm + mset (map snd b)"
  using arg_cong [OF mset_concat_update [OF assms], of "image_mset snd" b]
  by (simp add: hm_values_def)

subsection \<open>The operations on well-formed maps\<close>

lemma hashmap_has_key_run [run]:
  "hm_wf hm \<Longrightarrow> hashmap_has_key hm key = Some (of_bool (hm_lookup hm key \<noteq> None))"
  by (rule bucket_index_defined [of hm key])
    (auto simp: hashmap_has_key_def chain_has_iff hm_lookup_def)

lemma hashmap_get_run:
  assumes "hm_wf hm"
  shows "\<exists>hm'. hashmap_get hm key = Some (hm_lookup hm key, hm') \<and> hm_wf hm'
    \<and> hm_lookup hm' = (hm_lookup hm)(key := None)"
proof -
  obtain i where i: "bucket_index hm key = Some i" "i < length (buckets hm)"
    using assms by (rule bucket_index_defined)
  let ?b = "buckets hm ! i"
  have b: "distinct (map fst ?b)" "\<And>k v. (k, v) \<in> set ?b \<Longrightarrow> bucket_index hm k = Some i"
    using assms i(2) by (auto simp: hm_wf_def)
  show ?thesis
  proof (cases "chain_take key ?b")
    case None
    then have "map_of ?b key = None" by (simp add: chain_take_None)
    with i have "hm_lookup hm key = None" by (simp add: hm_lookup_def)
    with i assms None show ?thesis
      by (simp add: hashmap_get_def fun_upd_idem)
  next
    case (Some p)
    then obtain v rest where t: "chain_take key ?b = Some (v, rest)" by (cases p) auto
    note rest = chain_take_Some [OF t b(1)]
    have "hm_wf (hm\<lparr>buckets := (buckets hm)[i := rest]\<rparr>)"
      using assms i(2) by (rule hm_wf_update) (use rest b(2) in auto)
    moreover have "hm_lookup (hm\<lparr>buckets := (buckets hm)[i := rest]\<rparr>) = (hm_lookup hm)(key := None)"
      using hm_lookup_update [OF i(2,1), of rest] rest by simp
    ultimately show ?thesis
      using i t rest by (simp add: hashmap_get_def hm_lookup_def)
  qed
qed

lemma hashmap_set_run:
  assumes "hm_wf hm" "hm_lookup hm key = None"
  shows "\<exists>hm'. hashmap_set True hm key v = Some (EXIT_SUCCESS, hm') \<and> hm_wf hm'
    \<and> hm_lookup hm' = (hm_lookup hm)(key \<mapsto> v)"
proof -
  obtain i where i: "bucket_index hm key = Some i" "i < length (buckets hm)"
    using assms(1) by (rule bucket_index_defined)
  let ?b = "buckets hm ! i @ [(key, v)]"
  have new: "map_of (buckets hm ! i) key = None"
    using assms(2) i by (simp add: hm_lookup_def)
  have "hm_wf (hm\<lparr>buckets := (buckets hm)[i := ?b]\<rparr>)"
    using assms(1) i(2)
  proof (rule hm_wf_update)
    show "distinct (map fst ?b)"
      using assms(1) i(2) new by (auto simp: hm_wf_def map_of_eq_None_iff)
    show "bucket_index hm k = Some i" if "(k, w) \<in> set ?b" for k w
      using that assms(1) i by (auto simp: hm_wf_def)
  qed
  moreover have "hm_lookup (hm\<lparr>buckets := (buckets hm)[i := ?b]\<rparr>) = (hm_lookup hm)(key \<mapsto> v)"
    by (subst hm_lookup_update [OF i(2,1)]) (auto simp: new map_add_def split: option.splits)
  ultimately show ?thesis
    using assms i by (simp add: hashmap_set_def hashmap_has_key_run)
qed

lemma hashmap_set_present:
  "hm_wf hm \<Longrightarrow> hm_lookup hm key \<noteq> None \<Longrightarrow> hashmap_set m hm key v = None"
  by (simp add: hashmap_set_def hashmap_has_key_run)

lemma hashmap_new_run:
  assumes "0 < n" "n < 2 ^ 31"
  shows "\<exists>hm. hashmap_new True n = Some (hm :: 'v hash_map) \<and> hm_wf hm \<and> hm_lookup hm = Map.empty"
proof -
  let ?hm = "\<lparr>max_buckets = n, buckets = replicate (nat n) []\<rparr> :: 'v hash_map"
  have wf: "hm_wf ?hm" using assms by (simp add: hm_wf_def)
  have "hm_lookup ?hm k = None" for k
    by (rule bucket_index_defined [OF wf, of k]) (simp add: hm_lookup_def)
  with wf show ?thesis by (auto simp: hashmap_new_def)
qed

subsection \<open>The interface the clients rely on\<close>

text \<open>
  A map whose lookup takes the entry out. The clients read an entry by taking it and putting it
  back, or add an entry after asking for its key; both patterns avoid the undefined duplicate
  insertion, and the locale proves it once.
\<close>

locale taking_map =
  fixes take_key :: "'m \<Rightarrow> 'k \<Rightarrow> ('v option \<times> 'm) option"
    and put :: "'m \<Rightarrow> 'k \<Rightarrow> 'v \<Rightarrow> (status \<times> 'm) option"
    and has :: "'m \<Rightarrow> 'k \<Rightarrow> int option"
    and view :: "'m \<Rightarrow> 'k \<Rightarrow> 'v option"
    and ok :: "'m \<Rightarrow> bool"
  assumes take_law: "ok m \<Longrightarrow>
      \<exists>m'. take_key m k = Some (view m k, m') \<and> ok m' \<and> view m' = (view m)(k := None)"
    and put_law: "ok m \<Longrightarrow> view m k = None \<Longrightarrow>
      \<exists>m'. put m k v = Some (EXIT_SUCCESS, m') \<and> ok m' \<and> view m' = (view m)(k \<mapsto> v)"
    and has_law: "ok m \<Longrightarrow> has m k = Some (of_bool (view m k \<noteq> None))"
    and put_duplicate: "ok m \<Longrightarrow> view m k \<noteq> None \<Longrightarrow> put m k v = None"
begin

lemma take_put_back:
  assumes "ok m" "view m k = Some v"
  shows "\<exists>m1 m2. take_key m k = Some (Some v, m1) \<and> put m1 k v = Some (EXIT_SUCCESS, m2)
    \<and> ok m2 \<and> view m2 = view m"
proof -
  obtain m1 where m1: "take_key m k = Some (Some v, m1)" "ok m1" "view m1 = (view m)(k := None)"
    using take_law [OF assms(1), of k] assms(2) by auto
  moreover obtain m2 where "put m1 k v = Some (EXIT_SUCCESS, m2)" "ok m2" "view m2 = (view m1)(k \<mapsto> v)"
    using put_law [OF m1(2), of k v] m1(3) by auto
  ultimately show ?thesis using assms(2) by (auto simp: fun_eq_iff)
qed

lemma take_then_put:
  assumes "ok m"
  shows "\<exists>m1 m2. take_key m k = Some (view m k, m1) \<and> put m1 k v = Some (EXIT_SUCCESS, m2)
    \<and> ok m2 \<and> view m2 = (view m)(k \<mapsto> v)"
proof -
  obtain m1 where m1: "take_key m k = Some (view m k, m1)" "ok m1" "view m1 = (view m)(k := None)"
    using take_law [OF assms, of k] by auto
  moreover obtain m2 where "put m1 k v = Some (EXIT_SUCCESS, m2)" "ok m2" "view m2 = (view m1)(k \<mapsto> v)"
    using put_law [OF m1(2), of k v] m1(3) by auto
  ultimately show ?thesis by auto
qed

lemma put_if_absent:
  assumes "ok m"
  shows "\<exists>m'. (if has m k = Some 0 then put m k v else Some (EXIT_SUCCESS, m)) = Some (EXIT_SUCCESS, m')
    \<and> ok m' \<and> view m' = (if view m k = None then (view m)(k \<mapsto> v) else view m)"
  using assms put_law [OF assms, of k v] by (auto simp: has_law)

end

interpretation hmi: taking_map hashmap_get "hashmap_set True" hashmap_has_key hm_lookup hm_wf
proof unfold_locales
  fix m :: "'v hash_map" and k :: string and v :: 'v
  assume "hm_wf m"
  then show "\<exists>m'. hashmap_get m k = Some (hm_lookup m k, m') \<and> hm_wf m' \<and> hm_lookup m' = (hm_lookup m)(k := None)"
    by (rule hashmap_get_run)
qed (auto intro: hashmap_set_run simp: hashmap_has_key_run hashmap_set_present)

subsection \<open>Draining\<close>

lemma empty_scan_None: "empty_scan bs = None \<longleftrightarrow> concat bs = []"
  by (induction bs) auto

lemma empty_scan_values:
  "empty_scan bs = Some (v, bs') \<Longrightarrow> mset (map snd (concat bs)) = add_mset v (mset (map snd (concat bs')))"
proof (induction bs arbitrary: bs')
  case (Cons items rest)
  show ?case
  proof (cases "items = []")
    case False
    then have "items = butlast items @ [last items]" by simp
    then have "mset (map snd items) = mset (map snd (butlast items @ [last items]))" by simp
    then have "mset (map snd items) = add_mset (snd (last items)) (mset (map snd (butlast items)))"
      by (simp only: map_append mset_append) simp
    with False Cons.prems show ?thesis by auto
  qed (use Cons in auto)
qed simp

lemma hashmap_drain_run:
  "mset (fst (hashmap_drain hm)) = hm_values hm \<and> concat (buckets (snd (hashmap_drain hm))) = []"
proof (induction hm rule: hashmap_drain.induct)
  case (1 hm)
  show ?case
  proof (cases "empty_scan (buckets hm)")
    case None
    then show ?thesis
      by (simp add: hashmap_drain.simps [of hm] hashmap_empty_def hm_values_def)
        (simp add: empty_scan_None)
  next
    case (Some p)
    then obtain v bs where p: "empty_scan (buckets hm) = Some (v, bs)" by (cases p) auto
    then have e: "hashmap_empty hm = (Some v, hm\<lparr>buckets := bs\<rparr>)" by (simp add: hashmap_empty_def)
    from "1.IH" [OF e [symmetric]] empty_scan_values [OF p] show ?thesis
      by (simp add: hashmap_drain.simps [of hm] e hm_values_def case_prod_unfold Let_def)
  qed
qed

lemma hm_example: "\<exists>hm. hm_wf hm \<and> hm_lookup hm = [''a'' \<mapsto> (7::nat)]"
proof -
  obtain hm0 :: "nat hash_map" where hm0: "hm_wf hm0" "hm_lookup hm0 = Map.empty"
    using hashmap_new_run [of 3] by auto
  show ?thesis using hmi.put_law [OF hm0(1), of "''a''" 7] hm0(2) by auto
qed

subsection \<open>Properties\<close>

text \<open>
  On a well-formed map \<open>hashmap_get\<close> returns the stored value (NULL when there is none) and
  takes the entry out: afterwards the key is absent and every other key is unchanged.
\<close>

theorem hashmap_get_takes:
  assumes "hm_wf hm"
  shows "\<exists>hm'. hashmap_get hm key = Some (hm_lookup hm key, hm') \<and> hm_wf hm'
    \<and> hm_lookup hm' = (hm_lookup hm)(key := None)"
  using assms by (rule hashmap_get_run)

theorem hashmap_get_takes_witness:
  "\<exists>hm hm'. hm_wf hm \<and> hashmap_get hm ''a'' = Some (Some (7::nat), hm') \<and> hm_lookup hm' ''a'' = None"
proof -
  obtain hm where hm: "hm_wf hm" "hm_lookup hm = [''a'' \<mapsto> (7::nat)]" using hm_example by blast
  show ?thesis using hashmap_get_takes [OF hm(1), of "''a''"] hm by auto
qed

text \<open>
  The access pattern of the torrent code, taking an entry and putting it straight back, never
  reaches the undefined duplicate insertion, succeeds, and leaves the map unchanged.
\<close>

theorem hashmap_get_set_restores:
  assumes "hm_wf hm" "hm_lookup hm key = Some v"
  shows "\<exists>hm1 hm2. hashmap_get hm key = Some (Some v, hm1)
    \<and> hashmap_set True hm1 key v = Some (EXIT_SUCCESS, hm2)
    \<and> hm_wf hm2 \<and> hm_lookup hm2 = hm_lookup hm"
  using assms by (rule hmi.take_put_back)

theorem hashmap_get_set_restores_witness:
  "\<exists>hm hm1 hm2. hm_lookup hm ''a'' = Some (7::nat) \<and> hashmap_get hm ''a'' = Some (Some 7, hm1)
    \<and> hashmap_set True hm1 ''a'' 7 = Some (EXIT_SUCCESS, hm2) \<and> hm_lookup hm2 = hm_lookup hm"
proof -
  obtain hm where hm: "hm_wf hm" "hm_lookup hm = [''a'' \<mapsto> (7::nat)]" using hm_example by blast
  then show ?thesis using hashmap_get_set_restores [OF hm(1), of "''a''" 7] by (rule_tac exI [of _ hm]) auto
qed

text \<open>
  \<open>hashmap_set\<close> on a key that is already present has no defined behaviour, although the code
  means to report an error: the jump to its error label leaves \<open>item\<close> uninitialised.
\<close>

theorem hashmap_set_duplicate_undefined:
  assumes "hm_wf hm" "hm_lookup hm key \<noteq> None"
  shows "hashmap_set malloc_ok hm key v = None"
  using assms by (rule hashmap_set_present)

theorem hashmap_set_duplicate_undefined_witness:
  "\<exists>hm. hm_lookup hm ''a'' = Some (7::nat) \<and> hashmap_set True hm ''a'' 8 = None"
proof -
  obtain hm where hm: "hm_wf hm" "hm_lookup hm = [''a'' \<mapsto> (7::nat)]" using hm_example by blast
  then show ?thesis using hashmap_set_duplicate_undefined [OF hm(1), of "''a''" True 8] by (intro exI [of _ hm]) auto
qed

text \<open>
  The clean-up loop terminates and hands out every stored value exactly once (as a multiset),
  after which the map is empty: nothing is freed twice and nothing leaks.
\<close>

theorem hashmap_drain_complete:
  "mset (fst (hashmap_drain hm)) = hm_values hm \<and> hm_values (snd (hashmap_drain hm)) = {#}"
  using hashmap_drain_run [of hm] by (simp add: hm_values_def)

end
