(* ===== verification/Uvg_Queue.thy ===== *)
theory Uvg_Queue
  imports Uvg_Prelude
begin

text \<open>
  Singly linked nodes in memory, and the thread-safe queue of \<^verbatim>\<open>src/src/thread_pool/queue.c\<close> on
  top of them. A pointer is an \<open>addr option\<close> (\<open>None\<close> is NULL); the store maps the addresses of
  live nodes to their value and \<open>next\<close> pointer, and following a pointer outside it is undefined.
  \<open>malloc\<close> is an argument of the operations that call it: the address it returned, or NULL; that
  the address is not one of a live node is its documented behaviour and a hypothesis
  (\<open>fresh_in\<close>). Freed addresses may be handed out again. The mutex makes every operation atomic,
  so concurrent use of a queue is a sequence of operations.
\<close>

type_synonym addr = nat
type_synonym 'a store = "addr \<rightharpoonup> 'a \<times> addr option"

subsection \<open>Chains of nodes\<close>

primrec chain :: "'a store \<Rightarrow> addr option \<Rightarrow> addr list \<Rightarrow> bool" where
  "chain h p [] \<longleftrightarrow> p = None"
| "chain h p (a # as) \<longleftrightarrow> p = Some a \<and> (\<exists>v n. h a = Some (v, n) \<and> chain h n as)"

definition node_value :: "'a store \<Rightarrow> addr \<Rightarrow> 'a" where
  "node_value h a = fst (the (h a))"

definition fresh_in :: "'a store \<Rightarrow> addr \<Rightarrow> bool" where
  "fresh_in h a \<longleftrightarrow> h a = None"

text \<open>\<open>linked h head tail xs\<close>: the nodes from \<open>head\<close> hold \<open>xs\<close> in order; \<open>tail\<close> points at the last
  of them when there is one, and is otherwise arbitrary.\<close>

definition linked :: "'a store \<Rightarrow> addr option \<Rightarrow> addr option \<Rightarrow> 'a list \<Rightarrow> bool" where
  "linked h head tail xs \<longleftrightarrow>
     (\<exists>as. chain h head as \<and> distinct as \<and> map (node_value h) as = xs \<and> (as \<noteq> [] \<longrightarrow> tail = Some (last as)))"

lemma chain_live: "chain h p as \<Longrightarrow> a \<in> set as \<Longrightarrow> h a \<noteq> None"
  by (induction as arbitrary: p) auto

lemma chain_update_other: "a \<notin> set as \<Longrightarrow> chain (h(a := x)) p as = chain h p as"
  by (induction as arbitrary: p) auto

lemma node_value_update [simp]: "node_value (h(a \<mapsto> (v, n))) b = (if b = a then v else node_value h b)"
  by (simp add: node_value_def)

lemma chain_snoc:
  assumes "chain h p (as @ [t])" "distinct (as @ [t])" "h t = Some (v, n)" "h a = None"
  shows "chain (h(a \<mapsto> (w, None), t \<mapsto> (v, Some a))) p (as @ [t, a])"
  using assms
proof (induction as arbitrary: p)
  case (Cons b as)
  from Cons.prems obtain u m where b: "p = Some b" "h b = Some (u, m)" "chain h m (as @ [t])"
    by auto
  have "chain (h(a \<mapsto> (w, None), t \<mapsto> (v, Some a))) m (as @ [t, a])"
    using b(3) Cons.prems by (intro Cons.IH) auto
  moreover have "(h(a \<mapsto> (w, None), t \<mapsto> (v, Some a))) b = Some (u, m)"
    using b Cons.prems by auto
  ultimately show ?case using b(1) unfolding append.simps chain.simps by blast
qed auto

lemma linked_empty: "linked h None tail []"
  by (auto simp: linked_def intro: exI [of _ "[]"])

lemma linked_Cons_head:
  assumes "linked h head tail (x # xs)"
  obtains a n where "head = Some a" "h a = Some (x, n)" "linked (h(a := None)) n tail xs"
proof -
  from assms obtain as where "chain h head as \<and> distinct as \<and> map (node_value h) as = x # xs
      \<and> (as \<noteq> [] \<longrightarrow> tail = Some (last as))"
    unfolding linked_def ..
  then have as: "chain h head as" "distinct as" "map (node_value h) as = x # xs"
    "as \<noteq> [] \<longrightarrow> tail = Some (last as)" by simp_all
  obtain a as' where a: "as = a # as'" using as(3) by (cases as) simp_all
  with as obtain v n where n: "head = Some a" "h a = Some (v, n)" "chain h n as'" by auto
  have "map (node_value (h(a := None))) as' = xs"
    using as a by (auto simp: node_value_def)
  moreover have "v = x" using as a n by (simp add: node_value_def)
  moreover have "chain (h(a := None)) n as'" using n as a by (simp add: chain_update_other)
  ultimately have "v = x" "linked (h(a := None)) n tail xs"
    using as a unfolding linked_def by (auto intro!: exI [of _ as'])
  with that n show ?thesis by simp
qed

lemma linked_head_None: "linked h None tail xs \<longleftrightarrow> xs = []"
  by (cases xs) (auto simp: linked_empty elim: linked_Cons_head)

lemma linked_push_first:
  "linked (h(a \<mapsto> (x, None))) (Some a) (Some a) [x]"
  by (auto simp: linked_def intro!: exI [of _ "[a]"])

lemma linked_push:
  assumes "linked h head tail xs" "xs \<noteq> []" "fresh_in h a"
  obtains t v n where "tail = Some t" "h t = Some (v, n)" "t \<noteq> a"
    "linked (h(a \<mapsto> (x, None), t \<mapsto> (v, Some a))) head (Some a) (xs @ [x])"
proof -
  from assms(1,2) obtain as where as: "chain h head as" "distinct as" "map (node_value h) as = xs"
    "as \<noteq> []" "tail = Some (last as)"
    by (auto simp: linked_def)
  define t where "t = last as"
  obtain bs where bs: "as = bs @ [t]" using as(4) t_def by (metis append_butlast_last_id)
  obtain v n where v: "h t = Some (v, n)" using chain_live [OF as(1), of t] bs by auto
  have a: "h a = None" "a \<notin> set as"
    using assms(3) chain_live [OF as(1), of a] by (auto simp: fresh_in_def)
  have "chain (h(a \<mapsto> (x, None), t \<mapsto> (v, Some a))) head (bs @ [t, a])"
    using as(1,2) v a(1) unfolding bs by (rule chain_snoc)
  moreover have "map (node_value (h(a \<mapsto> (x, None), t \<mapsto> (v, Some a)))) (bs @ [t, a]) = xs @ [x]"
    using as(3) bs a(2) v by (auto simp: node_value_def)
  moreover have "distinct (bs @ [t, a])" using as(2) bs a(2) by auto
  ultimately have "linked (h(a \<mapsto> (x, None), t \<mapsto> (v, Some a))) head (Some a) (xs @ [x])"
    unfolding linked_def by (intro exI [of _ "bs @ [t, a]"]) simp
  moreover have "t \<noteq> a" using v a(1) by auto
  ultimately show ?thesis using that [of t v n] as(5) t_def v by simp
qed

subsection \<open>The queue\<close>

record 'v queue =
  nodes :: "'v store"
  count :: int
  head :: "addr option"
  tail :: "addr option"

text \<open>\<open>queue_free\<close> looks into the queue before it tests the pointer, so that NULL is undefined;
  \<open>queue_new\<close> calls it with NULL when \<open>malloc\<close> fails.\<close>

definition queue_free :: "'v queue option \<Rightarrow> 'v queue option option" where
  "queue_free q = (case q of None \<Rightarrow> None | Some _ \<Rightarrow> Some None)"

definition queue_new :: "bool \<Rightarrow> 'v queue option option" where
  "queue_new malloc_ok =
     (if malloc_ok then Some (Some \<lparr>nodes = Map.empty, count = 0, head = None, tail = None\<rparr>) else queue_free None)"

text \<open>The counter is an \<open>int\<close> of 32 bits in the code; \<open>2 ^ 31\<close> nodes of one queue are taken to be out of reach.\<close>

definition queue_push :: "'v queue \<Rightarrow> addr option \<Rightarrow> 'v \<Rightarrow> (status \<times> 'v queue) option" where
  "queue_push q malloc_result elem =
     (case malloc_result of
        None \<Rightarrow> Some (EXIT_FAILURE, q)
      | Some node \<Rightarrow>
          (let q = q\<lparr>nodes := (nodes q)(node \<mapsto> (elem, None))\<rparr> in
           if head q = None
           then Some (EXIT_SUCCESS, q\<lparr>head := Some node, tail := Some node, count := count q + 1\<rparr>)
           else do {
             t \<leftarrow> tail q;
             (v, _) \<leftarrow> nodes q t;
             Some (EXIT_SUCCESS,
               q\<lparr>nodes := (nodes q)(t \<mapsto> (v, Some node)), tail := Some node, count := count q + 1\<rparr>)
           }))"

definition queue_pop :: "'v queue \<Rightarrow> ('v option \<times> 'v queue) option" where
  "queue_pop q =
     (if count q = 0 then Some (None, q)
      else do {
        h \<leftarrow> head q;
        (elem, n) \<leftarrow> nodes q h;
        Some (Some elem, q\<lparr>head := n, count := count q - 1, nodes := (nodes q)(h := None)\<rparr>)
      })"

definition queue_get_count :: "'v queue \<Rightarrow> int" where
  "queue_get_count q = count q"

text \<open>The consumer loop \<open>while (queue_get_count(q) > 0) { x = queue_pop(q); ... }\<close>.\<close>

function queue_drain :: "'v queue \<Rightarrow> ('v option list \<times> 'v queue) option" where
  "queue_drain q =
     (if queue_get_count q > 0 then
        (case queue_pop q of
           None \<Rightarrow> None
         | Some (x, q') \<Rightarrow> map_option (\<lambda>(xs, q''). (x # xs, q'')) (queue_drain q'))
      else Some ([], q))"
  by pat_completeness auto

termination queue_drain
  by (relation "measure (\<lambda>q. nat (count q))")
    (auto simp: queue_get_count_def queue_pop_def in_set_bind_option split: if_splits)

declare queue_drain.simps [simp del]

definition queue_rep :: "'v queue \<Rightarrow> 'v list \<Rightarrow> bool" where
  "queue_rep q xs \<longleftrightarrow> linked (nodes q) (head q) (tail q) xs \<and> count q = int (length xs)"

subsection \<open>The interface: a first-in first-out buffer\<close>

locale fifo =
  fixes push :: "'q \<Rightarrow> addr option \<Rightarrow> 'v \<Rightarrow> (status \<times> 'q) option"
    and pop :: "'q \<Rightarrow> ('v option \<times> 'q) option"
    and size_of :: "'q \<Rightarrow> int"
    and rep :: "'q \<Rightarrow> 'v list \<Rightarrow> bool"
    and fresh :: "'q \<Rightarrow> addr \<Rightarrow> bool"
  assumes push_law: "rep q xs \<Longrightarrow> fresh q a \<Longrightarrow>
      \<exists>q'. push q (Some a) x = Some (EXIT_SUCCESS, q') \<and> rep q' (xs @ [x])"
    and push_fail: "push q None x = Some (EXIT_FAILURE, q)"
    and pop_empty: "rep q [] \<Longrightarrow> pop q = Some (None, q)"
    and pop_law: "rep q (x # xs) \<Longrightarrow> \<exists>q'. pop q = Some (Some x, q') \<and> rep q' xs"
    and size_law: "rep q xs \<Longrightarrow> size_of q = int (length xs)"
begin

lemma pop_all:
  "rep q xs \<Longrightarrow> \<exists>q'. traceM (\<lambda>_. pop) xs q = Some (map Some xs, q') \<and> rep q' []"
proof (induction xs arbitrary: q)
  case (Cons x xs)
  then obtain q1 where "pop q = Some (Some x, q1)" "rep q1 xs" using pop_law by blast
  with Cons.IH [of q1] show ?case by auto
qed auto

lemma push_then_pop_all:
  assumes "rep q xs" "fresh q a"
  shows "\<exists>q1 q2. push q (Some a) x = Some (EXIT_SUCCESS, q1)
    \<and> traceM (\<lambda>_. pop) (xs @ [x]) q1 = Some (map Some xs @ [Some x], q2) \<and> rep q2 []"
  using push_law [OF assms, of x] pop_all [of _ "xs @ [x]"] by fastforce

end

interpretation qi: fifo queue_push queue_pop queue_get_count queue_rep "\<lambda>q. fresh_in (nodes q)"
proof unfold_locales
  fix q :: "'v queue" and xs x a
  assume rep: "queue_rep q xs" and a: "fresh_in (nodes q) a"
  show "\<exists>q'. queue_push q (Some a) x = Some (EXIT_SUCCESS, q') \<and> queue_rep q' (xs @ [x])"
  proof (cases "head q")
    case None
    with rep have "xs = []" by (simp add: queue_rep_def linked_head_None)
    with None rep linked_push_first [of "nodes q" a x] show ?thesis
      by (simp add: queue_push_def queue_rep_def)
  next
    case (Some hd)
    with rep have ne: "xs \<noteq> []" by (auto simp: queue_rep_def linked_def)
    from rep have l: "linked (nodes q) (head q) (tail q) xs" by (simp add: queue_rep_def)
    obtain t v n where "tail q = Some t" "nodes q t = Some (v, n)" "t \<noteq> a"
      "linked ((nodes q)(a \<mapsto> (x, None), t \<mapsto> (v, Some a))) (head q) (Some a) (xs @ [x])"
      by (rule linked_push [OF l ne a])
    with Some rep show ?thesis by (simp add: queue_push_def queue_rep_def)
  qed
next
  fix q :: "'v queue" and x xs
  assume rep: "queue_rep q (x # xs)"
  then obtain a n where "head q = Some a" "nodes q a = Some (x, n)"
    "linked ((nodes q)(a := None)) n (tail q) xs"
    by (auto simp: queue_rep_def elim: linked_Cons_head)
  with rep show "\<exists>q'. queue_pop q = Some (Some x, q') \<and> queue_rep q' xs"
    by (simp add: queue_pop_def queue_rep_def)
qed (simp_all add: queue_push_def queue_pop_def queue_get_count_def queue_rep_def)

lemma queue_drain_run:
  "queue_rep q xs \<Longrightarrow> \<exists>q'. queue_drain q = Some (map Some xs, q') \<and> queue_rep q' []"
proof (induction xs arbitrary: q)
  case Nil
  then show ?case by (simp add: queue_drain.simps [of q] qi.size_law)
next
  case (Cons x xs)
  obtain q1 where q1: "queue_pop q = Some (Some x, q1)" "queue_rep q1 xs"
    using qi.pop_law [OF Cons.prems] by blast
  with Cons.IH [OF q1(2)] qi.size_law [OF Cons.prems] show ?case
    by (auto simp: queue_drain.simps [of q])
qed

subsection \<open>Refinement of a list under any sequence of operations\<close>

datatype 'v qop = QPush "addr option" 'v | QPop | QCount
datatype 'v qres = RStatus status | RValue "'v option" | RCount int

fun queue_step :: "'v qop \<Rightarrow> 'v queue \<Rightarrow> ('v qres \<times> 'v queue) option" where
  "queue_step (QPush m x) q = map_option (\<lambda>(r, q'). (RStatus r, q')) (queue_push q m x)"
| "queue_step QPop q = map_option (\<lambda>(r, q'). (RValue r, q')) (queue_pop q)"
| "queue_step QCount q = Some (RCount (queue_get_count q), q)"

text \<open>The specification: the same operations on a plain list.\<close>

fun fifo_step :: "'v qop \<Rightarrow> 'v list \<Rightarrow> 'v qres \<times> 'v list" where
  "fifo_step (QPush None x) xs = (RStatus EXIT_FAILURE, xs)"
| "fifo_step (QPush (Some a) x) xs = (RStatus EXIT_SUCCESS, xs @ [x])"
| "fifo_step QPop [] = (RValue None, [])"
| "fifo_step QPop (x # xs) = (RValue (Some x), xs)"
| "fifo_step QCount xs = (RCount (int (length xs)), xs)"

fun fifo_trace :: "'v qop list \<Rightarrow> 'v list \<Rightarrow> 'v qres list \<times> 'v list" where
  "fifo_trace [] xs = ([], xs)"
| "fifo_trace (x # ops) xs =
     (let (r, xs') = fifo_step x xs; (rs, xs'') = fifo_trace ops xs' in (r # rs, xs''))"

text \<open>Every successful \<open>malloc\<close> of the run returns an address that is not live at that moment.\<close>

fun malloc_fresh :: "'v qop list \<Rightarrow> 'v queue \<Rightarrow> bool" where
  "malloc_fresh [] q \<longleftrightarrow> True"
| "malloc_fresh (x # ops) q \<longleftrightarrow>
     (case x of QPush (Some a) _ \<Rightarrow> fresh_in (nodes q) a | _ \<Rightarrow> True)
     \<and> (case queue_step x q of Some (_, q') \<Rightarrow> malloc_fresh ops q' | None \<Rightarrow> True)"

lemma queue_step_simulates:
  assumes "queue_rep q xs" "case x of QPush (Some a) _ \<Rightarrow> fresh_in (nodes q) a | _ \<Rightarrow> True"
  shows "\<exists>q'. queue_step x q = Some (fst (fifo_step x xs), q') \<and> queue_rep q' (snd (fifo_step x xs))"
proof (cases x)
  case (QPush m v)
  then show ?thesis using assms qi.push_law [of q xs _ v]
    by (cases m) (auto simp: qi.push_fail)
next
  case QPop
  then show ?thesis using assms qi.pop_law [of q] qi.pop_empty [of q] by (cases xs) auto
qed (use assms in \<open>simp add: qi.size_law\<close>)

subsection \<open>Properties\<close>

text \<open>
  C19: for every sequence of pushes, pops and count queries, with \<open>malloc\<close> returning fresh
  addresses or failing, the linked queue gives exactly the results of a list used first-in
  first-out, never follows a NULL or dangling pointer (the stale \<open>tail\<close> left by emptying the
  queue included), and keeps its count equal to the number of elements.
\<close>

theorem queue_refines_fifo:
  assumes "queue_rep q xs" "malloc_fresh ops q"
  shows "\<exists>q'. traceM queue_step ops q = Some (fst (fifo_trace ops xs), q')
    \<and> queue_rep q' (snd (fifo_trace ops xs))"
  using assms
proof (induction ops arbitrary: q xs)
  case (Cons x ops)
  obtain q1 where q1: "queue_step x q = Some (fst (fifo_step x xs), q1)"
    "queue_rep q1 (snd (fifo_step x xs))"
    using queue_step_simulates [of q xs x] Cons.prems by auto
  moreover have "malloc_fresh ops q1" using Cons.prems(2) q1(1) by simp
  ultimately show ?case using Cons.IH [of q1 "snd (fifo_step x xs)"]
    by (auto simp: case_prod_unfold Let_def)
qed simp

theorem queue_refines_fifo_witness:
  "\<exists>q'. traceM queue_step [QPush (Some 1) ''a'', QPop, QPush (Some 1) ''b'', QPush None ''c'', QCount, QPop]
      \<lparr>nodes = Map.empty, count = 0, head = None, tail = None\<rparr>
    = Some ([RStatus 0, RValue (Some ''a''), RStatus 0, RStatus 1, RCount 1, RValue (Some ''b'')], q')"
  using queue_refines_fifo [of "\<lparr>nodes = Map.empty, count = 0, head = None, tail = None\<rparr>" "[]"
      "[QPush (Some 1) ''a'', QPop, QPush (Some 1) ''b'', QPush None ''c'', QCount, QPop]"]
  by (auto simp: queue_rep_def linked_empty fresh_in_def queue_push_def queue_pop_def queue_get_count_def)

text \<open>
  The consumer loop terminates on a well-formed queue, receives every element in the order of
  insertion, never a NULL, and leaves the queue empty.
\<close>

theorem queue_drain_in_order:
  assumes "queue_rep q xs"
  shows "\<exists>q'. queue_drain q = Some (map Some xs, q') \<and> queue_get_count q' = 0"
  using queue_drain_run [OF assms] qi.size_law by fastforce

theorem queue_drain_in_order_witness:
  "\<exists>q'. queue_drain \<lparr>nodes = [4 \<mapsto> (''x'', Some 9), 9 \<mapsto> (''y'', None)], count = 2, head = Some 4, tail = Some 9\<rparr>
      = Some ([Some ''x'', Some ''y''], q') \<and> queue_get_count q' = 0"
proof -
  have "queue_rep \<lparr>nodes = [4 \<mapsto> (''x'', Some 9), 9 \<mapsto> (''y'', None)], count = 2, head = Some 4, tail = Some 9\<rparr>
      [''x'', ''y'']"
    by (auto simp: queue_rep_def linked_def node_value_def intro!: exI [of _ "[4, 9]"])
  from queue_drain_in_order [OF this] show ?thesis by simp
qed

end
