(* ===== verification/Uvg_NetUtils.thy ===== *)
theory Uvg_NetUtils
  imports Uvg_Prelude
begin

unbundle bit_operations_syntax

text \<open>
  The byte-order helpers and the polling reader of \<^verbatim>\<open>src/src/net_utils\<close>. The host byte order is a
  parameter (\<open>True\<close>: little endian), \<open>mem32\<close> and its kin lay a value out in memory, and the C
  library's \<open>ntohl\<close> family swaps on little-endian hosts only. System calls are arguments: a poll
  outcome per iteration.
\<close>

subsection \<open>Bytes of a value in memory\<close>

definition be16 :: "u16 \<Rightarrow> u8 list" where
  "be16 w = [ucast (drop_bit 8 w), ucast w]"

definition be32 :: "u32 \<Rightarrow> u8 list" where
  "be32 w = [ucast (drop_bit 24 w), ucast (drop_bit 16 w), ucast (drop_bit 8 w), ucast w]"

definition be64 :: "u64 \<Rightarrow> u8 list" where
  "be64 w = be32 (ucast (drop_bit 32 w)) @ be32 (ucast w)"

definition mem16 :: "bool \<Rightarrow> u16 \<Rightarrow> u8 list" where
  "mem16 little w = (if little then rev (be16 w) else be16 w)"

definition mem32 :: "bool \<Rightarrow> u32 \<Rightarrow> u8 list" where
  "mem32 little w = (if little then rev (be32 w) else be32 w)"

definition mem64 :: "bool \<Rightarrow> u64 \<Rightarrow> u8 list" where
  "mem64 little w = (if little then rev (be64 w) else be64 w)"

definition bswap16 :: "u16 \<Rightarrow> u16" where
  "bswap16 w = push_bit 8 (take_bit 8 w) OR take_bit 8 (drop_bit 8 w)"

definition bswap32 :: "u32 \<Rightarrow> u32" where
  "bswap32 w = push_bit 24 (take_bit 8 w) OR push_bit 16 (take_bit 8 (drop_bit 8 w))
     OR push_bit 8 (take_bit 8 (drop_bit 16 w)) OR take_bit 8 (drop_bit 24 w)"

text \<open>The C library's conversions, which are their own inverses.\<close>

definition libc_ntohl :: "bool \<Rightarrow> u32 \<Rightarrow> u32" where
  "libc_ntohl little w = (if little then bswap32 w else w)"

definition libc_ntohs :: "bool \<Rightarrow> u16 \<Rightarrow> u16" where
  "libc_ntohs little w = (if little then bswap16 w else w)"

subsection \<open>The helpers\<close>

definition little_endianess :: "bool \<Rightarrow> bool" where
  "little_endianess little \<longleftrightarrow> hd (mem32 little 0x01234567) = 0x67"

definition byteswap64 :: "bool \<Rightarrow> u64 \<Rightarrow> u64" where
  "byteswap64 little input =
     (let v1 = ucast (libc_ntohl little (ucast (input AND 0x00000000ffffffff))) :: u64;
          v2 = ucast (libc_ntohl little (ucast (drop_bit 32 input))) :: u64
      in push_bit 32 v1 OR v2)"

definition htonll_util :: "bool \<Rightarrow> u64 \<Rightarrow> u64" where
  "htonll_util little input = (if little_endianess little then byteswap64 little input else input)"

definition htonl_util :: "bool \<Rightarrow> u32 \<Rightarrow> u32" where
  "htonl_util little input = (if little_endianess little then libc_ntohl little input else input)"

definition htons_util :: "bool \<Rightarrow> u16 \<Rightarrow> u16" where
  "htons_util little input = (if little_endianess little then libc_ntohs little input else input)"

definition ntohll_util :: "bool \<Rightarrow> u64 \<Rightarrow> u64" where
  "ntohll_util little input = (if little_endianess little then byteswap64 little input else input)"

definition ntohl_util :: "bool \<Rightarrow> u32 \<Rightarrow> u32" where
  "ntohl_util little input = (if little_endianess little then libc_ntohl little input else input)"

definition ntohs_util :: "bool \<Rightarrow> u16 \<Rightarrow> u16" where
  "ntohs_util little input = (if little_endianess little then libc_ntohs little input else input)"

lemma little_endianess_correct: "little_endianess little = little"
  by (simp add: little_endianess_def mem32_def be32_def)

lemma ucast_bswap16:
  "(ucast (bswap16 w) :: u8) = ucast (drop_bit 8 w)"
  "(ucast (drop_bit 8 (bswap16 w)) :: u8) = ucast w"
  unfolding bswap16_def by (rule bit_word_eqI; auto simp: bit_simps)+

lemma ucast_bswap32:
  "(ucast (bswap32 w) :: u8) = ucast (drop_bit 24 w)"
  "(ucast (drop_bit 8 (bswap32 w)) :: u8) = ucast (drop_bit 16 w)"
  "(ucast (drop_bit 16 (bswap32 w)) :: u8) = ucast (drop_bit 8 w)"
  "(ucast (drop_bit 24 (bswap32 w)) :: u8) = ucast w"
  unfolding bswap32_def by (rule bit_word_eqI; auto simp: bit_simps)+

lemma be32_bswap32: "be32 (bswap32 w) = rev (be32 w)"
  by (simp add: be32_def ucast_bswap32)

lemma be16_bswap16: "be16 (bswap16 w) = rev (be16 w)"
  by (simp add: be16_def ucast_bswap16)

lemma ucast_byteswap64:
  "(ucast (byteswap64 True w) :: u32) = bswap32 (ucast (drop_bit 32 w))"
  "(ucast (drop_bit 32 (byteswap64 True w)) :: u32) = bswap32 (ucast w)"
proof -
  have "w AND 0x00000000ffffffff = take_bit 32 w"
    by (simp add: take_bit_eq_mask mask_eq_exp_minus_1)
  then have low: "(ucast (w AND 0x00000000ffffffff) :: u32) = ucast w"
    by (auto intro!: bit_word_eqI simp: bit_simps)
  show "(ucast (byteswap64 True w) :: u32) = bswap32 (ucast (drop_bit 32 w))"
    unfolding byteswap64_def low libc_ntohl_def Let_def
    by (rule bit_word_eqI) (auto simp: bit_simps)
  show "(ucast (drop_bit 32 (byteswap64 True w)) :: u32) = bswap32 (ucast w)"
    unfolding byteswap64_def low libc_ntohl_def Let_def
    by (rule bit_word_eqI) (auto simp: bit_simps dest: bit_imp_le_length)
qed

lemma be64_byteswap64: "be64 (byteswap64 True w) = rev (be64 w)"
  by (simp add: be64_def ucast_byteswap64 be32_bswap32)

subsection \<open>Loading a field from memory\<close>

fun load_be16 :: "u8 list \<Rightarrow> u16" where
  "load_be16 [a, b] = push_bit 8 (ucast a) OR ucast b"
| "load_be16 _ = 0"

fun load_be32 :: "u8 list \<Rightarrow> u32" where
  "load_be32 [a, b, c, d] = push_bit 24 (ucast a) OR push_bit 16 (ucast b) OR push_bit 8 (ucast c) OR ucast d"
| "load_be32 _ = 0"

definition load_be64 :: "u8 list \<Rightarrow> u64" where
  "load_be64 bs = push_bit 32 (ucast (load_be32 (take 4 bs))) OR ucast (load_be32 (drop 4 bs))"

definition load32 :: "bool \<Rightarrow> u8 list \<Rightarrow> u32" where
  "load32 little bs = load_be32 (if little then rev bs else bs)"

definition load16 :: "bool \<Rightarrow> u8 list \<Rightarrow> u16" where
  "load16 little bs = load_be16 (if little then rev bs else bs)"

lemma length_be [simp]: "length (be16 x) = 2" "length (be32 y) = 4" "length (be64 z) = 8"
  by (simp_all add: be16_def be32_def be64_def)

lemma octet_cases:
  assumes "n < (32::nat)"
  shows "n < 8 \<or> (\<exists>k < 8. n = 8 + k) \<or> (\<exists>k < 8. n = 16 + k) \<or> (\<exists>k < 8. n = 24 + k)"
  using assms by presburger

lemma load_be32_be32 [simp]: "load_be32 (be32 w) = w"
proof (rule bit_word_eqI)
  fix n assume "n < LENGTH(32)"
  then have "n < 32" by simp
  from octet_cases [OF this] show "bit (load_be32 (be32 w)) n = bit w n"
    unfolding be32_def load_be32.simps by (auto simp: bit_simps)
qed

lemma load_be16_be16 [simp]: "load_be16 (be16 w) = w"
  unfolding be16_def load_be16.simps by (rule bit_word_eqI) (auto simp: bit_simps)

lemma load_be64_be64 [simp]: "load_be64 (be64 w) = w"
  unfolding be64_def load_be64_def
  by (simp add: be32_def [symmetric]) (rule bit_word_eqI, auto simp: bit_simps)

lemma length_4_cases: "length bs = 4 \<longleftrightarrow> (\<exists>a b c d. bs = [a, b, c, d])"
  by (auto simp: numeral_eq_Suc length_Suc_conv)

lemma be32_load_be32: "length bs = 4 \<Longrightarrow> be32 (load_be32 bs) = bs"
  unfolding length_4_cases
  by (auto simp: be32_def; rule bit_word_eqI; auto simp: bit_simps dest: bit_imp_le_length)

lemma be32_inject: "be32 v = be32 w \<longleftrightarrow> v = w"
  by (metis load_be32_be32)

lemma ntohl_load32 [simp]:
  assumes "length bs = 4"
  shows "ntohl_util little (load32 little bs) = load_be32 bs"
proof (cases little)
  case True
  have "be32 (bswap32 (load_be32 (rev bs))) = be32 (load_be32 bs)"
    using assms by (simp add: be32_bswap32 be32_load_be32)
  with True show ?thesis
    by (simp add: ntohl_util_def little_endianess_correct libc_ntohl_def load32_def be32_inject)
qed (simp add: ntohl_util_def little_endianess_correct libc_ntohl_def load32_def)

text \<open>Storing a converted field puts its big-endian bytes in memory, on either kind of host.\<close>

lemma mem32_htonl [simp]: "mem32 little (htonl_util little w) = be32 w"
  by (simp add: mem32_def htonl_util_def little_endianess_correct libc_ntohl_def be32_bswap32)

lemma mem16_htons [simp]: "mem16 little (htons_util little w) = be16 w"
  by (simp add: mem16_def htons_util_def little_endianess_correct libc_ntohs_def be16_bswap16)

lemma mem64_htonll [simp]: "mem64 little (htonll_util little w) = be64 w"
  by (simp add: mem64_def htonll_util_def little_endianess_correct be64_byteswap64)

subsection \<open>Reading with a timeout\<close>

text \<open>
  One iteration of \<open>read_poll\<close>: the outcome of \<open>poll\<close> (with one second) and, when data is
  readable, of \<open>read\<close>; the flag is the cancel flag seen after the poll. The loop runs over the
  outcomes the system delivers; \<open>None\<close> says that it is still polling after all of them. A
  result of \<open>-1\<close> is the \<open>size_t\<close> the callers compare with \<open>-1\<close>.
\<close>

datatype poll_outcome = PollError | PollTimeout | PollReadable int "u8 list" | PollOther

fun read_poll :: "int \<Rightarrow> (poll_outcome \<times> bool) list \<Rightarrow> (int \<times> u8 list) option" where
  "read_poll tv_sec [] = None"
| "read_poll tv_sec ((ret, cancel) # rest) =
     (if cancel then Some (-1, [])
      else case ret of
        PollError \<Rightarrow> Some (-1, [])
      | PollTimeout \<Rightarrow> (if tv_sec - 1 = 0 then Some (0, []) else read_poll (tv_sec - 1) rest)
      | PollReadable n bs \<Rightarrow> Some (n, bs)
      | PollOther \<Rightarrow> Some (-1, []))"

text \<open>\<open>connect_wait\<close>: the results of \<open>fcntl\<close>, \<open>connect\<close>, \<open>select\<close>, \<open>getsockopt\<close> in call order.\<close>

record connect_calls =
  getfl :: int
  setfl_nonblock :: int
  connect_result :: int
  einprogress :: bool
  select_result :: int
  setfl_restore :: int
  getsockopt_result :: int
  so_error :: int

definition connect_wait :: "connect_calls \<Rightarrow> int" where
  "connect_wait c =
     (if getfl c < 0 then -1
      else if setfl_nonblock c < 0 then -1
      else let res = (if connect_result c < 0
                      then (if einprogress c then select_result c else connect_result c)
                      else 1)
        in if setfl_restore c < 0 then -1
           else if res < 0 then -1
           else if res = 0 then 1
           else if getsockopt_result c < 0 then -1
           else if so_error c \<noteq> 0 then -1
           else 0)"

lemma read_poll_total:
  assumes "0 < tv_sec" "tv_sec \<le> int (length outs)"
  shows "\<exists>r. read_poll tv_sec outs = Some r"
  using assms
proof (induction tv_sec outs rule: read_poll.induct)
  case (2 tv_sec ret cancel rest)
  then show ?case by (auto split: poll_outcome.splits)
qed simp

subsection \<open>Properties\<close>

text \<open>
  On hosts of either byte order, a 16, 32 or 64 bit field converted with the \<open>hton\<close> helpers
  lies in memory most significant byte first, and the \<open>ntoh\<close> helpers undo the conversion.
\<close>

theorem byte_order_helpers:
  "mem16 little (htons_util little x) = be16 x \<and> ntohs_util little (htons_util little x) = x
   \<and> mem32 little (htonl_util little y) = be32 y \<and> ntohl_util little (htonl_util little y) = y
   \<and> mem64 little (htonll_util little z) = be64 z \<and> ntohll_util little (htonll_util little z) = z"
proof -
  have b16: "bswap16 (bswap16 x) = x"
    by (metis be16_bswap16 load_be16_be16 rev_rev_ident)
  have b32: "bswap32 (bswap32 y) = y"
    by (metis be32_bswap32 load_be32_be32 rev_rev_ident)
  have b64: "byteswap64 True (byteswap64 True z) = z"
    by (metis be64_byteswap64 load_be64_be64 rev_rev_ident)
  show ?thesis
    by (simp add: ntohs_util_def htons_util_def ntohl_util_def htonl_util_def ntohll_util_def
        htonll_util_def little_endianess_correct libc_ntohl_def libc_ntohs_def b16 b32 b64
        mem16_def mem32_def mem64_def be16_bswap16 be32_bswap32 be64_byteswap64)
qed

text \<open>
  With a positive timeout \<open>read_poll\<close> returns after at most that many one-second polls, and
  when all of them expire without a cancellation it returns 0, which its callers take for a timeout.
\<close>

theorem read_poll_returns:
  assumes "0 < tv_sec" "tv_sec \<le> int (length outs)"
  shows "\<exists>n bs. read_poll tv_sec outs = Some (n, bs)
    \<and> (take (nat tv_sec) outs = replicate (nat tv_sec) (PollTimeout, False) \<longrightarrow> n = 0 \<and> bs = [])"
  using assms
proof (induction tv_sec outs rule: read_poll.induct)
  case (2 tv_sec ret cancel rest)
  then have tv: "nat tv_sec = Suc (nat (tv_sec - 1))" by simp
  show ?case
  proof (cases "(ret, cancel) = (PollTimeout, False) \<and> tv_sec \<noteq> 1")
    case True
    then have "\<exists>n bs. read_poll (tv_sec - 1) rest = Some (n, bs)
      \<and> (take (nat (tv_sec - 1)) rest = replicate (nat (tv_sec - 1)) (PollTimeout, False)
          \<longrightarrow> n = 0 \<and> bs = [])"
      using 2 by auto
    with True show ?thesis unfolding tv by simp
  next
    case False
    then show ?thesis unfolding tv by (auto split: poll_outcome.splits)
  qed
qed simp

theorem read_poll_returns_witness:
  "read_poll 2 [(PollTimeout, False), (PollTimeout, False), (PollError, True)] = Some (0, [])"
  using read_poll_returns [of 2 "[(PollTimeout, False), (PollTimeout, False), (PollError, True)]"]
  by (auto simp: numeral_2_eq_2)

end
