(* ===== verification/Uvg_BufferedSocket.thy ===== *)
theory Uvg_BufferedSocket
  imports Uvg_Queue
begin

text \<open>
  The non-blocking socket wrapper of \<^verbatim>\<open>src/src/buffered_socket\<close>. The write buffers are linked
  nodes (\<^verbatim>\<open>Uvg_Queue\<close>) reached from a head pointer for sending and a tail pointer for appending;
  the read buffer is one block of bytes. The system calls are arguments: what \<open>poll\<close>, \<open>read\<close>
  and \<open>write\<close> return, and the clock reading \<open>now()\<close>. Calls take a socket pointer that may be NULL.
  The \<open>size_t\<close> result \<open>-1\<close> is written \<open>-1\<close>. The floating-point transfer rates are left out; the
  times of the last updates, which decide keep-alives and timeouts, are kept. Where the code uses
  the result of \<open>malloc\<close> or \<open>realloc\<close> without a test, a failure is undefined behaviour.
\<close>

record write_buffer =
  data :: "u8 list"
  data_sent :: nat
  data_size :: nat

record buffered_socket =
  opt :: int
  socket :: int
  wb_nodes :: "write_buffer store"
  write_buffer_head :: "addr option"
  write_buffer_tail :: "addr option"
  read_buffer :: "u8 list"
  read_buffer_size :: nat
  last_download_rate_update :: int
  last_upload_rate_update :: int

definition buffered_socket_new :: "bool \<Rightarrow> int \<Rightarrow> int \<Rightarrow> buffered_socket option" where
  "buffered_socket_new malloc_ok now1 now2 =
     (if malloc_ok then
        Some \<lparr>opt = 0, socket = -1, wb_nodes = Map.empty, write_buffer_head = None,
          write_buffer_tail = None, read_buffer = [], read_buffer_size = 0,
          last_download_rate_update = now1, last_upload_rate_update = now2\<rparr>
      else None)"

text \<open>\<open>fcntl\<close> results: the flags (negative on failure) and the status of setting them.\<close>

definition buffered_socket_set_socket_fd ::
  "buffered_socket \<Rightarrow> int \<Rightarrow> int \<Rightarrow> int \<Rightarrow> status \<times> buffered_socket" where
  "buffered_socket_set_socket_fd s fd flags setfl =
     (let s = s\<lparr>socket := fd, opt := flags\<rparr> in
      if flags < 0 then (EXIT_FAILURE, s)
      else if setfl < 0 then (EXIT_FAILURE, s)
      else (EXIT_SUCCESS, s))"

definition buffered_socket_connect ::
  "buffered_socket \<Rightarrow> int \<Rightarrow> int \<Rightarrow> int \<Rightarrow> int \<Rightarrow> bool \<Rightarrow> status \<times> buffered_socket" where
  "buffered_socket_connect s fd flags setfl conn einprogress =
     (let s1 = s\<lparr>socket := fd\<rparr> in
      if fd = -1 then (EXIT_FAILURE, s1)
      else let s2 = s1\<lparr>opt := flags\<rparr> in
        if flags < 0 then (EXIT_FAILURE, s2)
        else if setfl < 0 then (EXIT_FAILURE, s2)
        else if conn < 0 \<and> \<not> einprogress then (EXIT_FAILURE, s2)
        else (EXIT_SUCCESS, s2))"

definition buffered_socket_can_write :: "buffered_socket option \<Rightarrow> bool \<Rightarrow> int" where
  "buffered_socket_can_write s pollout =
     (case s of Some b \<Rightarrow> (if socket b \<noteq> -1 then (if pollout then 1 else 0) else 0) | None \<Rightarrow> 0)"

definition buffered_socket_can_network_write :: "buffered_socket option \<Rightarrow> int" where
  "buffered_socket_can_network_write s =
     (case s of
        Some b \<Rightarrow> (if socket b \<noteq> -1 then of_bool (write_buffer_head b \<noteq> None) else 0)
      | None \<Rightarrow> 0)"

definition buffered_socket_can_network_read :: "buffered_socket option \<Rightarrow> bool \<Rightarrow> int" where
  "buffered_socket_can_network_read s pollin =
     (case s of Some b \<Rightarrow> (if socket b \<noteq> -1 then (if pollin then 1 else 0) else 0) | None \<Rightarrow> 0)"

definition buffered_socket_can_read :: "buffered_socket option \<Rightarrow> int" where
  "buffered_socket_can_read s =
     (case s of Some b \<Rightarrow> (if socket b \<noteq> -1 then of_bool (read_buffer_size b \<noteq> 0) else 0) | None \<Rightarrow> 0)"

definition buffered_socket_has_hungup :: "buffered_socket option \<Rightarrow> bool \<Rightarrow> int" where
  "buffered_socket_has_hungup s pollhup =
     (case s of Some b \<Rightarrow> (if socket b \<noteq> -1 then (if pollhup then 1 else 0) else 0) | None \<Rightarrow> 0)"

definition buffered_socket_write ::
  "buffered_socket option \<Rightarrow> addr option \<Rightarrow> bool \<Rightarrow> u8 list \<Rightarrow> (int \<times> buffered_socket option) option" where
  "buffered_socket_write s malloc_result data_malloc_ok payload =
     (case s of
        None \<Rightarrow> Some (-1, None)
      | Some b \<Rightarrow>
          if socket b = -1 then Some (-1, Some b)
          else (case malloc_result of
              None \<Rightarrow> Some (-1, Some b)
            | Some node \<Rightarrow>
                if \<not> data_malloc_ok then None
                else (let wb = \<lparr>data = payload, data_sent = 0, data_size = length payload\<rparr>;
                     b = b\<lparr>wb_nodes := (wb_nodes b)(node \<mapsto> (wb, None))\<rparr>
                 in case write_buffer_tail b of
                      None \<Rightarrow> Some (int (length payload),
                        Some (b\<lparr>write_buffer_head := Some node, write_buffer_tail := Some node\<rparr>))
                    | Some t \<Rightarrow> do {
                        (v, _) \<leftarrow> wb_nodes b t;
                        Some (int (length payload),
                          Some (b\<lparr>wb_nodes := (wb_nodes b)(t \<mapsto> (v, Some node)), write_buffer_tail := Some node\<rparr>))
                      })))"

text \<open>
  The sending loop. \<open>results\<close> are the results of the successive \<open>write\<close> calls (after them the
  socket would block); the last component collects the bytes handed to the network.
\<close>

datatype write_result = WouldBlock | WriteError | Sent nat
datatype loop_exit = LoopDone | LoopError | LoopZero

fun network_write_loop ::
  "write_result list \<Rightarrow> buffered_socket \<Rightarrow> u8 list \<Rightarrow> (loop_exit \<times> buffered_socket \<times> u8 list) option" where
  "network_write_loop results b out =
     (case write_buffer_head b of
        None \<Rightarrow> Some (LoopDone, b, out)
      | Some h \<Rightarrow> (case wb_nodes b h of
          None \<Rightarrow> None
        | Some (wb, n) \<Rightarrow>
            (let bytes_to_send = size_sub (data_size wb) (data_sent wb) in
             case results of
               [] \<Rightarrow> Some (LoopDone, b, out)
             | WouldBlock # rest \<Rightarrow> Some (LoopDone, b, out)
             | WriteError # rest \<Rightarrow> Some (LoopError, b, out)
             | Sent k # rest \<Rightarrow>
                 (let out' = out @ take k (drop (data_sent wb) (data wb)) in
                  if k = 0 then Some (LoopZero, b, out)
                  else if k < bytes_to_send then
                    Some (LoopDone,
                      b\<lparr>wb_nodes := (wb_nodes b)(h \<mapsto> (wb\<lparr>data_sent := data_sent wb + k\<rparr>, n))\<rparr>, out')
                  else network_write_loop rest
                    (b\<lparr>wb_nodes := (wb_nodes b)(h := None), write_buffer_head := n\<rparr>) out'))))"

declare network_write_loop.simps [simp del]

definition buffered_socket_network_write ::
  "buffered_socket option \<Rightarrow> write_result list \<Rightarrow> int \<Rightarrow> (int \<times> buffered_socket option \<times> u8 list) option" where
  "buffered_socket_network_write s results now =
     (case s of
        None \<Rightarrow> Some (-1, None, [])
      | Some b \<Rightarrow>
          if socket b = -1 then Some (-1, Some b, [])
          else if write_buffer_head b = None then Some (-1, Some b, [])
          else (case network_write_loop results b [] of
              None \<Rightarrow> None
            | Some (LoopError, b', out) \<Rightarrow> Some (-1, Some b', out)
            | Some (LoopZero, b', out) \<Rightarrow> Some (0, Some b', out)
            | Some (LoopDone, b', out) \<Rightarrow>
                Some (1, Some (b'\<lparr>write_buffer_tail := None, last_upload_rate_update := now\<rparr>), out)))"

text \<open>\<open>read\<close> on the socket: an error, or the bytes read (none at the end of the stream).\<close>

datatype read_result = ReadError | ReadBytes "u8 list"

definition buffered_socket_network_read ::
  "buffered_socket option \<Rightarrow> read_result \<Rightarrow> bool \<Rightarrow> int \<Rightarrow> (int \<times> buffered_socket option) option" where
  "buffered_socket_network_read s r malloc_ok now =
     (case s of
        None \<Rightarrow> Some (-1, None)
      | Some b \<Rightarrow>
          if socket b = -1 then Some (-1, Some b)
          else (case r of
              ReadError \<Rightarrow> Some (-1, Some b)
            | ReadBytes bs \<Rightarrow>
                if bs = [] then Some (0, Some b)
                else let b = b\<lparr>last_download_rate_update := now\<rparr> in
                  if \<not> malloc_ok then None
                  else if read_buffer_size b = 0
                  then Some (1, Some (b\<lparr>read_buffer := bs, read_buffer_size := length bs\<rparr>))
                  else Some (1, Some (b\<lparr>read_buffer := read_buffer b @ bs,
                                        read_buffer_size := read_buffer_size b + length bs\<rparr>))))"

text \<open>\<open>buffered_socket_read\<close>: the result, the bytes copied to the caller, and the new socket.\<close>

definition buffered_socket_read ::
  "buffered_socket option \<Rightarrow> bool \<Rightarrow> nat \<Rightarrow> int \<times> u8 list \<times> buffered_socket option" where
  "buffered_socket_read s malloc_ok data_length =
     (case s of
        None \<Rightarrow> (-1, [], None)
      | Some b \<Rightarrow>
          if socket b = -1 then (-1, [], Some b)
          else if data_length > read_buffer_size b then (0, [], Some b)
          else let out = take data_length (read_buffer b);
                   new_buffer_size = read_buffer_size b - data_length
            in if new_buffer_size = 0
               then (int data_length, out, Some (b\<lparr>read_buffer := [], read_buffer_size := 0\<rparr>))
               else if \<not> malloc_ok then (-1, out, Some b)
               else (int data_length, out,
                  Some (b\<lparr>read_buffer := drop data_length (read_buffer b), read_buffer_size := new_buffer_size\<rparr>)))"

definition buffered_socket_close :: "buffered_socket \<Rightarrow> buffered_socket" where
  "buffered_socket_close b = (if socket b > 0 then b\<lparr>socket := -1\<rparr> else b)"

text \<open>\<open>buffered_socket_free\<close>: close, then free every write buffer from the head; the freed
  addresses are the observable effect, the result is NULL.\<close>

fun free_chain :: "nat \<Rightarrow> 'a store \<Rightarrow> addr option \<Rightarrow> (addr list \<times> 'a store) option" where
  "free_chain fuel h None = Some ([], h)"
| "free_chain 0 h (Some a) = None"
| "free_chain (Suc fuel) h (Some a) =
     (case h a of
        None \<Rightarrow> None
      | Some (_, n) \<Rightarrow> map_option (\<lambda>(as, h'). (a # as, h')) (free_chain fuel (h(a := None)) n))"

definition buffered_socket_free ::
  "nat \<Rightarrow> buffered_socket option \<Rightarrow> (addr list \<times> buffered_socket option) option" where
  "buffered_socket_free fuel s =
     (case s of
        None \<Rightarrow> Some ([], None)
      | Some b \<Rightarrow>
          map_option (\<lambda>(as, _). (as, None))
            (free_chain fuel (wb_nodes (buffered_socket_close b)) (write_buffer_head b)))"

subsection \<open>What is waiting to be sent\<close>

definition wb_ok :: "write_buffer \<Rightarrow> bool" where
  "wb_ok w \<longleftrightarrow> data_size w = length (data w) \<and> data_sent w < data_size w \<and> data_size w < 2 ^ 64"

definition unsent :: "write_buffer list \<Rightarrow> u8 list" where
  "unsent ws = concat (map (\<lambda>w. drop (data_sent w) (data w)) ws)"

text \<open>\<open>sending b ws\<close>: the head pointer reaches the buffers \<open>ws\<close>; \<open>appendable b ws\<close>: the tail
  pointer is the right one, too.\<close>

definition sending :: "buffered_socket \<Rightarrow> write_buffer list \<Rightarrow> bool" where
  "sending b ws \<longleftrightarrow> (\<exists>t. linked (wb_nodes b) (write_buffer_head b) t ws) \<and> (\<forall>w \<in> set ws. wb_ok w)"

definition appendable :: "buffered_socket \<Rightarrow> write_buffer list \<Rightarrow> bool" where
  "appendable b ws \<longleftrightarrow> linked (wb_nodes b) (write_buffer_head b) (write_buffer_tail b) ws
     \<and> (ws = [] \<longrightarrow> write_buffer_tail b = None) \<and> (\<forall>w \<in> set ws. wb_ok w)"

lemma unsent_simps [simp]:
  "unsent [] = []"
  "unsent (w # ws) = drop (data_sent w) (data w) @ unsent ws"
  "unsent (ws @ vs) = unsent ws @ unsent vs"
  by (simp_all add: unsent_def)

lemma appendable_sending: "appendable b ws \<Longrightarrow> sending b ws"
  by (auto simp: appendable_def sending_def)

lemma sending_Nil: "sending b [] \<longleftrightarrow> write_buffer_head b = None"
proof
  assume "sending b []"
  then obtain t as where "chain (wb_nodes b) (write_buffer_head b) as" "map (node_value (wb_nodes b)) as = []"
    unfolding sending_def linked_def by blast
  then show "write_buffer_head b = None" by simp
qed (simp add: sending_def linked_head_None)

lemma sending_Cons:
  assumes "sending b (w # ws)"
  obtains a n where "write_buffer_head b = Some a" "wb_nodes b a = Some (w, n)" "wb_ok w"
    "sending (b\<lparr>wb_nodes := (wb_nodes b)(a := None), write_buffer_head := n\<rparr>) ws"
proof -
  from assms obtain t where t: "linked (wb_nodes b) (write_buffer_head b) t (w # ws)" "wb_ok w"
    "\<forall>w \<in> set ws. wb_ok w"
    by (auto simp: sending_def)
  from t(1) obtain a n where "write_buffer_head b = Some a" "wb_nodes b a = Some (w, n)"
      "linked ((wb_nodes b)(a := None)) n t ws"
    by (rule linked_Cons_head)
  with t that show ?thesis by (auto simp: sending_def)
qed

lemma chain_head_update:
  assumes "chain h p (a # as)" "distinct (a # as)" "h a = Some (v, n)"
  shows "chain (h(a \<mapsto> (v', n))) p (a # as)"
  using assms by (auto simp: chain_update_other)

lemma sending_head_update:
  assumes "sending b (w # ws)" "write_buffer_head b = Some a" "wb_nodes b a = Some (w, n)" "wb_ok w'"
  shows "sending (b\<lparr>wb_nodes := (wb_nodes b)(a \<mapsto> (w', n))\<rparr>) (w' # ws)"
proof -
  let ?h = "wb_nodes b"
  from assms(1) obtain t as where as: "chain ?h (write_buffer_head b) as" "distinct as"
    "map (node_value ?h) as = w # ws" "as \<noteq> [] \<longrightarrow> t = Some (last as)" "\<forall>w \<in> set ws. wb_ok w"
    unfolding sending_def linked_def by (metis list.set_intros(2))
  obtain as' where a: "as = a # as'" using as(1,3) assms(2) by (cases as) auto
  have "chain (?h(a \<mapsto> (w', n))) (write_buffer_head b) as"
    using chain_head_update [of ?h "write_buffer_head b" a as' w n w'] as(1,2) assms(3) a by simp
  moreover have "map (node_value (?h(a \<mapsto> (w', n)))) as = w' # ws"
    using as(2,3) a by (auto simp: node_value_def)
  ultimately have "linked (?h(a \<mapsto> (w', n))) (write_buffer_head b) t (w' # ws)"
    using as(2,4) unfolding linked_def by (intro exI [of _ as] conjI)
  with as(5) assms(4) show ?thesis by (auto simp: sending_def)
qed

text \<open>One pass of the sending loop, by the result of \<open>write\<close>.\<close>

lemma network_write_loop_Nil: "write_buffer_head b = None \<Longrightarrow> network_write_loop rs b out = Some (LoopDone, b, out)"
  by (subst network_write_loop.simps) simp

lemma network_write_loop_Cons:
  assumes "write_buffer_head b = Some a" "wb_nodes b a = Some (w, n)" "wb_ok w"
  shows "network_write_loop [] b out = Some (LoopDone, b, out)"
    and "network_write_loop (WouldBlock # rs) b out = Some (LoopDone, b, out)"
    and "network_write_loop (WriteError # rs) b out = Some (LoopError, b, out)"
    and "network_write_loop (Sent k # rs) b out =
      (if k = 0 then Some (LoopZero, b, out)
       else if k < data_size w - data_sent w then
         Some (LoopDone, b\<lparr>wb_nodes := (wb_nodes b)(a \<mapsto> (w\<lparr>data_sent := data_sent w + k\<rparr>, n))\<rparr>,
           out @ take k (drop (data_sent w) (data w)))
       else network_write_loop rs (b\<lparr>wb_nodes := (wb_nodes b)(a := None), write_buffer_head := n\<rparr>)
         (out @ take k (drop (data_sent w) (data w))))"
  using assms by (subst network_write_loop.simps; simp add: wb_ok_def size_sub_id Let_def)+

lemma network_write_loop_run:
  assumes "sending b ws"
  shows "\<exists>e b' sent ws'. network_write_loop rs b out = Some (e, b', out @ sent) \<and> sending b' ws'
     \<and> sent @ unsent ws' = unsent ws \<and> socket b' = socket b \<and> length ws' \<le> length ws \<and> read_buffer_size b' = read_buffer_size b"
  using assms
proof (induction ws arbitrary: rs b out)
  case Nil
  then show ?case by (auto simp: network_write_loop_Nil sending_Nil intro!: exI [of _ "[]"])
next
  case (Cons w ws)
  from Cons.prems obtain a n where a: "write_buffer_head b = Some a" "wb_nodes b a = Some (w, n)" "wb_ok w"
    "sending (b\<lparr>wb_nodes := (wb_nodes b)(a := None), write_buffer_head := n\<rparr>) ws"
    by (rule sending_Cons)
  note pass = network_write_loop_Cons [OF a(1,2,3)]
  have stay: "\<exists>e' b' sent ws'. Some (e, b, out) = Some (e', b', out @ sent) \<and> sending b' ws'
     \<and> sent @ unsent ws' = unsent (w # ws) \<and> socket b' = socket b \<and> length ws' \<le> length (w # ws)
     \<and> read_buffer_size b' = read_buffer_size b" for e
    using Cons.prems by (auto intro!: exI [of _ "[]"] exI [of _ "w # ws"])
  show ?case
  proof (cases rs)
    case Nil
    then show ?thesis using stay by (simp only: pass)
  next
    case (Cons r rs')
    note rs = this
    show ?thesis
    proof (cases r)
      case (Sent k)
      let ?sent = "take k (drop (data_sent w) (data w))"
      consider "k = 0" | "k \<noteq> 0" "k < data_size w - data_sent w" | "k \<noteq> 0" "\<not> k < data_size w - data_sent w"
        by blast
      then show ?thesis
      proof cases
        case 1
        then show ?thesis using stay [of LoopZero] by (simp only: rs Sent pass) simp
      next
        case 2
        have ok: "wb_ok (w\<lparr>data_sent := data_sent w + k\<rparr>)" using a(3) 2 by (simp add: wb_ok_def)
        note s = sending_head_update [OF Cons.prems a(1,2) ok]
        have "?sent @ unsent (w\<lparr>data_sent := data_sent w + k\<rparr> # ws) = unsent (w # ws)"
          by (simp add: drop_drop [symmetric] add.commute [of _ k] del: drop_drop)
        with s show ?thesis using 2 by (simp only: rs Sent pass) (auto simp del: unsent_simps)
      next
        case 3
        have full: "?sent = drop (data_sent w) (data w)" using 3 a(3) by (simp add: wb_ok_def)
        from Cons.IH [OF a(4), of rs' "out @ ?sent"] 3 show ?thesis
          by (simp only: rs Sent pass full if_False) (fastforce intro: exI)
      qed
    qed (use rs stay in \<open>simp_all only: pass\<close>)
  qed
qed

lemma buffered_socket_network_write_run:
  assumes "sending b ws" "ws \<noteq> []" "socket b \<noteq> -1"
  shows "\<exists>r b' sent ws'. buffered_socket_network_write (Some b) rs now = Some (r, Some b', sent)
     \<and> sending b' ws' \<and> sent @ unsent ws' = unsent ws \<and> socket b' = socket b \<and> length ws' \<le> length ws \<and> read_buffer_size b' = read_buffer_size b"
proof -
  have "write_buffer_head b \<noteq> None"
    using assms(1,2) by (cases ws) (auto elim: sending_Cons)
  moreover obtain e b' sent ws' where "network_write_loop rs b [] = Some (e, b', sent)" "sending b' ws'"
    "sent @ unsent ws' = unsent ws" "socket b' = socket b" "length ws' \<le> length ws" "read_buffer_size b' = read_buffer_size b"
    using network_write_loop_run [OF assms(1), of rs "[]"] by auto
  ultimately show ?thesis
    using assms(3) by (cases e) (fastforce simp: buffered_socket_network_write_def sending_def)+
qed

lemma buffered_socket_write_run:
  assumes "appendable b ws" "socket b \<noteq> -1" "fresh_in (wb_nodes b) a" "payload \<noteq> []" "length payload < 2 ^ 64"
  shows "\<exists>b'. buffered_socket_write (Some b) (Some a) True payload = Some (int (length payload), Some b')
     \<and> appendable b' (ws @ [\<lparr>data = payload, data_sent = 0, data_size = length payload\<rparr>])
     \<and> socket b' = socket b"
proof (cases "ws = []")
  case True
  with assms show ?thesis
    by (auto simp: buffered_socket_write_def appendable_def linked_push_first wb_ok_def)
next
  case False
  let ?w = "\<lparr>data = payload, data_sent = 0, data_size = length payload\<rparr>"
  from assms(1) have l: "linked (wb_nodes b) (write_buffer_head b) (write_buffer_tail b) ws"
    by (simp add: appendable_def)
  from linked_push [OF l False assms(3), of ?w]
  obtain t v n where "write_buffer_tail b = Some t" "wb_nodes b t = Some (v, n)" "t \<noteq> a"
    "linked ((wb_nodes b)(a \<mapsto> (?w, None), t \<mapsto> (v, Some a))) (write_buffer_head b) (Some a) (ws @ [?w])"
    by blast
  with assms show ?thesis by (auto simp: buffered_socket_write_def appendable_def wb_ok_def)
qed

text \<open>
  C21: sending loses, repeats and reorders nothing. Whatever the results of the \<open>write\<close> calls
  (complete, partial, would-block, error, zero), the bytes handed to the network followed by the
  bytes still reachable from the head pointer are the bytes that were pending.
\<close>

theorem network_write_conserves_bytes:
  assumes "sending b ws" "ws \<noteq> []" "socket b \<noteq> -1"
  shows "\<exists>r b' sent ws'. buffered_socket_network_write (Some b) rs now = Some (r, Some b', sent)
     \<and> sending b' ws' \<and> sent @ unsent ws' = unsent ws"
  using buffered_socket_network_write_run [OF assms] by blast

definition demo_socket :: buffered_socket where
  "demo_socket = \<lparr>opt = 0, socket = 3,
     wb_nodes = [1 \<mapsto> (\<lparr>data = [10, 11, 12], data_sent = 0, data_size = 3\<rparr>, Some 2),
                 2 \<mapsto> (\<lparr>data = [20, 21], data_sent = 0, data_size = 2\<rparr>, None)],
     write_buffer_head = Some 1, write_buffer_tail = Some 2, read_buffer = [], read_buffer_size = 0,
     last_download_rate_update = 0, last_upload_rate_update = 0\<rparr>"

lemma demo_socket_appendable:
  "appendable demo_socket
     [\<lparr>data = [10, 11, 12], data_sent = 0, data_size = 3\<rparr>, \<lparr>data = [20, 21], data_sent = 0, data_size = 2\<rparr>]"
  by (auto simp: appendable_def demo_socket_def linked_def node_value_def wb_ok_def intro!: exI [of _ "[1, 2]"])

theorem network_write_conserves_bytes_witness:
  "\<exists>r b' sent ws'. buffered_socket_network_write (Some demo_socket) [Sent 3, Sent 1] 7 = Some (r, Some b', sent)
     \<and> sending b' ws' \<and> sent @ unsent ws' = [10, 11, 12, 20, 21]"
  using network_write_conserves_bytes [OF appendable_sending [OF demo_socket_appendable], of "[Sent 3, Sent 1]" 7]
  by (simp add: demo_socket_def)

text \<open>
  \<open>buffered_socket_write\<close> on a socket whose tail pointer is in order returns the number of
  bytes, puts them behind all pending bytes and keeps the tail pointer in order.
\<close>

theorem buffered_write_appends:
  assumes "appendable b ws" "socket b \<noteq> -1" "fresh_in (wb_nodes b) a" "payload \<noteq> []" "length payload < 2 ^ 64"
  shows "\<exists>b' ws'. buffered_socket_write (Some b) (Some a) True payload = Some (int (length payload), Some b')
     \<and> appendable b' ws' \<and> unsent ws' = unsent ws @ payload"
proof -
  from buffered_socket_write_run [OF assms] obtain b' where
    "buffered_socket_write (Some b) (Some a) True payload = Some (int (length payload), Some b')"
    "appendable b' (ws @ [\<lparr>data = payload, data_sent = 0, data_size = length payload\<rparr>])" by blast
  then show ?thesis
    by (intro exI [of _ b'] exI [of _ "ws @ [\<lparr>data = payload, data_sent = 0, data_size = length payload\<rparr>]"]) simp
qed

theorem buffered_write_appends_witness:
  "\<exists>b' ws'. buffered_socket_write (Some demo_socket) (Some 9) True [30] = Some (1, Some b')
     \<and> appendable b' ws' \<and> unsent ws' = [10, 11, 12, 20, 21, 30]"
  using buffered_write_appends [OF demo_socket_appendable, of 9 "[30]"] by (simp add: demo_socket_def fresh_in_def)

text \<open>
  C28: the write buffer loses data after a partial send. When \<open>buffered_socket_network_write\<close>
  returns 1 with bytes still pending it has reset the tail pointer, and the next
  \<open>buffered_socket_write\<close> makes its own payload the only pending data.
\<close>

theorem partial_send_drops_pending:
  assumes flush: "buffered_socket_network_write (Some b) rs now = Some (1, Some b', sent)"
    and pend: "sending b' ws'" "ws' \<noteq> []"
    and sock: "socket b' \<noteq> -1"
    and payload: "payload \<noteq> []" "length payload < 2 ^ 64"
  shows "\<exists>b''. buffered_socket_write (Some b') (Some a) True payload = Some (int (length payload), Some b'')
     \<and> sending b'' [\<lparr>data = payload, data_sent = 0, data_size = length payload\<rparr>]"
proof -
  have "write_buffer_tail b' = None"
    using flush by (auto simp: buffered_socket_network_write_def split: if_splits option.splits loop_exit.splits)
  then show ?thesis
    using sock payload
    by (auto simp: buffered_socket_write_def sending_def wb_ok_def intro: linked_push_first)
qed

definition demo_partial :: buffered_socket where
  "demo_partial = demo_socket\<lparr>
     wb_nodes := [2 \<mapsto> (\<lparr>data = [20, 21], data_sent = 1, data_size = 2\<rparr>, None)],
     write_buffer_head := Some 2, write_buffer_tail := None, last_upload_rate_update := 7\<rparr>"

theorem partial_send_drops_pending_witness:
  "\<exists>b''. buffered_socket_write (Some demo_partial) (Some 9) True [30] = Some (1, Some b'')
     \<and> sending b'' [\<lparr>data = [30], data_sent = 0, data_size = 1\<rparr>]"
proof -
  have "buffered_socket_network_write (Some demo_socket) [Sent 3, Sent 1] 7
      = Some (1, Some demo_partial, [10, 11, 12, 20])"
    by (simp add: buffered_socket_network_write_def network_write_loop.simps demo_socket_def demo_partial_def
        size_sub_id fun_upd_def)
      (auto simp: fun_eq_iff)
  moreover have "sending demo_partial [\<lparr>data = [20, 21], data_sent = 1, data_size = 2\<rparr>]"
    by (auto simp: sending_def demo_partial_def linked_def node_value_def wb_ok_def intro!: exI [of _ "[2]"])
  ultimately show ?thesis
    using partial_send_drops_pending [of demo_socket "[Sent 3, Sent 1]" 7 demo_partial _ _ "[30]" 9]
    by (simp add: demo_partial_def demo_socket_def)
qed

subsection \<open>The read side as a byte stream\<close>

text \<open>
  The interface the peer protocol relies on: bytes that arrive go to the end of the stream, and a
  read of \<open>n\<close> bytes either delivers exactly the next \<open>n\<close> or leaves the stream as it is.
\<close>

datatype stream_op = Recv read_result int | ReadN nat

fun stream_run ::
  "('s \<Rightarrow> read_result \<Rightarrow> int \<Rightarrow> 's option) \<Rightarrow> ('s \<Rightarrow> nat \<Rightarrow> int \<times> u8 list \<times> 's) \<Rightarrow>
    stream_op list \<Rightarrow> 's \<Rightarrow> (u8 list \<times> 's) option" where
  "stream_run recv rd [] s = Some ([], s)"
| "stream_run recv rd (Recv r t # ops) s =
     (case recv s r t of None \<Rightarrow> None | Some s' \<Rightarrow> stream_run recv rd ops s')"
| "stream_run recv rd (ReadN n # ops) s =
     (case rd s n of (_, bs, s') \<Rightarrow> map_option (\<lambda>(out, s''). (bs @ out, s'')) (stream_run recv rd ops s'))"

fun arrivals :: "stream_op list \<Rightarrow> u8 list" where
  "arrivals [] = []"
| "arrivals (Recv (ReadBytes bs) t # ops) = bs @ arrivals ops"
| "arrivals (_ # ops) = arrivals ops"

locale byte_stream =
  fixes content :: "'s \<Rightarrow> u8 list option"
    and receive :: "'s \<Rightarrow> read_result \<Rightarrow> int \<Rightarrow> 's option"
    and read_n :: "'s \<Rightarrow> nat \<Rightarrow> int \<times> u8 list \<times> 's"
  assumes receive_law: "content s = Some xs \<Longrightarrow>
      \<exists>s'. receive s r t = Some s' \<and> content s' = Some (xs @ (case r of ReadError \<Rightarrow> [] | ReadBytes bs \<Rightarrow> bs))"
    and read_enough: "content s = Some xs \<Longrightarrow> n \<le> length xs \<Longrightarrow>
      \<exists>s'. read_n s n = (int n, take n xs, s') \<and> content s' = Some (drop n xs)"
    and read_short: "content s = Some xs \<Longrightarrow> length xs < n \<Longrightarrow> read_n s n = (0, [], s)"
begin

lemma stream_integrity:
  "content s = Some xs \<Longrightarrow>
     \<exists>out s' rest. stream_run receive read_n ops s = Some (out, s') \<and> content s' = Some rest \<and> out @ rest = xs @ arrivals ops"
proof (induction ops arbitrary: s xs)
  case (Cons x ops)
  show ?case
  proof (cases x)
    case (Recv r t)
    from receive_law [OF Cons.prems, of r t] obtain s' where s': "receive s r t = Some s'"
      "content s' = Some (xs @ (case r of ReadError \<Rightarrow> [] | ReadBytes bs \<Rightarrow> bs))" by blast
    from Cons.IH [OF s'(2)] s'(1) Recv show ?thesis by (cases r) auto
  next
    case (ReadN n)
    show ?thesis
    proof (cases "n \<le> length xs")
      case True
      from read_enough [OF Cons.prems True] obtain s' where
        s': "read_n s n = (int n, take n xs, s')" "content s' = Some (drop n xs)" by blast
      from Cons.IH [OF s'(2)] obtain out s'' rest where
        "stream_run receive read_n ops s' = Some (out, s'')" "content s'' = Some rest" "out @ rest = drop n xs @ arrivals ops"
        by blast
      moreover from this(3) have "(take n xs @ out) @ rest = xs @ arrivals ops"
        by (metis append.assoc append_take_drop_id)
      ultimately show ?thesis using s'(1) ReadN by auto
    next
      case False
      with read_short [OF Cons.prems, of n] Cons.IH [OF Cons.prems] ReadN show ?thesis by auto
    qed
  qed
qed simp

end

text \<open>The socket as a stream: connected, its size field is the size of its buffer, and
  allocation succeeds.\<close>

definition socket_content :: "buffered_socket option \<Rightarrow> u8 list option" where
  "socket_content s =
     (case s of
        Some b \<Rightarrow> if socket b \<noteq> -1 \<and> read_buffer_size b = length (read_buffer b) then Some (read_buffer b) else None
      | None \<Rightarrow> None)"

definition socket_receive :: "buffered_socket option \<Rightarrow> read_result \<Rightarrow> int \<Rightarrow> buffered_socket option option" where
  "socket_receive s r now = map_option snd (buffered_socket_network_read s r True now)"

definition socket_read_n :: "buffered_socket option \<Rightarrow> nat \<Rightarrow> int \<times> u8 list \<times> buffered_socket option" where
  "socket_read_n s n = buffered_socket_read s True n"

interpretation stream: byte_stream socket_content socket_receive socket_read_n
proof unfold_locales
  fix s xs r t
  assume "socket_content s = Some xs"
  then show "\<exists>s'. socket_receive s r t = Some s'
      \<and> socket_content s' = Some (xs @ (case r of ReadError \<Rightarrow> [] | ReadBytes bs \<Rightarrow> bs))"
    by (cases s; cases r) (auto simp: socket_content_def socket_receive_def buffered_socket_network_read_def
        Let_def split: if_splits)
next
  fix s xs and n :: nat
  assume "socket_content s = Some xs" "n \<le> length xs"
  then show "\<exists>s'. socket_read_n s n = (int n, take n xs, s') \<and> socket_content s' = Some (drop n xs)"
    by (auto simp: socket_content_def socket_read_n_def buffered_socket_read_def Let_def
        split: option.splits if_splits)
next
  fix s xs and n :: nat
  assume "socket_content s = Some xs" "length xs < n"
  then show "socket_read_n s n = (0, [], s)"
    by (auto simp: socket_content_def socket_read_n_def buffered_socket_read_def split: option.splits if_splits)
qed

text \<open>
  C20: what the program reads is what the network delivered. Over any interleaving of network
  reads and reads of any sizes, the bytes delivered to the caller followed by the read buffer are
  the initial read buffer followed by all bytes received, in order.
\<close>

theorem read_stream_integrity:
  assumes "socket_content s = Some xs"
  shows "\<exists>out s' rest. stream_run socket_receive socket_read_n ops s = Some (out, s') \<and> socket_content s' = Some rest
     \<and> out @ rest = xs @ arrivals ops"
  using assms by (rule stream.stream_integrity)

theorem read_stream_integrity_witness:
  "\<exists>out s' rest.
     stream_run socket_receive socket_read_n [Recv (ReadBytes [1, 2, 3]) 5, ReadN 2, ReadN 4, Recv (ReadBytes [4]) 6, ReadN 2] (Some demo_socket)
       = Some (out, s')
     \<and> socket_content s' = Some rest \<and> out @ rest = [1, 2, 3, 4]"
proof -
  have "socket_content (Some demo_socket) = Some []" by (simp add: socket_content_def demo_socket_def)
  from read_stream_integrity [OF this, of "[Recv (ReadBytes [1, 2, 3]) 5, ReadN 2, ReadN 4, Recv (ReadBytes [4]) 6, ReadN 2]"]
  show ?thesis by simp
qed

subsection \<open>Freeing\<close>

lemma free_chain_run:
  "chain h p as \<Longrightarrow> distinct as \<Longrightarrow> length as \<le> fuel \<Longrightarrow>
     \<exists>h'. free_chain fuel h p = Some (as, h') \<and> (\<forall>a \<in> set as. h' a = None) \<and> (\<forall>a. a \<notin> set as \<longrightarrow> h' a = h a)"
proof (induction as arbitrary: fuel h p)
  case (Cons a as)
  then obtain v n where n: "p = Some a" "h a = Some (v, n)" "chain h n as" by auto
  obtain f where f: "fuel = Suc f" using Cons.prems(3) by (cases fuel) auto
  have "chain (h(a := None)) n as" using n(3) Cons.prems(2) by (simp add: chain_update_other)
  moreover have "distinct as" "length as \<le> f" using Cons.prems(2,3) f by simp_all
  ultimately obtain h' where "free_chain f (h(a := None)) n = Some (as, h')" "\<forall>b \<in> set as. h' b = None"
    "\<forall>b. b \<notin> set as \<longrightarrow> h' b = (h(a := None)) b"
    using Cons.IH by blast
  with n f Cons.prems(2) show ?case by auto
qed simp

text \<open>
  Freeing a socket ends, frees every pending write buffer exactly once and returns NULL;
  as many steps as there are buffers are enough.
\<close>

theorem buffered_socket_free_complete:
  assumes "chain (wb_nodes b) (write_buffer_head b) as" "distinct as" "length as \<le> fuel"
  shows "buffered_socket_free fuel (Some b) = Some (as, None)"
  using free_chain_run [OF assms] by (auto simp: buffered_socket_free_def buffered_socket_close_def)

theorem buffered_socket_free_complete_witness:
  "buffered_socket_free 2 (Some demo_socket) = Some ([1, 2], None)"
  by (rule buffered_socket_free_complete) (simp_all add: demo_socket_def)

end
