(* ===== verification/Uvg_Sha1.thy ===== *)
theory Uvg_Sha1
  imports Uvg_NetUtils
begin

unbundle bit_operations_syntax

text \<open>
  SHA-1 as \<^verbatim>\<open>src/src/sha1/sha1.c\<close> computes it: the five working variables stay in place while the
  unrolled rounds rename them, the message schedule is expanded in place in a ring of sixteen
  words, and the context takes the message in pieces of any size. \<open>blk0\<close> is the little-endian
  variant, the one the build selects. The last part relates all this to the
  standard: the eighty-word schedule, the register rotation and the padding of FIPS 180-4.
\<close>

definition rol :: "u32 \<Rightarrow> nat \<Rightarrow> u32" where
  "rol v n = push_bit n v OR drop_bit (32 - n) v"

text \<open>The expansion macros: the value and the block with that word stored back.\<close>

definition blk0 :: "u32 list \<Rightarrow> nat \<Rightarrow> u32 \<times> u32 list" where
  "blk0 l i =
     (let v = (rol (l ! i) 24 AND 0xFF00FF00) OR (rol (l ! i) 8 AND 0x00FF00FF) in (v, l[i := v]))"

definition blk :: "u32 list \<Rightarrow> nat \<Rightarrow> u32 \<times> u32 list" where
  "blk l i =
     (let v = rol (l ! ((i + 13) mod 16) XOR l ! ((i + 8) mod 16) XOR l ! ((i + 2) mod 16) XOR l ! (i mod 16)) 1
      in (v, l[i mod 16 := v]))"

text \<open>A round on the variables named by the indices \<open>v w x y z\<close> (\<open>a\<close> is 0, \<open>e\<close> is 4):
  \<open>z += f(w,x,y) + blk(i) + k + rol(v,5); w = rol(w,30);\<close>\<close>

definition R_macro ::
  "(u32 \<Rightarrow> u32 \<Rightarrow> u32 \<Rightarrow> u32) \<Rightarrow> u32 \<Rightarrow> (u32 list \<Rightarrow> nat \<Rightarrow> u32 \<times> u32 list) \<Rightarrow>
    nat \<Rightarrow> nat \<Rightarrow> nat \<Rightarrow> nat \<Rightarrow> nat \<Rightarrow> nat \<Rightarrow> u32 list \<times> u32 list \<Rightarrow> u32 list \<times> u32 list" where
  "R_macro f k expand v w x y z i s =
     (let (r, l) = s;
          (b, l') = expand l i;
          r' = r[z := r ! z + (f (r ! w) (r ! x) (r ! y) + b + k + rol (r ! v) 5)]
      in (r'[w := rol (r' ! w) 30], l'))"

definition R0 where
  "R0 = R_macro (\<lambda>w x y. (w AND (x XOR y)) XOR y) 0x5A827999 blk0"
definition R1 where
  "R1 = R_macro (\<lambda>w x y. (w AND (x XOR y)) XOR y) 0x5A827999 blk"
definition R2 where
  "R2 = R_macro (\<lambda>w x y. w XOR x XOR y) 0x6ED9EBA1 blk"
definition R3 where
  "R3 = R_macro (\<lambda>w x y. ((w OR x) AND y) OR (w AND x)) 0x8F1BBCDC blk"
definition R4 where
  "R4 = R_macro (\<lambda>w x y. w XOR x XOR y) 0xCA62C1D6 blk"

text \<open>The unrolled sequence: line \<open>i\<close> of it uses the macro of its range, and the variables
  \<open>(a,b,c,d,e)\<close>, \<open>(e,a,b,c,d)\<close>, \<open>(d,e,a,b,c)\<close>, \<open>(c,d,e,a,b)\<close>, \<open>(b,c,d,e,a)\<close> in turn.\<close>

definition var_index :: "nat \<Rightarrow> nat \<Rightarrow> nat" where
  "var_index i k = (5 - i mod 5 + k) mod 5"

definition round_line :: "nat \<Rightarrow> u32 list \<times> u32 list \<Rightarrow> u32 list \<times> u32 list" where
  "round_line i =
     (if i < 16 then R0 else if i < 20 then R1 else if i < 40 then R2 else if i < 60 then R3 else R4)
       (var_index i 0) (var_index i 1) (var_index i 2) (var_index i 3) (var_index i 4) i"

definition load_block :: "u8 list \<Rightarrow> u32 list" where
  "load_block bs = map (\<lambda>i. load32 True (take 4 (drop (4 * i) bs))) [0..<16]"

definition SHA1Transform :: "u32 list \<Rightarrow> u8 list \<Rightarrow> u32 list" where
  "SHA1Transform state buffer =
     (let (r, _) = fold round_line [0..<80] (state, load_block buffer) in map2 (+) state r)"

record SHA1_CTX =
  state :: "u32 list"
  count0 :: u32
  count1 :: u32
  buffer :: "u8 list"

text \<open>\<open>SHA1Init\<close> leaves the buffer as it is.\<close>

definition SHA1Init :: "u8 list \<Rightarrow> SHA1_CTX" where
  "SHA1Init stack_buffer =
     \<lparr>state = [0x67452301, 0xEFCDAB89, 0x98BADCFE, 0x10325476, 0xC3D2E1F0],
      count0 = 0, count1 = 0, buffer = stack_buffer\<rparr>"

text \<open>The inner loop of \<open>SHA1Update\<close>; \<open>i\<close> and the comparison wrap at 32 bits, and a block past the
  end of the data is undefined. \<open>None\<close> only in that case; the result is the state and \<open>i\<close>.\<close>

function update_blocks :: "u32 list \<Rightarrow> u8 list \<Rightarrow> nat \<Rightarrow> nat \<Rightarrow> (u32 list \<times> nat) option" where
  "update_blocks st dat i len =
     (if (i + 63) mod 2 ^ 32 < len then
        if i + 64 \<le> length dat then update_blocks (SHA1Transform st (take 64 (drop i dat))) dat (i + 64) len
        else None
      else Some (st, i))"
  by pat_completeness auto

termination update_blocks
  by (relation "measure (\<lambda>(st, dat, i, len). length dat - i)") auto

declare update_blocks.simps [simp del]

definition SHA1Update :: "SHA1_CTX \<Rightarrow> u8 list \<Rightarrow> nat \<Rightarrow> SHA1_CTX option" where
  "SHA1Update context dat len =
     (let lenw = of_nat len :: u32;
          c0 = count0 context + push_bit 3 lenw;
          c1 = (if c0 < count0 context then count1 context + 1 else count1 context) + drop_bit 29 lenw;
          j = unat (drop_bit 3 (count0 context) AND 63);
          ctx = context\<lparr>count0 := c0, count1 := c1\<rparr>
      in if (j + len) mod 2 ^ 32 > 63 then
           (if 64 - j > length dat then None
            else do {
              buf \<leftarrow> memcpy_at (buffer ctx) j (take (64 - j) dat);
              (st, i) \<leftarrow> update_blocks (SHA1Transform (state ctx) buf) dat (64 - j) len;
              (if i \<le> len \<and> len \<le> length dat then do {
                 buf' \<leftarrow> memcpy_at buf 0 (take (len - i) (drop i dat));
                 Some (ctx\<lparr>state := st, buffer := buf'\<rparr>)
               } else None)
            })
         else if length dat < len then None
         else do {
           buf \<leftarrow> memcpy_at (buffer ctx) j (take len dat);
           Some (ctx\<lparr>buffer := buf\<rparr>)
         })"

text \<open>The padding loop of \<open>SHA1Final\<close>; it runs at most 64 times.\<close>

fun final_pad :: "nat \<Rightarrow> SHA1_CTX \<Rightarrow> SHA1_CTX option" where
  "final_pad fuel ctx =
     (if count0 ctx AND 504 \<noteq> 448 then
        (case fuel of 0 \<Rightarrow> None | Suc f \<Rightarrow> Option.bind (SHA1Update ctx [0] 1) (final_pad f))
      else Some ctx)"

declare final_pad.simps [simp del]

text \<open>\<open>digest[i] = (state[i >> 2] >> ((3 - (i & 3)) * 8)) & 255\<close>, and the same for the count.\<close>

definition word_octets :: "u32 list \<Rightarrow> nat \<Rightarrow> u8 list" where
  "word_octets ws n = map (\<lambda>i. ucast (drop_bit ((3 - i mod 4) * 8) (ws ! (i div 4)) AND 255)) [0..<n]"

definition SHA1Final :: "SHA1_CTX \<Rightarrow> u8 list option" where
  "SHA1Final context =
     (let finalcount = word_octets [count1 context, count0 context] 8 in do {
        ctx \<leftarrow> SHA1Update context [0x80] 1;
        ctx \<leftarrow> final_pad 64 ctx;
        ctx \<leftarrow> SHA1Update ctx finalcount 8;
        Some (word_octets (state ctx) 20)
      })"

text \<open>The sequence the clients use, and the convenience function that feeds single bytes.\<close>

definition sha1_of :: "u8 list \<Rightarrow> u8 list \<Rightarrow> nat \<Rightarrow> u8 list option" where
  "sha1_of stack_buffer dat len = Option.bind (SHA1Update (SHA1Init stack_buffer) dat len) SHA1Final"

definition SHA1 :: "u8 list \<Rightarrow> u8 list \<Rightarrow> nat \<Rightarrow> u8 list option" where
  "SHA1 stack_buffer str len = do {
     ctx \<leftarrow> foldM (\<lambda>ii ctx. if ii < length str then SHA1Update ctx [str ! ii] 1 else None)
       [0..<len] (SHA1Init stack_buffer);
     h \<leftarrow> SHA1Final ctx;
     Some (h @ [0])
   }"

subsection \<open>The standard\<close>

definition fips_Ch where "fips_Ch x y z = ((x::u32) AND y) XOR (NOT x AND z)"
definition fips_Parity where "fips_Parity x y z = (x::u32) XOR y XOR z"
definition fips_Maj where "fips_Maj x y z = ((x::u32) AND y) XOR (x AND z) XOR (y AND z)"

definition fips_f :: "nat \<Rightarrow> u32 \<Rightarrow> u32 \<Rightarrow> u32 \<Rightarrow> u32" where
  "fips_f t = (if t < 20 then fips_Ch else if t < 40 then fips_Parity else if t < 60 then fips_Maj else fips_Parity)"

definition fips_K :: "nat \<Rightarrow> u32" where
  "fips_K t = (if t < 20 then 0x5A827999 else if t < 40 then 0x6ED9EBA1 else if t < 60 then 0x8F1BBCDC else 0xCA62C1D6)"

text \<open>The message schedule, and one block: \<open>M t\<close> is the \<open>t\<close>-th big-endian word.\<close>

fun fips_W :: "(nat \<Rightarrow> u32) \<Rightarrow> nat \<Rightarrow> u32" where
  "fips_W M t = (if t < 16 then M t
     else word_rotl 1 (fips_W M (t - 3) XOR fips_W M (t - 8) XOR fips_W M (t - 14) XOR fips_W M (t - 16)))"

declare fips_W.simps [simp del]

type_synonym regs = "u32 \<times> u32 \<times> u32 \<times> u32 \<times> u32"

definition fips_step :: "(nat \<Rightarrow> u32) \<Rightarrow> nat \<Rightarrow> regs \<Rightarrow> regs" where
  "fips_step M t = (\<lambda>(a, b, c, d, e).
     (word_rotl 5 a + fips_f t b c d + e + fips_K t + fips_W M t, a, word_rotl 30 b, c, d))"

definition fips_block :: "u8 list \<Rightarrow> regs \<Rightarrow> regs" where
  "fips_block bs H =
     (let M = (\<lambda>t. load_be32 (take 4 (drop (4 * t) bs)));
          (a, b, c, d, e) = fold (fips_step M) [0..<80] H;
          (h0, h1, h2, h3, h4) = H
      in (a + h0, b + h1, c + h2, d + h3, e + h4))"

definition fips_H0 :: regs where
  "fips_H0 = (0x67452301, 0xEFCDAB89, 0x98BADCFE, 0x10325476, 0xC3D2E1F0)"

definition fips_pad :: "u8 list \<Rightarrow> u8 list" where
  "fips_pad m = m @ [0x80] @ replicate ((119 - length m mod 64) mod 64) 0 @ be64 (of_nat (8 * length m))"

function fips_blocks :: "u8 list \<Rightarrow> regs \<Rightarrow> regs" where
  "fips_blocks bs H = (if length bs < 64 then H else fips_blocks (drop 64 bs) (fips_block (take 64 bs) H))"
  by pat_completeness auto

termination fips_blocks
  by (relation "measure (\<lambda>(bs, H). length bs)") auto

declare fips_blocks.simps [simp del]

definition fips_sha1 :: "u8 list \<Rightarrow> u8 list" where
  "fips_sha1 m = (let (a, b, c, d, e) = fips_blocks (fips_pad m) fips_H0
     in be32 a @ be32 b @ be32 c @ be32 d @ be32 e)"

subsection \<open>One block: the in-place rounds compute the standard's\<close>

lemma rol_word_rotl: 
  assumes "n < 32" shows "rol v n = word_rotl n v" 
proof (rule bit_word_eqI)
  fix k assume k: "k < LENGTH(32)"
  have m: "(k + (32 - n)) mod 32 = (if k < n then k + (32 - n) else k - n)"
    using k assms by (auto simp: mod_if)
  have "bit (word_rotl n v) k = bit v (if k < n then k + (32 - n) else k - n)"
    using k assms m unfolding bit_word_rotl_iff by simp
  also have "\<dots> = bit (rol v n) k"
    using k assms by (auto simp: rol_def bit_push_bit_iff bit_drop_bit_eq bit_or_iff add.commute dest: bit_imp_le_length)
  finally show "bit (rol v n) k = bit (word_rotl n v) k" ..
qed
lemma blk0_masks: 
  "(0xFF00FF00 :: u32) = push_bit 8 (mask 8) OR push_bit 24 (mask 8)"
  "(0x00FF00FF :: u32) = mask 8 OR push_bit 16 (mask 8)"
  by (simp_all add: mask_numeral)

lemma blk0_value: "(rol w 24 AND 0xFF00FF00) OR (rol w 8 AND 0x00FF00FF) = bswap32 w"
  unfolding blk0_masks
  by (rule bit_word_eqI) (auto simp: rol_def bswap32_def bit_simps dest: bit_imp_le_length)

lemma round_functions:
  "(w AND (x XOR y)) XOR y = fips_Ch w x y"
  "((w OR x) AND y) OR (w AND x) = fips_Maj w x y"
  "w XOR x XOR y = fips_Parity w x y"
  unfolding fips_Ch_def fips_Maj_def fips_Parity_def by (auto intro!: bit_word_eqI simp: bit_simps)

lemma var_index_less [simp]: "var_index t k < 5"
  by (simp add: var_index_def)

lemma mod5_cases: "(t::nat) mod 5 = 0 \<or> t mod 5 = 1 \<or> t mod 5 = 2 \<or> t mod 5 = 3 \<or> t mod 5 = 4"
proof -
  have "t mod 5 < 5" by simp
  then show ?thesis by arith
qed

lemma var_index_rotate:
  "var_index (Suc t) 0 = var_index t 4" "var_index (Suc t) 1 = var_index t 0"
  "var_index (Suc t) (Suc 0) = var_index t 0"
  "var_index (Suc t) 2 = var_index t 1" "var_index (Suc t) 3 = var_index t 2"
  "var_index (Suc t) 4 = var_index t 3"
  using mod5_cases [of t] unfolding var_index_def mod_Suc by (elim disjE; simp)+

lemma mod5_cancel: "j < 5 \<Longrightarrow> k < 5 \<Longrightarrow> ((c::nat) + j) mod 5 = (c + k) mod 5 \<longleftrightarrow> j = k"
  using mod_eq_dvd_iff_nat [of "c + j" "c + k" 5] mod_eq_dvd_iff_nat [of "c + k" "c + j" 5]
    dvd_imp_le [of 5 "k - j"] dvd_imp_le [of 5 "j - k"]
  by (cases j k rule: linorder_cases) auto

lemma var_index_inj: "j < 5 \<Longrightarrow> k < 5 \<Longrightarrow> var_index t j = var_index t k \<longleftrightarrow> j = k"
  unfolding var_index_def by (rule mod5_cancel)

definition regs_of :: "nat \<Rightarrow> u32 list \<Rightarrow> regs" where
  "regs_of t r = (r ! var_index t 0, r ! var_index t 1, r ! var_index t 2, r ! var_index t 3, r ! var_index t 4)"

lemma regs_of_step:
  assumes "length r = 5"
  shows "regs_of (Suc t) (r[var_index t 4 := v, var_index t 1 := u])
    = (v, r ! var_index t 0, u, r ! var_index t 2, r ! var_index t 3)"
  using assms by (simp add: regs_of_def var_index_rotate var_index_inj)

definition ring :: "(nat \<Rightarrow> u32) \<Rightarrow> nat \<Rightarrow> u32 list \<Rightarrow> bool" where
  "ring M t l \<longleftrightarrow> length l = 16 \<and> (\<forall>s < t. t \<le> s + 16 \<longrightarrow> l ! (s mod 16) = fips_W M s)
     \<and> (\<forall>s. t \<le> s \<longrightarrow> s < 16 \<longrightarrow> bswap32 (l ! s) = M s)"

lemma mod16_distinct: "s < t \<Longrightarrow> t < s + 16 \<Longrightarrow> (s::nat) mod 16 \<noteq> t mod 16"
  using mod_eq_dvd_iff_nat [of s t 16] dvd_imp_le [of 16 "t - s"] by auto

lemma ring_store:
  assumes "ring M t l"
  shows "ring M (Suc t) (l[t mod 16 := fips_W M t])"
  unfolding ring_def
proof (intro conjI allI impI)
  show "length (l[t mod 16 := fips_W M t]) = 16" using assms by (simp add: ring_def)
  fix s
  show "l[t mod 16 := fips_W M t] ! (s mod 16) = fips_W M s" if "s < Suc t" "Suc t \<le> s + 16"
  proof (cases "s = t")
    case True then show ?thesis using assms by (simp add: ring_def)
  next
    case False
    with that have "s mod 16 \<noteq> t mod 16" by (intro mod16_distinct) auto
    with assms that False show ?thesis by (simp add: ring_def)
  qed
  show "bswap32 (l[t mod 16 := fips_W M t] ! s) = M s" if "Suc t \<le> s" "s < 16"
    using assms that by (simp add: ring_def)
qed

lemma ring_expand:
  assumes "ring M t l"
  shows "(if t < 16 then blk0 else blk) l t = (fips_W M t, l[t mod 16 := fips_W M t])"
proof (cases "t < 16")
  case True
  with assms show ?thesis
    unfolding blk0_def blk0_value by (simp add: ring_def fips_W.simps Let_def)
next
  case False
  have old: "l ! ((t + k) mod 16) = fips_W M (t - (16 - k))" if "k < 16" for k
  proof -
    have "t - (16 - k) + 16 = t + k" using False that by simp
    then have "(t + k) mod 16 = (t - (16 - k)) mod 16" by (metis mod_add_self2)
    then show ?thesis using assms False that by (simp add: ring_def)
  qed
  have "l ! (t mod 16) = fips_W M (t - 16)" "l ! (Suc (Suc t) mod 16) = fips_W M (t - 14)"
    using old [of 0] old [of 2] by simp_all
  with False show ?thesis
    unfolding blk_def by (simp add: old rol_word_rotl fips_W.simps [of M t] Let_def)
qed

lemma round_line_step:
  assumes "ring M t l" "length r = 5"
  shows "\<exists>r' l'. round_line t (r, l) = (r', l') \<and> ring M (Suc t) l' \<and> length r' = 5
    \<and> regs_of (Suc t) r' = fips_step M t (regs_of t r)"
proof -
  let ?v = "r ! var_index t 4 + (fips_f t (r ! var_index t 1) (r ! var_index t 2) (r ! var_index t 3)
    + fips_W M t + fips_K t + rol (r ! var_index t 0) 5)"
  let ?r' = "r[var_index t 4 := ?v, var_index t 1 := rol (r ! var_index t 1) 30]"
  note e = ring_expand [OF assms(1)]
  have "round_line t (r, l) = (?r', l[t mod 16 := fips_W M t])"
    using e assms(2) unfolding round_line_def
    by (simp add: R0_def R1_def R2_def R3_def R4_def R_macro_def round_functions fips_f_def fips_K_def
        var_index_inj Let_def split: if_splits)
  moreover have "regs_of (Suc t) ?r' = fips_step M t (regs_of t r)"
    unfolding regs_of_step [OF assms(2)] fips_step_def by (simp add: regs_of_def rol_word_rotl ac_simps)
  ultimately show ?thesis using ring_store [OF assms(1)] assms(2) by simp
qed

lemma rounds_run:
  assumes "ring M 0 l" "length r = 5"
  shows "\<exists>r' l'. fold round_line [0..<n] (r, l) = (r', l') \<and> ring M n l' \<and> length r' = 5
    \<and> regs_of n r' = fold (fips_step M) [0..<n] (regs_of 0 r)"
proof (induction n)
  case 0
  with assms show ?case by simp
next
  case (Suc n)
  then obtain r' l' where "fold round_line [0..<n] (r, l) = (r', l')" "ring M n l'" "length r' = 5"
    "regs_of n r' = fold (fips_step M) [0..<n] (regs_of 0 r)" by blast
  then show ?case using round_line_step [of M n l' r'] by simp
qed

definition regs_list :: "regs \<Rightarrow> u32 list" where
  "regs_list = (\<lambda>(a, b, c, d, e). [a, b, c, d, e])"

lemma list5_cases: "length r = 5 \<Longrightarrow> \<exists>a b c d e. r = [a, b, c, d, e]"
  by (auto simp: numeral_eq_Suc length_Suc_conv)

lemma regs_list_of: "length r = 5 \<Longrightarrow> regs_list (regs_of 80 r) = r" "regs_of 0 (regs_list h) = h"
  using list5_cases [of r] by (auto simp: regs_list_def regs_of_def var_index_def split: prod.splits)

lemma load_block_ring:
  assumes "length bs = 64"
  shows "ring (\<lambda>t. load_be32 (take 4 (drop (4 * t) bs))) 0 (load_block bs)"
proof -
  have "bswap32 (load32 True ws) = load_be32 ws" if "length ws = 4" for ws
    using ntohl_load32 [OF that, of True] by (simp add: ntohl_util_def little_endianess_correct libc_ntohl_def)
  then show ?thesis using assms by (simp add: ring_def load_block_def)
qed

lemma length_regs_list [simp]: "length (regs_list h) = 5"
  by (simp add: regs_list_def split: prod.splits)

lemma SHA1Transform_fips:
  assumes "length bs = 64"
  shows "SHA1Transform (regs_list h) bs = regs_list (fips_block bs h)"
proof -
  let ?M = "\<lambda>t. load_be32 (take 4 (drop (4 * t) bs))"
  obtain r l where r: "fold round_line [0..<80] (regs_list h, load_block bs) = (r, l)" "length r = 5"
    "regs_of 80 r = fold (fips_step ?M) [0..<80] h"
    using rounds_run [OF load_block_ring [OF assms], of "regs_list h" 80] by (auto simp: regs_list_of)
  have "r = regs_list (fold (fips_step ?M) [0..<80] h)" using r(2,3) regs_list_of(1) by metis
  with r(1) show ?thesis
    by (auto simp: SHA1Transform_def fips_block_def regs_list_def Let_def add.commute split: prod.splits)
qed

subsection \<open>The context: absorbing a message in pieces\<close>

lemma fips_blocks_short: "length bs < 64 \<Longrightarrow> fips_blocks bs H = H"
  by (subst fips_blocks.simps) simp

lemma fips_blocks_Cons: "length b = 64 \<Longrightarrow> fips_blocks (b @ bs) H = fips_blocks bs (fips_block b H)"
  by (subst fips_blocks.simps) simp

lemma fips_blocks_append: "64 dvd length xs \<Longrightarrow> fips_blocks (xs @ ys) H = fips_blocks ys (fips_blocks xs H)"
proof (induction xs H rule: fips_blocks.induct)
  case (1 xs H)
  show ?case
  proof (cases "length xs < 64")
    case True
    with "1.prems" have "xs = []" using dvd_imp_le by fastforce
    then show ?thesis by (simp add: fips_blocks_short)
  next
    case False
    with "1.prems" have "64 dvd length (drop 64 xs)" by (simp add: dvd_diff_nat)
    from "1.IH" [OF False this] show ?thesis
      using fips_blocks_Cons [of "take 64 xs" "drop 64 xs @ ys" H] fips_blocks_Cons [of "take 64 xs" "drop 64 xs" H] False
      by (simp add: append_assoc [symmetric] del: append_assoc)
  qed
qed

definition absorbed :: "SHA1_CTX \<Rightarrow> u8 list \<Rightarrow> bool" where
  "absorbed ctx m \<longleftrightarrow> (\<exists>p rest. m = p @ rest \<and> 64 dvd length p \<and> length rest < 64
     \<and> state ctx = regs_list (fips_blocks p fips_H0) \<and> length (buffer ctx) = 64
     \<and> take (length rest) (buffer ctx) = rest)
     \<and> count0 ctx = of_nat (8 * length m) \<and> count1 ctx = of_nat (8 * length m div 2 ^ 32)"

lemma unat_of_nat_u32: "unat (of_nat n :: u32) = n mod 2 ^ 32"
  by (simp add: unat_of_nat)

lemma mod_mod_8: "8 * n mod 4294967296 div 8 mod 64 = n mod (64::nat)"
proof -
  have "8 * n mod (8 * 536870912) = 8 * (n mod 536870912)" by (rule mult_mod_right [symmetric])
  then have "8 * n mod 4294967296 div 8 = n mod 536870912" by simp
  moreover have "n mod 536870912 mod 64 = n mod 64" by (rule mod_mod_cancel) simp
  ultimately show ?thesis by simp
qed

lemma buffer_position: "unat (drop_bit 3 (of_nat (8 * n) :: u32) AND 63) = n mod 64"
proof -
  have "(drop_bit 3 (of_nat (8 * n) :: u32) AND 63) = take_bit 6 (drop_bit 3 (of_nat (8 * n)))"
    by (simp add: take_bit_eq_mask mask_numeral)
  then show ?thesis
    unfolding unsigned_take_bit_eq unat_drop_bit_eq unat_of_nat_u32
    by (simp only: unsigned_take_bit_eq unat_drop_bit_eq unat_of_nat_u32)
      (simp add: take_bit_eq_mod drop_bit_eq_div mod_mod_8)
qed

lemma count0_step: "(of_nat (8 * n) :: u32) + push_bit 3 (of_nat len) = of_nat (8 * (n + len))"
  by (simp add: push_bit_eq_mult algebra_simps)

lemma small_sum:
  assumes "x < M" "y < (M::nat)"
  shows "(x + y) mod M = (if x + y < M then x + y else x + y - M)"
    and "(x + y) div M = of_bool (M \<le> x + y)"
proof -
  show "(x + y) mod M = (if x + y < M then x + y else x + y - M)"
    using assms le_mod_geq [of M "x + y"] by auto
  show "(x + y) div M = of_bool (M \<le> x + y)"
    using assms le_div_geq [of M "x + y"] by auto
qed

lemma carry_div:
  fixes a l M :: nat
  assumes "0 < M"
  shows "(a + l) div M = a div M + l div M + of_bool ((a + l) mod M < a mod M)"
proof -
  have lt: "a mod M < M" "l mod M < M" using assms by simp_all
  have "(a + l) mod M = (a mod M + l mod M) mod M" by (simp add: mod_add_eq)
  then have "(a + l) mod M < a mod M \<longleftrightarrow> M \<le> a mod M + l mod M"
    unfolding small_sum(1) [OF lt] using lt by auto
  then show ?thesis using small_sum(2) [OF lt] by (simp add: div_add1_eq [of a l])
qed

lemma count1_step:
  assumes "len < 2 ^ 32"
  shows "(if (of_nat (8 * (n + len)) :: u32) < of_nat (8 * n) then (of_nat (8 * n div 2 ^ 32) :: u32) + 1
      else of_nat (8 * n div 2 ^ 32)) + drop_bit 29 (of_nat len)
    = of_nat (8 * (n + len) div 2 ^ 32)"
proof -
  have d: "drop_bit 29 (of_nat len :: u32) = of_nat (8 * len div 2 ^ 32)"
  proof (rule word_unat_eq_iff [THEN iffD2])
    show "unat (drop_bit 29 (of_nat len :: u32)) = unat (of_nat (8 * len div 2 ^ 32) :: u32)"
      unfolding unat_drop_bit_eq unat_of_nat_u32 using assms by (simp add: drop_bit_eq_div)
  qed
  show ?thesis
    unfolding d using carry_div [of "2 ^ 32" "8 * n" "8 * len"]
    unfolding word_less_nat_alt unat_of_nat_u32 distrib_left
    by (cases "(8 * n + 8 * len) mod 2 ^ 32 < 8 * n mod 2 ^ 32") simp_all
qed

lemma update_blocks_run:
  assumes "i \<le> len" "len \<le> length dat" "len + 63 < 2 ^ 32"
  shows "update_blocks (regs_list h) dat i len =
    Some (regs_list (fips_blocks (drop i (take len dat)) h), len - (len - i) mod 64)"
  using assms
proof (induction "regs_list h" dat i len arbitrary: h rule: update_blocks.induct)
  case (1 dat i len)
  show ?case
  proof (cases "i + 63 < len")
    case True
    then have "take 64 (drop i (take len dat)) = take 64 (drop i dat)"
      by (simp add: take_drop min_def)
    moreover have "(len - i) mod 64 = (len - (i + 64)) mod 64"
      using True le_mod_geq [of 64 "len - i"] by (simp add: add.commute)
    moreover have "drop 64 (drop i (take len dat)) = drop (i + 64) (take len dat)" by (simp add: add.commute)
    moreover have "\<not> len - i < 64" using True by simp
    ultimately show ?thesis
      using True 1 SHA1Transform_fips [of "take 64 (drop i dat)" h]
      by (subst update_blocks.simps, subst fips_blocks.simps) simp
  next
    case False
    with 1 show ?thesis by (subst update_blocks.simps) (simp add: fips_blocks_short)
  qed
qed


lemma SHA1Update_counts:
  assumes "absorbed ctx m" "len < 2 ^ 32"
  shows "count0 ctx + push_bit 3 (of_nat len) = of_nat (8 * (length m + len))"
    and "(if (of_nat (8 * (length m + len)) :: u32) < count0 ctx then count1 ctx + 1 else count1 ctx)
      + drop_bit 29 (of_nat len) = of_nat (8 * (length m + len) div 2 ^ 32)"
    and "unat (drop_bit 3 (count0 ctx) AND 63) = length m mod 64"
  using assms(1) count1_step [OF assms(2), of "length m"]
  by (simp_all only: absorbed_def count0_step buffer_position simp_thms)

lemma update_blocks_split:
  assumes "i \<le> len" "len \<le> length dat" "len + 63 < 2 ^ 32"
  obtains B1 B2 where "drop i (take len dat) = B1 @ B2" "64 dvd length B1" "length B2 < 64"
    "update_blocks (regs_list h) dat i len = Some (regs_list (fips_blocks B1 h), len - length B2)"
proof -
  let ?t = "drop i (take len dat)"
  let ?k = "64 * (length ?t div 64)"
  have t: "?t = take ?k ?t @ drop ?k ?t" by (rule append_take_drop_id [symmetric])
  have k: "?k \<le> length ?t" "64 dvd length (take ?k ?t)" by simp_all
  have "length ?t = len - i" using assms by simp
  then have l: "length (drop ?k ?t) = (len - i) mod 64"
    by (simp only: length_drop minus_mult_div_eq_mod)
  have "fips_blocks ?t h = fips_blocks (take ?k ?t) h"
    by (subst t, subst fips_blocks_append [OF k(2)]) (simp add: l fips_blocks_short del: drop_drop length_drop)
  with update_blocks_run [OF assms, of h] l t k(2) that show ?thesis by (metis mod_less_divisor zero_less_numeral)
qed

lemma drop_suffix: "d = xs @ ys \<Longrightarrow> length ys \<le> length d \<and> drop (length d - length ys) d = ys"
  by simp

lemma SHA1Update_run:
  assumes abs: "absorbed ctx m" and len: "len \<le> length dat" "len + 64 < 2 ^ 32"
  shows "\<exists>ctx'. SHA1Update ctx dat len = Some ctx' \<and> absorbed ctx' (m @ take len dat)"
proof -
  from len have len32: "len < 2 ^ 32" by simp
  from abs obtain p rest where m: "m = p @ rest" "64 dvd length p" "length rest < 64"
    "state ctx = regs_list (fips_blocks p fips_H0)" "length (buffer ctx) = 64" "take (length rest) (buffer ctx) = rest"
    unfolding absorbed_def by blast
  have j: "length m mod 64 = length rest" using m(1,2,3) by (auto elim!: dvdE)
  define j where "j = length rest"
  define c0 where "c0 = (of_nat (8 * (length m + len)) :: u32)"
  define c1 where "c1 = (of_nat (8 * (length m + len) div 2 ^ 32) :: u32)"
  define d where "d = take len dat"
  note counts = SHA1Update_counts [OF abs len32, unfolded j, folded c0_def c1_def j_def]
  have ld: "length d = len" using len(1) by (simp add: d_def)
  have new_counts: "c0 = of_nat (8 * length (m @ d))" "c1 = of_nat (8 * length (m @ d) div 2 ^ 32)"
    by (simp_all add: c0_def c1_def ld)
  have jlen: "(j + len) mod 2 ^ 32 = j + len" using m(3) len(2) by (simp add: j_def)
  show ?thesis
  proof (cases "j + len > 63")
    case True
    define i where "i = 64 - j"
    have i: "i \<le> len" "j + i = 64" using True m(3) by (simp_all add: j_def i_def)
    define block where "block = rest @ take i d"
    have lb: "length block = 64" using i ld by (simp add: block_def j_def)
    have td: "take i dat = take i d" using i by (simp add: d_def min_def)
    have cp: "memcpy_at (buffer ctx) j (take i dat) = Some block"
      using m(5,6) i ld unfolding td by (simp add: memcpy_at_def splice_def block_def j_def)
    let ?h = "fips_block block (fips_blocks p fips_H0)"
    from i(1) len obtain B1 B2 where B: "drop i d = B1 @ B2" "64 dvd length B1" "length B2 < 64"
      "update_blocks (regs_list ?h) dat i len = Some (regs_list (fips_blocks B1 ?h), len - length B2)"
      using update_blocks_split [of i len dat ?h] unfolding d_def by auto
    have tail: "length B2 \<le> len" "drop (len - length B2) d = B2"
      using drop_suffix [of d "take i d @ B1" B2] B(1) ld by (metis append_assoc append_take_drop_id)+
    have b2: "take (len - (len - length B2)) (drop (len - length B2) dat) = B2"
      using tail by (simp add: d_def drop_take)
    have last: "memcpy_at block 0 B2 = Some (B2 @ drop (length B2) block)"
      using B(3) lb by (simp add: memcpy_at_def splice_def)
    let ?ctx' = "ctx\<lparr>count0 := c0, count1 := c1, state := regs_list (fips_blocks B1 ?h), buffer := B2 @ drop (length B2) block\<rparr>"
    have "SHA1Update ctx dat len = Some ?ctx'"
      unfolding SHA1Update_def Let_def counts jlen i_def [symmetric]
      using True i len(1) tail(1) b2 cp B(4) last m(4) by (simp add: SHA1Transform_fips [OF lb])
    moreover have "absorbed ?ctx' (m @ d)"
    proof -
      have "m @ d = (p @ block @ B1) @ B2"
        using m(1) B(1) unfolding block_def by (metis append_assoc append_take_drop_id)
      moreover have "fips_blocks (p @ block @ B1) fips_H0 = fips_blocks B1 ?h"
        by (simp only: fips_blocks_append [OF m(2)] fips_blocks_Cons [OF lb])
      moreover have "64 dvd length (p @ block @ B1)" using m(2) lb B(2) by simp
      ultimately show ?thesis
        unfolding absorbed_def new_counts using B(3) lb
        by (intro conjI exI [of _ "p @ block @ B1"] exI [of _ B2]) simp_all
    qed
    ultimately show ?thesis unfolding d_def by blast
  next
    case False
    let ?ctx' = "ctx\<lparr>count0 := c0, count1 := c1, buffer := splice (buffer ctx) j d\<rparr>"
    have "SHA1Update ctx dat len = Some ?ctx'"
      unfolding SHA1Update_def Let_def counts jlen d_def [symmetric] using False len m(5) ld by (simp add: memcpy_at_def)
    moreover have "absorbed ?ctx' (m @ d)"
      unfolding absorbed_def new_counts using m False ld
      by (intro conjI exI [of _ p] exI [of _ "rest @ d"]) (simp_all add: splice_def j_def)
    ultimately show ?thesis unfolding d_def by blast
  qed
qed

lemma SHA1Init_absorbed: "length b = 64 \<Longrightarrow> absorbed (SHA1Init b) []"
  by (simp add: absorbed_def SHA1Init_def fips_blocks_short fips_H0_def regs_list_def)

lemma unat_numeral_eq_56: "unat (56::u32) = 56"
  by simp

lemma pad_test:
  assumes "absorbed ctx m"
  shows "count0 ctx AND 504 = 448 \<longleftrightarrow> length m mod 64 = 56"
proof -
  let ?x = "count0 ctx" and ?y = "drop_bit 3 (count0 ctx) AND 63"
  have m: "(504::u32) = push_bit 3 (mask 6)" "(63::u32) = mask 6" by (simp_all add: mask_numeral)
  have up: "?x AND 504 = push_bit 3 ?y"
    unfolding m by (rule bit_word_eqI) (auto simp: bit_simps)
  have down: "drop_bit 3 (?x AND 504) = ?y"
    unfolding m by (rule bit_word_eqI) (auto simp: bit_simps)
  have "?x AND 504 = 448 \<longleftrightarrow> ?y = 56"
  proof
    assume "?x AND 504 = 448"
    then show "?y = 56" using down by simp
  next
    assume "?y = 56"
    then show "?x AND 504 = 448" unfolding up by simp
  qed
  also have "\<dots> \<longleftrightarrow> unat ?y = 56" by (metis unat_numeral_eq_56 word_unat_eq_iff)
  also have "unat ?y = length m mod 64"
    using assms buffer_position by (simp only: absorbed_def)
  finally show ?thesis .
qed

lemma final_pad_run:
  assumes "absorbed ctx m" "(length m + k) mod 64 = 56" "k < 64" "k \<le> fuel"
  shows "\<exists>ctx'. final_pad fuel ctx = Some ctx' \<and> absorbed ctx' (m @ replicate k 0)"
  using assms
proof (induction k arbitrary: ctx m fuel)
  case 0
  then show ?case using pad_test [of ctx m] by (subst final_pad.simps) auto
next
  case (Suc k)
  have "length m mod 64 \<noteq> 56"
    using Suc.prems(2,3) mod_eq_dvd_iff_nat [of "length m" "length m + Suc k" 64] dvd_imp_le [of 64 "Suc k"]
    by auto
  with pad_test [OF Suc.prems(1)] have t: "count0 ctx AND 504 \<noteq> 448" by simp
  obtain f where f: "fuel = Suc f" using Suc.prems(4) by (cases fuel) auto
  obtain ctx1 where c1: "SHA1Update ctx [0] 1 = Some ctx1" "absorbed ctx1 (m @ [0])"
    using SHA1Update_run [OF Suc.prems(1), of 1 "[0]"] by auto
  from Suc.IH [OF c1(2), of f] Suc.prems f c1(1) t show ?case
    by (subst final_pad.simps) (simp add: replicate_append_same [symmetric])
qed

lemma ucast_and_255: "(ucast ((w::u32) AND 255) :: u8) = ucast w"
proof -
  have m: "(255::u32) = mask 8" by (simp add: mask_numeral)
  show ?thesis unfolding m by (rule bit_word_eqI) (auto simp: bit_simps)
qed

lemma word_octets_be32:
  "word_octets [a, b] 8 = be32 a @ be32 b"
  "word_octets [a, b, c, d, e] 20 = be32 a @ be32 b @ be32 c @ be32 d @ be32 e"
  by (simp_all add: word_octets_def be32_def ucast_and_255 upt_rec_numeral upt_rec)

lemma count_octets:
  "be32 (of_nat (n div 2 ^ 32)) @ be32 (of_nat n) = be64 (of_nat n)"
proof -
  have "(ucast (of_nat n :: u64) :: u32) = of_nat n"
  proof (rule word_unat_eq_iff [THEN iffD2])
    have "n mod 2 ^ 64 mod 2 ^ 32 = n mod 2 ^ 32" by (rule mod_mod_cancel) simp
    then show "unat (ucast (of_nat n :: u64) :: u32) = unat (of_nat n :: u32)"
      by (simp add: unsigned_ucast_eq unat_of_nat take_bit_eq_mod)
  qed
  moreover have "(ucast (drop_bit 32 (of_nat n :: u64)) :: u32) = of_nat (n div 2 ^ 32)"
  proof (rule word_unat_eq_iff [THEN iffD2])
    have "n mod 2 ^ 64 div 2 ^ 32 mod 2 ^ 32 = n div 2 ^ 32 mod 2 ^ 32"
      using mod_mult2_eq [of n "2 ^ 32" "2 ^ 32"] by simp
    then show "unat (ucast (drop_bit 32 (of_nat n :: u64)) :: u32) = unat (of_nat (n div 2 ^ 32) :: u32)"
      unfolding unsigned_ucast_eq unat_drop_bit_eq by (simp add: unat_of_nat take_bit_eq_mod drop_bit_eq_div)
  qed
  ultimately show ?thesis by (simp only: be64_def)
qed

lemma pad_length: "(n + 1 + (119 - n mod 64) mod 64) mod 64 = (56::nat)"
proof -
  define q r where "q = n div 64" and "r = n mod 64"
  have n: "n = r + 64 * q" "r < 64" by (simp_all add: q_def r_def)
  show ?thesis
  proof (cases "r \<le> 55")
    case True
    then have "(119 - r) mod 64 = 55 - r" using le_mod_geq [of 64 "119 - r"] by simp
    then have "n + 1 + (119 - r) mod 64 = 56 + 64 * q" using n True by simp
    then show ?thesis unfolding r_def [symmetric] by simp
  next
    case False
    then have "n + 1 + (119 - r) mod 64 = 56 + 64 * (q + 1)" using n by simp
    then show ?thesis unfolding r_def [symmetric] by (simp only: mod_mult_self2) simp
  qed
qed

lemma SHA1Final_run:
  assumes "absorbed ctx m"
  shows "SHA1Final ctx = Some (fips_sha1 m)"
proof -
  let ?k = "(119 - length m mod 64) mod 64"
  obtain c1 where c1: "SHA1Update ctx [0x80] 1 = Some c1" "absorbed c1 (m @ [0x80])"
    using SHA1Update_run [OF assms, of 1 "[0x80]"] by auto
  obtain c2 where c2: "final_pad 64 c1 = Some c2" "absorbed c2 ((m @ [0x80]) @ replicate ?k 0)"
    using final_pad_run [OF c1(2), of ?k 64] pad_length [of "length m"] by (auto simp: add.assoc)
  have fc: "word_octets [count1 ctx, count0 ctx] 8 = be64 (of_nat (8 * length m))"
    using assms count_octets [of "8 * length m"] by (simp only: word_octets_be32 absorbed_def)
  obtain c3 where c3: "SHA1Update c2 (be64 (of_nat (8 * length m))) 8 = Some c3" "absorbed c3 (fips_pad m)"
    using SHA1Update_run [OF c2(2), of 8 "be64 (of_nat (8 * length m))"] by (auto simp: fips_pad_def)
  from c3(2) have "state c3 = regs_list (fips_blocks (fips_pad m) fips_H0)"
    by (auto simp: absorbed_def fips_blocks_append fips_blocks_short)
  then show ?thesis
    unfolding SHA1Final_def fc Let_def using c1(1) c2(1) c3(1)
    by (auto simp: fips_sha1_def regs_list_def word_octets_be32 split: prod.splits)
qed

lemma sha1_stream:
  assumes "absorbed ctx m" "\<forall>c \<in> set cs. length c + 64 < 2 ^ 32"
  shows "\<exists>ctx'. foldM (\<lambda>c ctx. SHA1Update ctx c (length c)) cs ctx = Some ctx' \<and> absorbed ctx' (m @ concat cs)"
  using assms
proof (induction cs arbitrary: ctx m)
  case (Cons c cs)
  then obtain ctx1 where "SHA1Update ctx c (length c) = Some ctx1" "absorbed ctx1 (m @ c)"
    using SHA1Update_run [of ctx m "length c" c] by auto
  with Cons.IH [of ctx1 "m @ c"] Cons.prems show ?case by simp
qed simp

subsection \<open>Properties\<close>

text \<open>
  The block function. The unrolled rounds, with the working variables renamed instead of
  moved and the schedule expanded in a ring of sixteen words, compute the block function of
  FIPS 180-4 on every chaining value and every 64-byte block.
\<close>

theorem SHA1Transform_is_fips_block:
  assumes "length block = 64"
  shows "SHA1Transform (regs_list H) block = regs_list (fips_block block H)"
  using assms by (rule SHA1Transform_fips)

theorem SHA1Transform_is_fips_block_witness:
  "SHA1Transform (regs_list fips_H0) (replicate 64 7) = regs_list (fips_block (replicate 64 7) fips_H0)"
  by (rule SHA1Transform_is_fips_block) simp

text \<open>
  C18: streaming. Whatever the pieces a message is fed in, \<open>SHA1Init\<close>, \<open>SHA1Update\<close> on each piece
  and \<open>SHA1Final\<close> return the FIPS 180-4 digest of the whole message: no access leaves a buffer, the
  padding loop ends, and the bit count carries from the low to the high word.
\<close>

theorem sha1_streaming_correct:
  assumes "length stack_buffer = 64" "\<forall>c \<in> set pieces. length c + 64 < 2 ^ 32"
  shows "Option.bind (foldM (\<lambda>c ctx. SHA1Update ctx c (length c)) pieces (SHA1Init stack_buffer)) SHA1Final
    = Some (fips_sha1 (concat pieces))"
  using sha1_stream [OF SHA1Init_absorbed [OF assms(1)] assms(2)] SHA1Final_run by auto

theorem sha1_streaming_correct_witness:
  "Option.bind (foldM (\<lambda>c ctx. SHA1Update ctx c (length c)) [[97], replicate 70 98, []] (SHA1Init (replicate 64 0)))
     SHA1Final = Some (fips_sha1 (97 # replicate 70 98))"
  using sha1_streaming_correct [of "replicate 64 0" "[[97], replicate 70 98, []]"] by simp

lemma sha1_of_run:
  assumes "length b = 64" "len \<le> length dat" "len + 64 < 2 ^ 32"
  shows "sha1_of b dat len = Some (fips_sha1 (take len dat))"
  using SHA1Update_run [OF SHA1Init_absorbed [OF assms(1)] assms(2,3)] SHA1Final_run
  by (auto simp: sha1_of_def)

lemma length_fips_sha1 [simp]: "length (fips_sha1 m) = 20"
  by (simp add: fips_sha1_def split: prod.splits)

end
