(* ===== verification/Uvg_Text.thy ===== *)
theory Uvg_Text
  imports Uvg_Prelude
begin

text \<open>
  What the program uses of the C library's strings: decimal output (\<open>%i\<close>, \<open>%lld\<close>), and
  comparison of at most \<open>n\<close> bytes. The digits written are read back by \<open>dec_value\<close>, which makes the
  decimal keys of different numbers different.
\<close>

definition digit :: "nat \<Rightarrow> char" where
  "digit d = char_of (48 + d)"

definition digit_value :: "char \<Rightarrow> nat" where
  "digit_value c = of_char c - 48"

definition is_digit :: "char \<Rightarrow> bool" where
  "is_digit c \<longleftrightarrow> 48 \<le> (of_char c :: nat) \<and> (of_char c :: nat) \<le> 57"

fun dec_nat :: "nat \<Rightarrow> string" where
  "dec_nat n = (if n < 10 then [digit n] else dec_nat (n div 10) @ [digit (n mod 10)])"

declare dec_nat.simps [simp del]

definition dec_int :: "int \<Rightarrow> string" where
  "dec_int i = (if i < 0 then CHR ''-'' # dec_nat (nat (- i)) else dec_nat (nat i))"

definition dec_value :: "string \<Rightarrow> nat" where
  "dec_value s = foldl (\<lambda>a c. 10 * a + digit_value c) 0 s"

text \<open>\<open>strncmp\<close> on byte buffers: the sign of the first difference, stopping at a common NUL; reading
  past the end of a buffer is undefined.\<close>

fun strncmp :: "nat \<Rightarrow> u8 list \<Rightarrow> u8 list \<Rightarrow> int option" where
  "strncmp 0 xs ys = Some 0"
| "strncmp (Suc n) (x # xs) (y # ys) =
     (if x \<noteq> y then Some (uint x - uint y) else if x = 0 then Some 0 else strncmp n xs ys)"
| "strncmp (Suc n) _ _ = None"

text \<open>\<open>strcmp\<close> and \<open>strlen\<close>: both need a terminating NUL inside the object.\<close>

fun strcmp :: "u8 list \<Rightarrow> u8 list \<Rightarrow> int option" where
  "strcmp (x # xs) (y # ys) =
     (if x \<noteq> y then Some (uint x - uint y) else if x = 0 then Some 0 else strcmp xs ys)"
| "strcmp _ _ = None"

definition strlen :: "u8 list \<Rightarrow> nat option" where
  "strlen s = (if 0 \<in> set s then Some (length (takeWhile (\<lambda>c. c \<noteq> 0) s)) else None)"

text \<open>The object that holds a C string and nothing else.\<close>

definition cstring :: "u8 list \<Rightarrow> u8 list" where
  "cstring s = s @ [0]"

lemma of_char_digit [simp]: "d < 10 \<Longrightarrow> (of_char (digit d) :: nat) = 48 + d"
  by (simp add: digit_def of_char_of)

lemma digit_value_digit [simp]: "d < 10 \<Longrightarrow> digit_value (digit d) = d"
  by (simp add: digit_value_def)

lemma is_digit_digit [simp]: "d < 10 \<Longrightarrow> is_digit (digit d)"
  by (simp add: is_digit_def)

lemma digit_of_value: "is_digit c \<Longrightarrow> digit (digit_value c) = c"
  by (simp add: is_digit_def digit_def digit_value_def)

lemma dec_value_append [simp]: "dec_value (s @ [c]) = 10 * dec_value s + digit_value c"
  by (simp add: dec_value_def)

lemma dec_value_dec_nat [simp]: "dec_value (dec_nat n) = n"
proof (induction n rule: dec_nat.induct)
  case (1 n)
  then show ?case by (subst dec_nat.simps) (simp add: dec_value_def [of "[_]"])
qed

lemma dec_nat_inject [simp]: "dec_nat m = dec_nat n \<longleftrightarrow> m = n"
  by (metis dec_value_dec_nat)

lemma dec_nat_digits: "c \<in> set (dec_nat n) \<Longrightarrow> is_digit c"
proof (induction n rule: dec_nat.induct)
  case (1 n)
  show ?case
  proof (cases "n < 10")
    case True
    with 1(2) show ?thesis by (simp add: dec_nat.simps [of n])
  next
    case False
    with 1 show ?thesis by (auto simp: dec_nat.simps [of n])
  qed
qed

lemma dec_nat_not_Nil [simp]: "dec_nat n \<noteq> []"
  by (subst dec_nat.simps) simp

lemma dec_nat_hd: "is_digit (hd (dec_nat n))"
  by (rule dec_nat_digits [of _ n]) simp

lemma minus_not_digit: "\<not> is_digit (CHR ''-'')"
  by (simp add: is_digit_def)

lemma dec_int_inject: "dec_int i = dec_int j \<longleftrightarrow> i = j"
proof
  assume e: "dec_int i = dec_int j"
  have sign: "dec_nat n \<noteq> CHR ''-'' # dec_nat k" for n k
    using dec_nat_hd [of n] minus_not_digit by auto
  from e show "i = j"
    using sign [of "nat i" "nat (- j)"] sign [of "nat j" "nat (- i)"]
    by (auto simp: dec_int_def split: if_splits)
qed simp

lemma dec_nat_length: "n < 10 ^ k \<Longrightarrow> 0 < k \<Longrightarrow> length (dec_nat n) \<le> k"
proof (induction n arbitrary: k rule: dec_nat.induct)
  case (1 n)
  show ?case
  proof (cases "n < 10")
    case True
    with 1(3) show ?thesis by (simp add: dec_nat.simps [of n])
  next
    case False
    with "1.prems" obtain j where j: "k = Suc j" "0 < j" by (cases k; cases "k - 1") auto
    then have "n div 10 < 10 ^ j" using "1.prems" by (simp add: less_mult_imp_div_less mult.commute)
    with 1(1) [OF False _ j(2)] j(1) False show ?thesis by (simp add: dec_nat.simps [of n])
  qed
qed

lemma strncmp_defined: "n \<le> length xs \<Longrightarrow> n \<le> length ys \<Longrightarrow> \<exists>r. strncmp n xs ys = Some r"
  by (induction n xs ys rule: strncmp.induct) auto

lemma strncmp_refl: "n \<le> length xs \<Longrightarrow> strncmp n xs xs = Some 0"
proof (induction n arbitrary: xs)
  case (Suc n)
  then show ?case by (cases xs) auto
qed simp

text \<open>Equality up to and including the first common NUL is all that \<open>strncmp\<close> sees.\<close>

lemma strncmp_0_iff:
  assumes "n \<le> length xs" "n \<le> length ys"
  shows "strncmp n xs ys = Some 0 \<longleftrightarrow>
    take n xs = take n ys \<or> (\<exists>k < n. xs ! k = 0 \<and> take (Suc k) xs = take (Suc k) ys)"
  using assms
proof (induction n xs ys rule: strncmp.induct)
  case (2 n x xs y ys)
  then have IH: "strncmp n xs ys = Some 0 \<longleftrightarrow>
      take n xs = take n ys \<or> (\<exists>k < n. xs ! k = 0 \<and> take (Suc k) xs = take (Suc k) ys)" if "x = y" "x \<noteq> 0"
    using that by simp
  have "(\<exists>k < Suc n. (x # xs) ! k = 0 \<and> take (Suc k) (x # xs) = take (Suc k) (y # ys)) \<longleftrightarrow>
      x = y \<and> (x = 0 \<or> (\<exists>k < n. xs ! k = 0 \<and> take (Suc k) xs = take (Suc k) ys))"
    by (auto simp: less_Suc_eq_0_disj)
  with IH show ?case by (auto simp: word_uint_eq_iff [of x y] uint_0_iff)
qed auto

lemma strcmp_terminated:
  assumes "0 \<notin> set a" "0 \<notin> set b"
  shows "\<exists>d. strcmp (a @ 0 # r) (b @ 0 # s) = Some d \<and> (d = 0 \<longleftrightarrow> a = b)"
  using assms
proof (induction a arbitrary: b)
  case Nil
  then show ?case by (cases b) (auto simp: uint_0_iff)
next
  case (Cons x a)
  show ?case
  proof (cases b)
    case Nil
    with Cons.prems show ?thesis by (simp add: uint_0_iff)
  next
    case (Cons y b')
    with Cons.IH [of b'] Cons.prems show ?thesis by (auto simp: word_uint_eq_iff [of x y])
  qed
qed

lemma strcmp_cstring:
  "0 \<notin> set a \<Longrightarrow> 0 \<notin> set b \<Longrightarrow> \<exists>d. strcmp (cstring a) (cstring b) = Some d \<and> (d = 0 \<longleftrightarrow> a = b)"
  using strcmp_terminated [of a b "[]" "[]"] by (simp add: cstring_def)

lemma strlen_cstring [simp]: "0 \<notin> set a \<Longrightarrow> strlen (cstring a) = Some (length a)"
  by (auto simp: strlen_def cstring_def takeWhile_append)

end
