(* ===== verification/Uvg_TorrentData.thy ===== *)
theory Uvg_TorrentData
  imports Uvg_Bitfield Uvg_HashMap Uvg_Sha1 Uvg_Text
begin

text \<open>
  The shared download state of \<^verbatim>\<open>src/src/torrent/torrent_data.c\<close>: which chunks are claimed and
  completed, the unfinished pieces held in memory, the verification of finished pieces and their
  mapping onto the files on disk.

  The list of claims and the list of files are lists here; the loops over them only ever follow
  \<open>next\<close> and unlink the current node. The disk is a map from paths to contents. What the system
  decides is an argument: allocation, clock readings, whether a file can be created and opened, how
  many bytes a write accepts. A pointer that may be NULL is an \<open>option\<close>, and a call through NULL is
  undefined (\<open>None\<close>). The locks make each operation atomic.
\<close>

record torrent_data_claim =
  deadline :: int
  claim_chunk_id :: int

record torrent_data_file_info =
  fp_open :: bool
  file_path :: string
  file_offset :: nat
  file_size :: nat

record chunk_info =
  chunk_id :: int
  chunk_piece_id :: int
  info_chunk_size :: nat
  chunk_offset :: nat

record piece_info =
  piece_id :: int
  info_piece_size :: nat
  piece_offset :: nat

record torrent_data =
  needed :: int
  initialized :: int
  claims :: "torrent_data_claim list"
  claimed :: "bitfield option"
  completed :: "bitfield option"
  root_path :: string
  files :: "torrent_data_file_info list"
  files_size :: nat
  piece_size :: nat
  chunk_size :: nat
  data_size :: nat
  piece_count :: int
  completed_pieces :: int
  chunk_count :: int
  downloaded :: int
  left :: int
  uploaded :: int
  pieces :: "u8 list hash_map option"
  sha1_hashes :: "u8 list option"
  sha1_hashes_len :: nat

definition torrent_data_new :: "bool \<Rightarrow> string \<Rightarrow> torrent_data option" where
  "torrent_data_new malloc_ok path =
     (if malloc_ok then
        Some \<lparr>needed = 0, initialized = 0, claims = [], claimed = None, completed = None,
          root_path = path, files = [], files_size = 0, piece_size = 0, chunk_size = 0, data_size = 0,
          piece_count = 0, completed_pieces = 0, chunk_count = 0, downloaded = 0, left = 0,
          uploaded = 0, pieces = None, sha1_hashes = None, sha1_hashes_len = 0\<rparr>
      else None)"

subsection \<open>Initialisation\<close>

text \<open>The two setters only log when the data is initialised already.\<close>

definition torrent_data_set_piece_size :: "torrent_data \<Rightarrow> nat \<Rightarrow> torrent_data" where
  "torrent_data_set_piece_size td n = td\<lparr>piece_size := n\<rparr>"

definition torrent_data_set_chunk_size :: "torrent_data \<Rightarrow> nat \<Rightarrow> torrent_data" where
  "torrent_data_set_chunk_size td n = td\<lparr>chunk_size := n\<rparr>"

text \<open>\<open>torrent_data_add_file\<close>: the path is assembled in a 4096-byte array, which a longer one
  overruns; the flags are the results of \<open>malloc\<close> and \<open>strndup\<close>.\<close>

definition torrent_data_add_file ::
  "bool \<Rightarrow> bool \<Rightarrow> torrent_data \<Rightarrow> string \<Rightarrow> nat \<Rightarrow> (status \<times> torrent_data) option" where
  "torrent_data_add_file malloc_ok strndup_ok td path len =
     (if \<not> malloc_ok then Some (EXIT_FAILURE, td)
      else if length (root_path td) + length path \<ge> 4096 then None
      else if \<not> strndup_ok then Some (EXIT_FAILURE, td)
      else
        let file = \<lparr>fp_open = False, file_path = root_path td @ path, file_offset = files_size td, file_size = len\<rparr>
        in Some (EXIT_SUCCESS,
             td\<lparr>files := files td @ [file], files_size := (files_size td + len) mod 2 ^ 64\<rparr>))"

definition torrent_data_set_sha1_hashes ::
  "bool \<Rightarrow> torrent_data \<Rightarrow> u8 list \<Rightarrow> nat \<Rightarrow> torrent_data option" where
  "torrent_data_set_sha1_hashes malloc_ok td hashes len =
     (if malloc_ok \<and> len \<le> length hashes
      then Some (td\<lparr>sha1_hashes_len := len, sha1_hashes := Some (take len hashes)\<rparr>) else None)"

definition torrent_data_set_data_size ::
  "bool \<Rightarrow> bool \<Rightarrow> bool \<Rightarrow> torrent_data \<Rightarrow> nat \<Rightarrow> (status \<times> torrent_data) option" where
  "torrent_data_set_data_size malloc1 malloc2 malloc3 td n =
     (if initialized td = 1 then Some (EXIT_FAILURE, td)
      else if chunk_size td = 0 then Some (EXIT_FAILURE, td)
      else if piece_size td = 0 then None
      else
        let td = td\<lparr>data_size := n\<rparr>;
            pc = int32_of (int ((n + (piece_size td - 1)) mod 2 ^ 64 div piece_size td));
            cc = int32_of (int ((n + (chunk_size td - 1)) mod 2 ^ 64 div chunk_size td))
        in do {
          cl \<leftarrow> bitfield_new malloc1 (size_t_of cc) 0 0xFF;
          co \<leftarrow> bitfield_new malloc2 (size_t_of cc) 0 0xFF;
          Some (EXIT_SUCCESS,
            td\<lparr>piece_count := pc, chunk_count := cc, claimed := cl, completed := co,
               downloaded := 0, left := int64_of (int n), uploaded := 0,
               pieces := hashmap_new malloc3 1000, initialized := 1\<rparr>)
        })"

subsection \<open>Chunk and piece geometry\<close>

text \<open>The status and what is stored through the out pointer (nothing on failure).\<close>

definition torrent_data_get_chunk_info :: "torrent_data \<Rightarrow> int \<Rightarrow> (status \<times> chunk_info option) option" where
  "torrent_data_get_chunk_info td cid =
     (if chunk_size td = 0 \<or> data_size td = 0 then Some (EXIT_FAILURE, None)
      else if piece_size td = 0 then None
      else
        let off = size_t_of (int (chunk_size td) * cid)
        in Some (EXIT_SUCCESS, Some \<lparr>chunk_id = cid, chunk_piece_id = int32_of (int (off div piece_size td)),
             info_chunk_size = min (chunk_size td) (size_sub (data_size td) off), chunk_offset = off\<rparr>))"

definition torrent_data_get_piece_info :: "torrent_data \<Rightarrow> int \<Rightarrow> status \<times> piece_info option" where
  "torrent_data_get_piece_info td pid =
     (if piece_size td = 0 \<or> data_size td = 0 then (EXIT_FAILURE, None)
      else
        let off = size_t_of (int (piece_size td) * pid)
        in (EXIT_SUCCESS, Some \<lparr>piece_id = pid, info_piece_size = min (piece_size td) (size_sub (data_size td) off),
             piece_offset = off\<rparr>))"

text \<open>\<open>torrent_data_is_piece_complete\<close> tests whole bytes of the \<open>completed\<close> bitfield.\<close>

fun piece_bytes_full :: "bitfield \<Rightarrow> int list \<Rightarrow> int option" where
  "piece_bytes_full c [] = Some 1"
| "piece_bytes_full c (byte_index # is) =
     (if int32_of byte_index \<noteq> byte_index then None
      else if size_t_of byte_index < bytes_count c then
        if byte_index < 0 \<or> length (bytes c) \<le> nat byte_index then None
        else if bytes c ! nat byte_index \<noteq> 0xFF then Some 0
        else piece_bytes_full c is
      else piece_bytes_full c is)"

definition torrent_data_is_piece_complete :: "torrent_data \<Rightarrow> int \<Rightarrow> int option" where
  "torrent_data_is_piece_complete td pid = do {
     info \<leftarrow> snd (torrent_data_get_piece_info td pid);
     (if chunk_size td = 0 then None
      else
        let chunks_per_piece = int32_of (int (piece_size td div chunk_size td));
            uints_per_piece = chunks_per_piece div 8
        in do {
          c \<leftarrow> completed td;
          piece_bytes_full c (map (\<lambda>i. piece_id info * uints_per_piece + i) [0..uints_per_piece - 1])
        })
   }"

definition torrent_data_is_complete :: "torrent_data \<Rightarrow> int" where
  "torrent_data_is_complete td =
     (if piece_count td = 0 then 0 else of_bool (completed_pieces td = piece_count td))"

text \<open>\<open>torrent_data_validate_piece\<close>: \<open>stack\<close> is the uninitialised buffer inside the hash context.\<close>

definition torrent_data_validate_piece ::
  "u8 list \<Rightarrow> torrent_data \<Rightarrow> piece_info \<Rightarrow> u8 list \<Rightarrow> status option" where
  "torrent_data_validate_piece stack td info piece_data =
     (case sha1_hashes td of
        None \<Rightarrow> Some EXIT_SUCCESS
      | Some hashes \<Rightarrow>
          let off = piece_id info * 20 in
          if int32_of off \<noteq> off then None
          else if size_t_of off > size_sub (sha1_hashes_len td) 20 then Some EXIT_FAILURE
          else do {
            hash \<leftarrow> sha1_of stack piece_data (info_piece_size info mod 2 ^ 32);
            r \<leftarrow> strncmp 20 hash (drop (size_t_of off) hashes);
            Some (if r \<noteq> 0 then EXIT_FAILURE else EXIT_SUCCESS)
          })"

subsection \<open>Claims\<close>

text \<open>The scan for the first chunk that nobody has claimed and the peer has.\<close>

fun claim_scan :: "bitfield \<Rightarrow> bitfield \<Rightarrow> nat list \<Rightarrow> nat option option" where
  "claim_scan cl interested [] = Some None"
| "claim_scan cl interested (i # is) = do {
     c \<leftarrow> bitfield_get_bit cl (int i);
     (if c = 0 then do {
        w \<leftarrow> bitfield_get_bit interested (int i);
        (if w = 1 then Some (Some i) else claim_scan cl interested is)
      } else claim_scan cl interested is)
   }"

text \<open>One iteration over \<open>chunk\<close>; \<open>clock chunk\<close> is the clock reading of that iteration.\<close>

definition claim_step ::
  "bool \<Rightarrow> (nat \<Rightarrow> int) \<Rightarrow> bitfield \<Rightarrow> int \<Rightarrow> nat \<Rightarrow> torrent_data \<times> bool \<times> int list \<Rightarrow>
    (torrent_data \<times> bool \<times> int list) option" where
  "claim_step malloc_ok clock interested timeout_seconds chunk = (\<lambda>(td, found_a_chunk, out). do {
     cl \<leftarrow> claimed td;
     hit \<leftarrow> claim_scan cl interested [0..<bit_count cl];
     (case hit of
        None \<Rightarrow> Some (td, found_a_chunk, out)
      | Some i \<Rightarrow> do {
          td' \<leftarrow> (if timeout_seconds \<noteq> 0 then do {
              cl' \<leftarrow> bitfield_set_bit cl (int i) 1;
              (if \<not> malloc_ok \<or> int32_of (timeout_seconds * 1000) \<noteq> timeout_seconds * 1000 then None
               else Some (td\<lparr>claimed := Some cl',
                 claims := \<lparr>deadline = clock chunk + timeout_seconds * 1000, claim_chunk_id = int i\<rparr> # claims td\<rparr>))
            } else Some td);
          (if chunk < length out then Some (td', True, out[chunk := int i]) else None)
        })
   })"

definition torrent_data_claim_chunk ::
  "bool \<Rightarrow> (nat \<Rightarrow> int) \<Rightarrow> torrent_data \<Rightarrow> bitfield \<Rightarrow> int \<Rightarrow> int \<Rightarrow> int list \<Rightarrow>
    (status \<times> torrent_data \<times> int list) option" where
  "torrent_data_claim_chunk malloc_ok clock td interested timeout_seconds num_chunks out =
     (if initialized td = 1 then do {
        _ \<leftarrow> claimed td;
        (td', found, out') \<leftarrow>
          foldM (claim_step malloc_ok clock interested timeout_seconds) [0..<nat num_chunks] (td, False, out);
        Some (if found then EXIT_SUCCESS else EXIT_FAILURE, td', out')
      } else Some (EXIT_FAILURE, td, out))"

text \<open>The release loop reads the clock once per claim; the \<open>k\<close>-th claim sees \<open>clock k\<close>.\<close>

fun release_loop ::
  "(nat \<Rightarrow> int) \<Rightarrow> nat \<Rightarrow> bitfield option \<Rightarrow> torrent_data_claim list \<Rightarrow> bitfield \<Rightarrow>
    (torrent_data_claim list \<times> bitfield) option" where
  "release_loop clock k co [] cl = Some ([], cl)"
| "release_loop clock k co (c # cs) cl =
     (if deadline c < clock k then do {
        com \<leftarrow> co;
        finished \<leftarrow> bitfield_get_bit com (claim_chunk_id c);
        cl' \<leftarrow> (if finished = 0 then bitfield_set_bit cl (claim_chunk_id c) 0 else Some cl);
        release_loop clock (Suc k) co cs cl'
      } else do {
        (cs', cl') \<leftarrow> release_loop clock (Suc k) co cs cl;
        Some (c # cs', cl')
      })"

text \<open>On data that is not initialised the function falls off its end: the returned value is
  indeterminate, written \<open>None\<close> in the first component.\<close>

definition torrent_data_release_expired_claims ::
  "(nat \<Rightarrow> int) \<Rightarrow> torrent_data \<Rightarrow> (status option \<times> torrent_data) option" where
  "torrent_data_release_expired_claims clock td =
     (if initialized td = 1 then do {
        cl \<leftarrow> claimed td;
        (if claims td = [] then Some (Some EXIT_SUCCESS, td)
         else do {
           (cs, cl') \<leftarrow> release_loop clock 0 (completed td) (claims td) cl;
           Some (Some EXIT_SUCCESS, td\<lparr>claims := cs, claimed := Some cl'\<rparr>)
         })
      } else Some (None, td))"

subsection \<open>Files on disk\<close>

text \<open>
  Only the program changes the disk. \<open>disk_env\<close> holds what the system decides: which \<open>mkdir\<close> fails
  for another reason than \<open>EEXIST\<close>, which \<open>fopen\<close> succeeds, and how many of the bytes offered to
  \<open>fwrite\<close> are taken.
\<close>

type_synonym disk = "string \<rightharpoonup> u8 list"

record disk_env =
  mkdir_fails :: "string \<Rightarrow> bool"
  create_ok :: "string \<Rightarrow> bool"
  open_ok :: "string \<Rightarrow> bool"
  accepts :: "string \<Rightarrow> nat \<Rightarrow> nat"

text \<open>\<open>mkpath\<close>: the result and the directories it asked for; the empty path fails the assertion.\<close>

fun mkpath_loop :: "(string \<Rightarrow> bool) \<Rightarrow> string \<Rightarrow> string \<Rightarrow> int \<times> string list" where
  "mkpath_loop fails pre [] = (0, [])"
| "mkpath_loop fails pre (c # cs) =
     (if c = CHR ''/'' then
        if fails pre then (-1, [pre])
        else let (r, ds) = mkpath_loop fails (pre @ [c]) cs in (r, pre # ds)
      else mkpath_loop fails (pre @ [c]) cs)"

definition mkpath :: "(string \<Rightarrow> bool) \<Rightarrow> string \<Rightarrow> (int \<times> string list) option" where
  "mkpath fails path = (case path of [] \<Rightarrow> None | c # cs \<Rightarrow> Some (mkpath_loop fails [c] cs))"

definition fwrite_at :: "u8 list \<Rightarrow> nat \<Rightarrow> u8 list \<Rightarrow> u8 list" where
  "fwrite_at content off bs =
     (if bs = [] then content
      else take off (content @ replicate (off - length content) 0) @ bs @ drop (off + length bs) content)"

text \<open>Opening a file for writing, creating it and its folders first when it is missing. The
  result of \<open>mkpath\<close> is ignored; a failed creation closes a NULL stream, which is undefined.\<close>

definition open_file ::
  "disk_env \<Rightarrow> disk \<Rightarrow> torrent_data_file_info \<Rightarrow> (bool \<times> disk \<times> torrent_data_file_info) option" where
  "open_file env disk f =
     (if fp_open f then Some (True, disk, f)
      else do {
        disk' \<leftarrow> (case disk (file_path f) of
            None \<Rightarrow> do {
              _ \<leftarrow> mkpath (mkdir_fails env) (file_path f);
              (if create_ok env (file_path f) then Some (disk(file_path f \<mapsto> [])) else None)
            }
          | Some _ \<Rightarrow> Some disk);
        Some (if open_ok env (file_path f) then (True, disk', f\<lparr>fp_open := True\<rparr>) else (False, disk', f))
      })"

text \<open>The loop over the files that overlap a finished piece. The result: whether no error was
  thrown, the bytes written, the files with their open streams, and the disk.\<close>

primrec write_files ::
  "disk_env \<Rightarrow> nat \<Rightarrow> nat \<Rightarrow> u8 list \<Rightarrow> torrent_data_file_info list \<Rightarrow> nat \<Rightarrow> disk \<Rightarrow>
    (bool \<times> nat \<times> torrent_data_file_info list \<times> disk) option" where
  "write_files env piece_begin psize piece [] data_written disk = Some (True, data_written, [], disk)"
| "write_files env piece_begin psize piece (f # fs) data_written disk =
     (if data_written = psize then Some (True, data_written, f # fs, disk)
      else
        let piece_end = (piece_begin + psize) mod 2 ^ 64;
            file_begin = file_offset f;
            file_end = (file_begin + file_size f) mod 2 ^ 64
        in if file_end \<ge> piece_begin \<and> file_begin \<le> piece_end then
          let relative_offset = size_sub (piece_begin + data_written) file_begin;
              bytes_to_write = int32_of (int (min (size_sub (file_size f) relative_offset) (size_sub psize data_written)))
          in do {
            (ok, disk, f) \<leftarrow> open_file env disk f;
            (if \<not> ok then Some (False, data_written, f # fs, disk)
             else if relative_offset \<ge> 2 ^ 63 \<or> bytes_to_write < 0
               \<or> data_written + nat bytes_to_write > length piece then None
             else do {
               content \<leftarrow> disk (file_path f);
               let n = nat bytes_to_write;
               let k = min n (accepts env (file_path f) n);
               let disk' = disk(file_path f \<mapsto> fwrite_at content relative_offset (take k (drop data_written piece)));
               (if k \<noteq> n then Some (False, data_written, f\<lparr>fp_open := False\<rparr> # fs, disk')
                else do {
                  (ok, w, fs', disk'') \<leftarrow> write_files env piece_begin psize piece fs (data_written + n) disk';
                  Some (ok, w, f # fs', disk'')
                })
             })
          }
        else do {
          (ok, w, fs', disk') \<leftarrow> write_files env piece_begin psize piece fs data_written disk;
          Some (ok, w, f # fs', disk')
        })"

definition count_chunk :: "chunk_info \<Rightarrow> torrent_data \<Rightarrow> torrent_data" where
  "count_chunk ci td =
     td\<lparr>downloaded := downloaded td + int (info_chunk_size ci), left := left td - int (info_chunk_size ci)\<rparr>"

text \<open>Keeping an unfinished piece: the result of \<open>hashmap_set\<close> is ignored.\<close>

definition keep_piece :: "bool \<Rightarrow> torrent_data \<Rightarrow> string \<Rightarrow> u8 list \<Rightarrow> torrent_data option" where
  "keep_piece item_malloc td key piece = do {
     hm \<leftarrow> pieces td;
     (_, hm') \<leftarrow> hashmap_set item_malloc hm key piece;
     Some (td\<lparr>pieces := Some hm'\<rparr>)
   }"

text \<open>The piece with the new chunk copied in, taken out of the map or allocated afresh.\<close>

definition take_piece ::
  "bool \<Rightarrow> torrent_data \<Rightarrow> string \<Rightarrow> chunk_info \<Rightarrow> piece_info \<Rightarrow> u8 list \<Rightarrow>
    (u8 list \<times> torrent_data) option" where
  "take_piece piece_malloc td key ci pinfo dat = do {
     hm \<leftarrow> pieces td;
     (found, hm') \<leftarrow> hashmap_get hm key;
     piece \<leftarrow> (case found of
         Some p \<Rightarrow> Some p
       | None \<Rightarrow> if piece_malloc then Some (replicate (piece_size td) 0) else None);
     let relative_chunk_offset = int32_of (int (chunk_offset ci) - int (piece_offset pinfo));
     (if relative_chunk_offset < 0 \<or> length dat < info_chunk_size ci then None
      else do {
        piece' \<leftarrow> memcpy_at piece (nat relative_chunk_offset) (take (info_chunk_size ci) dat);
        Some (piece', td\<lparr>pieces := Some hm'\<rparr>)
      })
   }"

definition store_piece ::
  "disk_env \<Rightarrow> torrent_data \<Rightarrow> disk \<Rightarrow> piece_info \<Rightarrow> u8 list \<Rightarrow> (bool \<times> torrent_data \<times> disk) option" where
  "store_piece env td disk pinfo piece = do {
     (ok, data_written, fs, disk') \<leftarrow>
       write_files env (piece_offset pinfo) (info_piece_size pinfo) piece (files td) 0 disk;
     let td1 = td\<lparr>files := fs\<rparr>;
     (if \<not> ok \<or> data_written \<noteq> info_piece_size pinfo then Some (False, td1, disk')
      else
        let td2 = td1\<lparr>completed_pieces := completed_pieces td1 + 1\<rparr>
        in Some (True, if torrent_data_is_complete td2 = 1 then td2\<lparr>needed := 0\<rparr> else td2, disk'))
   }"

definition torrent_data_write_chunk ::
  "disk_env \<Rightarrow> bool \<Rightarrow> bool \<Rightarrow> u8 list \<Rightarrow> torrent_data \<Rightarrow> disk \<Rightarrow> int \<Rightarrow> u8 list \<Rightarrow> nat \<Rightarrow>
    (status \<times> torrent_data \<times> disk) option" where
  "torrent_data_write_chunk env piece_malloc item_malloc stack td disk cid dat dsize = do {
     co \<leftarrow> completed td;
     already \<leftarrow> bitfield_get_bit co cid;
     (if already = 1 then Some (EXIT_FAILURE, td, disk)
      else do {
        (_, ci) \<leftarrow> torrent_data_get_chunk_info td cid;
        ci \<leftarrow> ci;
        pinfo \<leftarrow> snd (torrent_data_get_piece_info td (chunk_piece_id ci));
        (if dsize \<noteq> info_chunk_size ci then Some (EXIT_FAILURE, td, disk)
         else do {
           let key = dec_int (chunk_piece_id ci);
           _ \<leftarrow> (if length key < 10 then Some () else None);
           (piece, td1) \<leftarrow> take_piece piece_malloc td key ci pinfo dat;
           piece_already_completed \<leftarrow> torrent_data_is_piece_complete td1 (piece_id pinfo);
           co' \<leftarrow> bitfield_set_bit co (chunk_id ci) 1;
           let td2 = td1\<lparr>completed := Some co'\<rparr>;
           now_complete \<leftarrow> torrent_data_is_piece_complete td2 (piece_id pinfo);
           (if now_complete = 1 \<and> piece_already_completed = 0 then do {
              v \<leftarrow> torrent_data_validate_piece stack td2 pinfo piece;
              (if v = EXIT_SUCCESS then do {
                 (ok, td3, disk') \<leftarrow> store_piece env td2 disk pinfo piece;
                 (if ok then Some (EXIT_SUCCESS, count_chunk ci td3, disk')
                  else Some (EXIT_FAILURE, td3, disk'))
               } else do {
                 td3 \<leftarrow> keep_piece item_malloc td2 key piece;
                 Some (EXIT_FAILURE, count_chunk ci td3, disk)
               })
            } else do {
              td3 \<leftarrow> keep_piece item_malloc td2 key piece;
              Some (EXIT_FAILURE, count_chunk ci td3, disk)
            })
         })
      })
   }"

text \<open>Reading a piece back from the files: whether no error was thrown, and the bytes.\<close>

primrec read_files ::
  "disk_env \<Rightarrow> nat \<Rightarrow> nat \<Rightarrow> torrent_data_file_info list \<Rightarrow> disk \<Rightarrow> u8 list \<Rightarrow> (bool \<times> u8 list) option" where
  "read_files env piece_begin psize [] disk buf = Some (True, buf)"
| "read_files env piece_begin psize (f # fs) disk buf =
     (if length buf = psize then Some (True, buf)
      else
        let piece_end = (piece_begin + psize) mod 2 ^ 64;
            file_begin = file_offset f;
            file_end = (file_begin + file_size f) mod 2 ^ 64
        in if file_end \<ge> piece_begin \<and> file_begin \<le> piece_end then
          let relative_offset = size_sub (piece_begin + length buf) file_begin;
              bytes_to_read = int32_of (int (min (size_sub (file_size f) relative_offset) (size_sub psize (length buf))))
          in case disk (file_path f) of
               None \<Rightarrow> Some (False, buf)
             | Some content \<Rightarrow>
                 if \<not> open_ok env (file_path f) then Some (False, buf)
                 else if relative_offset \<ge> 2 ^ 63 \<or> bytes_to_read < 0 then None
                 else let got = take (nat bytes_to_read) (drop relative_offset content)
                   in if length got \<noteq> nat bytes_to_read then Some (False, buf @ got)
                      else read_files env piece_begin psize fs disk (buf @ got)
        else read_files env piece_begin psize fs disk buf)"

text \<open>\<open>torrent_data_read_data\<close>: \<open>out\<close> is what has been copied to the caller. The offset is the same in
  every iteration. \<open>None\<close> also stands for a loop that has not ended within \<open>fuel\<close> iterations.\<close>

primrec read_data_loop ::
  "nat \<Rightarrow> disk_env \<Rightarrow> torrent_data \<Rightarrow> disk \<Rightarrow> nat \<Rightarrow> nat \<Rightarrow> u8 list \<Rightarrow> (status \<times> u8 list) option" where
  "read_data_loop 0 env td disk off len out = (if length out < len then None else Some (EXIT_SUCCESS, out))"
| "read_data_loop (Suc fuel) env td disk off len out =
     (if length out < len then
        if piece_size td = 0 then None
        else do {
          pinfo \<leftarrow> snd (torrent_data_get_piece_info td (int32_of (int (off div piece_size td))));
          let psize = info_piece_size pinfo;
          (ok, buf) \<leftarrow> read_files env (piece_offset pinfo) psize (files td) disk [];
          (if \<not> ok \<or> length buf \<noteq> psize then Some (EXIT_FAILURE, out)
           else
             let relative_offset = int32_of (int off - int (piece_offset pinfo));
                 bytes_to_read = int32_of (int (min (size_t_of (int psize - relative_offset)) (size_sub len (length out))))
             in if relative_offset < 0 \<or> bytes_to_read < 0 \<or> nat relative_offset + nat bytes_to_read > psize + 1 then None
                else read_data_loop fuel env td disk off len
                  (out @ take (nat bytes_to_read) (drop (nat relative_offset) (buf @ [0]))))
        }
      else Some (EXIT_SUCCESS, out))"

definition torrent_data_read_data ::
  "nat \<Rightarrow> disk_env \<Rightarrow> torrent_data \<Rightarrow> disk \<Rightarrow> nat \<Rightarrow> nat \<Rightarrow> (status \<times> u8 list) option" where
  "torrent_data_read_data fuel env td disk off len = read_data_loop fuel env td disk off len []"

text \<open>\<open>torrent_data_free\<close>: NULL, and the piece buffers it frees.\<close>

definition torrent_data_free :: "torrent_data option \<Rightarrow> torrent_data option \<times> u8 list list" where
  "torrent_data_free td =
     (case td of
        None \<Rightarrow> (None, [])
      | Some td \<Rightarrow> (None, case pieces td of None \<Rightarrow> [] | Some hm \<Rightarrow> fst (hashmap_drain hm)))"
subsection \<open>The invariant\<close>

text \<open>
  \<open>td_ok\<close>: the data is initialised, its two bitfields cover the same chunks, the piece map is well
  formed, and the claims are exactly the promises behind the \<open>claimed\<close> bits: every claim is on a
  claimed chunk, no chunk has two claims, and a claimed chunk that is not completed has one.
\<close>

definition claims_ok :: "bitfield \<Rightarrow> bitfield \<Rightarrow> torrent_data_claim list \<Rightarrow> bool" where
  "claims_ok cl co cs \<longleftrightarrow> distinct (map claim_chunk_id cs)
     \<and> (\<forall>c \<in> set cs. \<exists>i < bit_count cl. claim_chunk_id c = int i \<and> bf_bit cl i)
     \<and> (\<forall>i < bit_count cl. bf_bit cl i \<longrightarrow> bf_bit co i \<or> int i \<in> claim_chunk_id ` set cs)"

definition td_ok :: "torrent_data \<Rightarrow> bool" where
  "td_ok td \<longleftrightarrow> initialized td = 1 \<and> (\<exists>cl co hm. claimed td = Some cl \<and> completed td = Some co
     \<and> pieces td = Some hm \<and> bf_wf cl \<and> bf_wf co \<and> bit_count co = bit_count cl \<and> hm_wf hm
     \<and> claims_ok cl co (claims td))"

text \<open>The two vectors, as functions of the state.\<close>

definition is_claimed :: "torrent_data \<Rightarrow> nat \<Rightarrow> bool" where
  "is_claimed td i = (case claimed td of Some cl \<Rightarrow> bf_bit cl i | None \<Rightarrow> False)"

definition is_completed :: "torrent_data \<Rightarrow> nat \<Rightarrow> bool" where
  "is_completed td i = (case completed td of Some co \<Rightarrow> bf_bit co i | None \<Rightarrow> False)"

definition chunk_total :: "torrent_data \<Rightarrow> nat" where
  "chunk_total td = (case claimed td of Some cl \<Rightarrow> bit_count cl | None \<Rightarrow> 0)"

lemma td_okE:
  assumes "td_ok td"
  obtains cl co hm where "initialized td = 1" "claimed td = Some cl" "completed td = Some co" "pieces td = Some hm"
    "bf_wf cl" "bf_wf co" "bit_count co = bit_count cl" "hm_wf hm" "claims_ok cl co (claims td)"
  using assms by (auto simp: td_ok_def)

subsection \<open>Claiming\<close>

lemma find_filter: "find P xs = (case filter P xs of [] \<Rightarrow> None | a # _ \<Rightarrow> Some a)"
  by (induction xs) auto

lemma filter_minus_prefix:
  assumes "distinct xs"
  shows "filter (\<lambda>x. Q x \<and> x \<notin> set (take k (filter Q xs))) xs = drop k (filter Q xs)"
proof -
  let ?ys = "filter Q xs"
  have "distinct ?ys" using assms by simp
  then have d: "set (take k ?ys) \<inter> set (drop k ?ys) = {}" by (rule set_take_disj_set_drop_if_distinct) simp
  have "filter (\<lambda>x. Q x \<and> x \<notin> set (take k ?ys)) xs = filter (\<lambda>x. x \<notin> set (take k ?ys)) ?ys"
    by (simp add: conj_commute)
  also have "\<dots> = filter (\<lambda>x. x \<notin> set (take k ?ys)) (take k ?ys @ drop k ?ys)" by simp
  also have "\<dots> = drop k ?ys" using d by (simp only: filter_append) (auto intro!: filter_True)
  finally show ?thesis .
qed

lemma claim_scan_run:
  assumes "bf_wf cl" "bf_wf w" "\<forall>i \<in> set is. i < bit_count cl \<and> i < bit_count w"
  shows "claim_scan cl w is = Some (find (\<lambda>i. \<not> bf_bit cl i \<and> bf_bit w i) is)"
  using assms(3)
proof (induction "is")
  case (Cons i "is")
  then have "bitfield_get_bit cl (int i) = Some (of_bool (bf_bit cl i))"
    "bitfield_get_bit w (int i) = Some (of_bool (bf_bit w i))"
    using bf.get_in [OF assms(1)] bf.get_in [OF assms(2)] by simp_all
  with Cons show ?case by simp
qed simp

text \<open>The chunks a peer can be given, and the claims that record them.\<close>

definition available :: "torrent_data \<Rightarrow> bitfield \<Rightarrow> nat list" where
  "available td w = filter (\<lambda>i. \<not> is_claimed td i \<and> bf_bit w i) [0..<chunk_total td]"

definition new_claims :: "(nat \<Rightarrow> int) \<Rightarrow> int \<Rightarrow> nat list \<Rightarrow> torrent_data_claim list" where
  "new_claims clock timeout ids =
     rev (map (\<lambda>k. \<lparr>deadline = clock k + timeout * 1000, claim_chunk_id = int (ids ! k)\<rparr>) [0..<length ids])"

lemma new_claims_Suc:
  "k < length ids \<Longrightarrow> new_claims clock timeout (take (Suc k) ids) =
     \<lparr>deadline = clock k + timeout * 1000, claim_chunk_id = int (ids ! k)\<rparr> # new_claims clock timeout (take k ids)"
proof -
  assume k: "k < length ids"
  then have "length (take (Suc k) ids) = Suc k" "length (take k ids) = k" by simp_all
  with k show ?thesis by (simp add: new_claims_def)
qed

lemma new_claims_ids: "map claim_chunk_id (new_claims clock timeout ids) = rev (map int ids)"
proof -
  have "map (\<lambda>k. int (ids ! k)) [0..<length ids] = map int ids" by (rule nth_equalityI) simp_all
  then show ?thesis by (simp add: new_claims_def rev_map [symmetric] comp_def)
qed

definition claim_result ::
  "(nat \<Rightarrow> int) \<Rightarrow> int \<Rightarrow> torrent_data \<Rightarrow> nat list \<Rightarrow> int list \<Rightarrow> torrent_data \<times> bool \<times> int list \<Rightarrow> bool" where
  "claim_result clock timeout td ids out r \<longleftrightarrow> (case r of (td', found, out') \<Rightarrow>
     (\<exists>cl'. claimed td' = Some cl' \<and> bf_wf cl' \<and> bit_count cl' = chunk_total td
        \<and> bf_bit cl' = (\<lambda>i. is_claimed td i \<or> i \<in> set ids)
        \<and> td' = td\<lparr>claimed := Some cl', claims := new_claims clock timeout ids @ claims td\<rparr>)
     \<and> found = (ids \<noteq> []) \<and> out' = map int ids @ drop (length ids) out)"

lemma claim_step_run:
  assumes td: "td_ok td" and w: "bf_wf w" "chunk_total td \<le> bit_count w"
    and t: "timeout \<noteq> 0" "int32_of (timeout * 1000) = timeout * 1000"
    and k: "k < length out"
    and r: "claim_result clock timeout td (take k (available td w)) out r"
  shows "\<exists>r'. claim_step True clock w timeout k r = Some r'
    \<and> claim_result clock timeout td (take (Suc k) (available td w)) out r'"
proof -
  let ?av = "available td w" and ?n = "chunk_total td"
  obtain td' found out' where r': "r = (td', found, out')" by (cases r)
  with r obtain cl where cl: "claimed td' = Some cl" "bf_wf cl" "bit_count cl = ?n"
    "bf_bit cl = (\<lambda>i. is_claimed td i \<or> i \<in> set (take k ?av))"
    "td' = td\<lparr>claimed := Some cl, claims := new_claims clock timeout (take k ?av) @ claims td\<rparr>"
    "found = (take k ?av \<noteq> [])" "out' = map int (take k ?av) @ drop (length (take k ?av)) out"
    by (auto simp: claim_result_def)
  have "filter (\<lambda>i. \<not> bf_bit cl i \<and> bf_bit w i) [0..<?n] = drop k ?av"
    using filter_minus_prefix [of "[0..<?n]" "\<lambda>i. \<not> is_claimed td i \<and> bf_bit w i" k]
    unfolding available_def [symmetric] cl(4) by (simp add: conj_ac)
  then have scan: "claim_scan cl w [0..<bit_count cl] = Some (case drop k ?av of [] \<Rightarrow> None | a # _ \<Rightarrow> Some a)"
    using claim_scan_run [OF cl(2) w(1), of "[0..<?n]"] w(2) cl(3) by (simp add: find_filter)
  show ?thesis
  proof (cases "k < length ?av")
    case False
    with scan r r' cl(1) show ?thesis by (simp add: claim_step_def)
  next
    case True
    then have d: "drop k ?av = ?av ! k # drop (Suc k) ?av" by (simp add: Cons_nth_drop_Suc)
    have "?av ! k \<in> set ?av" using True by simp
    then have lt: "?av ! k < bit_count cl" using cl(3) by (simp add: available_def)
    obtain cl' where cl': "bitfield_set_bit cl (int (?av ! k)) 1 = Some cl'" "bf_wf cl'" "bit_count cl' = bit_count cl"
      "bf_bit cl' = bf_put 1 (?av ! k) (bf_bit cl)"
      using bf.set_in [OF cl(2) lt] by blast
    have bits: "bf_bit cl' = (\<lambda>i. is_claimed td i \<or> i \<in> set (take (Suc k) ?av))"
      unfolding cl'(4) cl(4) using True by (auto simp: bf_put_def take_Suc_conv_app_nth fun_eq_iff)
    have out: "out'[k := int (?av ! k)] = map int (take (Suc k) ?av) @ drop (length (take (Suc k) ?av)) out"
      using True k unfolding cl(7)
      by (simp add: take_Suc_conv_app_nth min_def list_update_append Cons_nth_drop_Suc [of k out, symmetric] split: nat.split)
    have "?av \<noteq> []" using True by auto
    then show ?thesis
      unfolding claim_step_def r' using cl(1) scan d cl' t k out bits cl(5,3,7) True
      by (simp add: claim_result_def new_claims_Suc)
  qed
qed

lemma claim_chunk_run:
  assumes td: "td_ok td" and w: "bf_wf w" "chunk_total td \<le> bit_count w"
    and t: "timeout \<noteq> 0" "int32_of (timeout * 1000) = timeout * 1000"
    and n: "n \<le> length out"
  defines "ids \<equiv> take n (available td w)"
  shows "\<exists>td'. torrent_data_claim_chunk True clock td w timeout (int n) out =
      Some (if ids = [] then EXIT_FAILURE else EXIT_SUCCESS, td', map int ids @ drop (length ids) out)
    \<and> claim_result clock timeout td ids out (td', ids \<noteq> [], map int ids @ drop (length ids) out)"
proof -
  obtain cl where cl: "initialized td = 1" "claimed td = Some cl" "bf_wf cl" using td by (rule td_okE)
  have "claim_result clock timeout td (take 0 (available td w)) out (td, False, out)"
    using cl by (simp add: claim_result_def new_claims_def is_claimed_def chunk_total_def fun_eq_iff)
  then have "\<exists>r. foldM (claim_step True clock w timeout) [0..<n] (td, False, out) = Some r
      \<and> claim_result clock timeout td (take n (available td w)) out r"
    by (rule foldM_upt_rule) (use claim_step_run [OF td w t] n in auto)
  then obtain td' found out' where r: "foldM (claim_step True clock w timeout) [0..<n] (td, False, out) = Some (td', found, out')"
      "claim_result clock timeout td ids out (td', found, out')"
    unfolding ids_def by (metis prod_cases3)
  from r(2) have "found = (ids \<noteq> [])" "out' = map int ids @ drop (length ids) out"
    by (auto simp: claim_result_def)
  with r cl show ?thesis by (simp add: torrent_data_claim_chunk_def)
qed

lemma available_props:
  "distinct (available td w)" "i \<in> set (available td w) \<longleftrightarrow> i < chunk_total td \<and> \<not> is_claimed td i \<and> bf_bit w i"
  by (auto simp: available_def)

lemma claim_result_ok:
  assumes "td_ok td" "claim_result clock timeout td (take n (available td w)) out (td', found, out')"
  shows "td_ok td'"
proof -
  let ?ids = "take n (available td w)"
  from assms(1) obtain cl co hm where td: "initialized td = 1" "claimed td = Some cl" "completed td = Some co"
    "pieces td = Some hm" "bf_wf cl" "bf_wf co" "bit_count co = bit_count cl" "hm_wf hm" "claims_ok cl co (claims td)"
    by (rule td_okE)
  from assms(2) obtain cl' where cl': "bf_wf cl'" "bit_count cl' = chunk_total td"
    "bf_bit cl' = (\<lambda>i. is_claimed td i \<or> i \<in> set ?ids)"
    "td' = td\<lparr>claimed := Some cl', claims := new_claims clock timeout ?ids @ claims td\<rparr>"
    by (auto simp: claim_result_def)
  have ids: "distinct ?ids" "\<And>i. i \<in> set ?ids \<Longrightarrow> i < bit_count cl \<and> \<not> bf_bit cl i"
    using available_props td(2) by (auto simp: chunk_total_def is_claimed_def dest: in_set_takeD)
  note nc = new_claims_ids [of clock timeout ?ids]
  then have set_nc: "claim_chunk_id ` set (new_claims clock timeout ?ids) = int ` set ?ids"
    by (metis list.set_map set_rev)
  have fresh: "int ` set ?ids \<inter> claim_chunk_id ` set (claims td) = {}"
    using ids(2) td(9) by (fastforce simp: claims_ok_def)
  have bits: "bf_bit cl' i \<longleftrightarrow> bf_bit cl i \<or> i \<in> set ?ids" for i using cl'(3) td(2) by (simp add: is_claimed_def)
  have "claims_ok cl' co (new_claims clock timeout ?ids @ claims td)"
    unfolding claims_ok_def
  proof (intro conjI)
    show "distinct (map claim_chunk_id (new_claims clock timeout ?ids @ claims td))"
      using nc set_nc ids(1) fresh td(9) by (simp add: claims_ok_def distinct_map inj_on_def)
    show "\<forall>c \<in> set (new_claims clock timeout ?ids @ claims td). \<exists>i < bit_count cl'. claim_chunk_id c = int i \<and> bf_bit cl' i"
    proof
      fix c assume "c \<in> set (new_claims clock timeout ?ids @ claims td)"
      then consider "claim_chunk_id c \<in> int ` set ?ids" | "c \<in> set (claims td)" using set_nc by auto
      then show "\<exists>i < bit_count cl'. claim_chunk_id c = int i \<and> bf_bit cl' i"
        using ids(2) td(2,9) cl'(2) bits by cases (auto simp: claims_ok_def chunk_total_def)
    qed
    show "\<forall>i < bit_count cl'. bf_bit cl' i \<longrightarrow> bf_bit co i \<or> int i \<in> claim_chunk_id ` set (new_claims clock timeout ?ids @ claims td)"
      using td(2,9) cl'(2) bits set_nc by (auto simp: claims_ok_def chunk_total_def image_Un)
  qed
  with td cl' show ?thesis by (simp add: td_ok_def chunk_total_def)
qed

subsection \<open>Releasing\<close>

definition kept_claims :: "(nat \<Rightarrow> int) \<Rightarrow> nat \<Rightarrow> torrent_data_claim list \<Rightarrow> torrent_data_claim list" where
  "kept_claims clock k cs = map snd (filter (\<lambda>(j, c). \<not> deadline c < clock j) (enumerate k cs))"

definition expired_claims :: "(nat \<Rightarrow> int) \<Rightarrow> nat \<Rightarrow> torrent_data_claim list \<Rightarrow> torrent_data_claim list" where
  "expired_claims clock k cs = map snd (filter (\<lambda>(j, c). deadline c < clock j) (enumerate k cs))"

lemma kept_expired_simps [simp]:
  "kept_claims clock k [] = []" "expired_claims clock k [] = []"
  "kept_claims clock k (c # cs) = (if deadline c < clock k then [] else [c]) @ kept_claims clock (Suc k) cs"
  "expired_claims clock k (c # cs) = (if deadline c < clock k then [c] else []) @ expired_claims clock (Suc k) cs"
  by (simp_all add: kept_claims_def expired_claims_def)

lemma kept_expired_mset: "mset (kept_claims clock k cs) + mset (expired_claims clock k cs) = mset cs"
  by (induction cs arbitrary: k) auto

lemma kept_expired_set: "set (kept_claims clock k cs) \<union> set (expired_claims clock k cs) = set cs"
  by (metis kept_expired_mset set_mset_mset set_mset_union)

lemma kept_expired_distinct:
  assumes "distinct (map claim_chunk_id cs)"
  shows "distinct (map claim_chunk_id (kept_claims clock k cs))"
    and "claim_chunk_id ` set (kept_claims clock k cs) \<inter> claim_chunk_id ` set (expired_claims clock k cs) = {}"
proof -
  let ?K = "kept_claims clock k cs" and ?E = "expired_claims clock k cs"
  have "mset (map claim_chunk_id (?K @ ?E)) = mset (map claim_chunk_id cs)"
    using kept_expired_mset [of clock k cs] by (metis mset_append mset_map)
  then have "distinct (map claim_chunk_id (?K @ ?E))" using assms by (metis mset_eq_imp_distinct_iff)
  then show "distinct (map claim_chunk_id ?K)" "claim_chunk_id ` set ?K \<inter> claim_chunk_id ` set ?E = {}"
    by auto
qed

lemma release_loop_run:
  assumes "bf_wf cl" "bf_wf co" "bit_count co = bit_count cl"
    and "\<forall>c \<in> set cs. \<exists>i < bit_count cl. claim_chunk_id c = int i"
  shows "\<exists>cl'. release_loop clock k (Some co) cs cl = Some (kept_claims clock k cs, cl') \<and> bf_wf cl'
    \<and> bit_count cl' = bit_count cl
    \<and> bf_bit cl' = (\<lambda>i. bf_bit cl i \<and> (bf_bit co i \<or> int i \<notin> claim_chunk_id ` set (expired_claims clock k cs)))"
  using assms
proof (induction cs arbitrary: k cl)
  case Nil
  then show ?case by simp
next
  case (Cons c cs)
  obtain i where i: "i < bit_count cl" "claim_chunk_id c = int i" using Cons.prems(4) by auto
  show ?case
  proof (cases "deadline c < clock k")
    case False
    with Cons.IH [OF Cons.prems(1,2,3), of "Suc k"] Cons.prems(4) show ?thesis by auto
  next
    case True
    have get: "bitfield_get_bit co (claim_chunk_id c) = Some (of_bool (bf_bit co i))"
      using bf.get_in [OF Cons.prems(2), of i] i Cons.prems(3) by simp
    obtain cl1 where cl1: "(if bf_bit co i then Some cl else bitfield_set_bit cl (int i) 0) = Some cl1"
      "bf_wf cl1" "bit_count cl1 = bit_count cl"
      "bf_bit cl1 = (\<lambda>j. bf_bit cl j \<and> (bf_bit co j \<or> j \<noteq> i))"
    proof (cases "bf_bit co i")
      case True
      with Cons.prems(1) show ?thesis by (intro that [of cl]) auto
    next
      case False
      obtain b' where "bitfield_set_bit cl (int i) 0 = Some b'" "bf_wf b'" "bit_count b' = bit_count cl"
        "bf_bit b' = bf_put 0 i (bf_bit cl)"
        using bf.set_in [OF Cons.prems(1) i(1), of 0] by blast
      with False show ?thesis by (intro that [of b']) (auto simp: bf_put_def fun_eq_iff)
    qed
    obtain cl' where cl': "release_loop clock (Suc k) (Some co) cs cl1 = Some (kept_claims clock (Suc k) cs, cl')"
      "bf_wf cl'" "bit_count cl' = bit_count cl"
      "bf_bit cl' = (\<lambda>i. bf_bit cl1 i \<and> (bf_bit co i \<or> int i \<notin> claim_chunk_id ` set (expired_claims clock (Suc k) cs)))"
      using Cons.IH [of cl1 "Suc k"] Cons.prems cl1(2,3) by auto
    have "release_loop clock k (Some co) (c # cs) cl = release_loop clock (Suc k) (Some co) cs cl1"
      using True get cl1(1) i(2) by (cases "bf_bit co i") auto
    with cl' cl1(4) True i(2) show ?thesis by (auto simp: fun_eq_iff)
  qed
qed

lemma release_claims_ok:
  assumes "claims_ok cl co cs" "bit_count cl' = bit_count cl"
    and "bf_bit cl' = (\<lambda>i. bf_bit cl i \<and> (bf_bit co i \<or> int i \<notin> claim_chunk_id ` set (expired_claims clock k cs)))"
  shows "claims_ok cl' co (kept_claims clock k cs)"
proof -
  have d: "distinct (map claim_chunk_id cs)" using assms(1) by (simp add: claims_ok_def)
  note ke = kept_expired_distinct [OF d, of clock k] kept_expired_set [of clock k cs]
  show ?thesis
    unfolding claims_ok_def
  proof (intro conjI ballI allI impI)
    show "distinct (map claim_chunk_id (kept_claims clock k cs))" by (rule ke(1))
    fix c assume c: "c \<in> set (kept_claims clock k cs)"
    then have "c \<in> set cs" using ke(3) by blast
    then obtain i where "i < bit_count cl" "claim_chunk_id c = int i" "bf_bit cl i"
      using assms(1) by (auto simp: claims_ok_def)
    with c ke(2) assms(2,3) show "\<exists>i < bit_count cl'. claim_chunk_id c = int i \<and> bf_bit cl' i" by force
  next
    fix i assume "i < bit_count cl'" "bf_bit cl' i"
    with assms have "bf_bit co i \<or> int i \<in> claim_chunk_id ` set cs" "bf_bit co i \<or> int i \<notin> claim_chunk_id ` set (expired_claims clock k cs)"
      by (auto simp: claims_ok_def)
    with ke(3) show "bf_bit co i \<or> int i \<in> claim_chunk_id ` set (kept_claims clock k cs)" by (metis UnE image_Un)
  qed
qed

lemma release_run:
  assumes "td_ok td"
  shows "\<exists>cl'. torrent_data_release_expired_claims clock td
      = Some (Some EXIT_SUCCESS, td\<lparr>claims := kept_claims clock 0 (claims td), claimed := Some cl'\<rparr>)
    \<and> td_ok (td\<lparr>claims := kept_claims clock 0 (claims td), claimed := Some cl'\<rparr>)
    \<and> bit_count cl' = chunk_total td
    \<and> bf_bit cl' = (\<lambda>i. is_claimed td i \<and> (is_completed td i \<or> int i \<notin> claim_chunk_id ` set (expired_claims clock 0 (claims td))))"
proof -
  from assms obtain cl co hm where td: "initialized td = 1" "claimed td = Some cl" "completed td = Some co"
    "pieces td = Some hm" "bf_wf cl" "bf_wf co" "bit_count co = bit_count cl" "hm_wf hm" "claims_ok cl co (claims td)"
    by (rule td_okE)
  have "\<forall>c \<in> set (claims td). \<exists>i < bit_count cl. claim_chunk_id c = int i" using td(9) by (auto simp: claims_ok_def)
  from release_loop_run [OF td(5,6,7) this, of clock 0] obtain cl' where
    cl': "release_loop clock 0 (Some co) (claims td) cl = Some (kept_claims clock 0 (claims td), cl')" "bf_wf cl'"
      "bit_count cl' = bit_count cl"
      "bf_bit cl' = (\<lambda>i. bf_bit cl i \<and> (bf_bit co i \<or> int i \<notin> claim_chunk_id ` set (expired_claims clock 0 (claims td))))"
    by blast
  have "torrent_data_release_expired_claims clock td
      = Some (Some EXIT_SUCCESS, td\<lparr>claims := kept_claims clock 0 (claims td), claimed := Some cl'\<rparr>)"
    using td(1,2,3) cl'(1) by (auto simp: torrent_data_release_expired_claims_def)
  moreover have "td_ok (td\<lparr>claims := kept_claims clock 0 (claims td), claimed := Some cl'\<rparr>)"
    using td cl' release_claims_ok [OF td(9) cl'(3,4)] by (simp add: td_ok_def)
  ultimately show ?thesis
    using cl' td(2,3) by (auto simp: is_claimed_def is_completed_def chunk_total_def fun_eq_iff)
qed

subsection \<open>Properties\<close>

text \<open>What a claim hands out: with a timeout the first available chunks, as many as asked for; with the timeout 0,
  which the metadata extension passes, the first available chunk in every place of the answer.\<close>

definition handed_out :: "int \<Rightarrow> nat \<Rightarrow> nat list \<Rightarrow> nat list" where
  "handed_out timeout n av = (if timeout \<noteq> 0 then take n av else case av of [] \<Rightarrow> [] | a # _ \<Rightarrow> replicate n a)"

lemma claim_untimed_run:
  assumes td: "td_ok td" and w: "bf_wf w" "chunk_total td \<le> bit_count w" and n: "n \<le> length out"
  defines "ids \<equiv> handed_out 0 n (available td w)"
  shows "torrent_data_claim_chunk ok clock td w 0 (int n) out =
    Some (if ids = [] then EXIT_FAILURE else EXIT_SUCCESS, td, map int ids @ drop (length ids) out)"
proof -
  let ?av = "available td w"
  obtain cl where cl: "initialized td = 1" "claimed td = Some cl" "bf_wf cl" using td by (rule td_okE)
  have scan: "claim_scan cl w [0..<bit_count cl] = Some (case ?av of [] \<Rightarrow> None | a # _ \<Rightarrow> Some a)"
    using claim_scan_run [OF cl(3) w(1), of "[0..<bit_count cl]"] w(2) cl(2)
    by (simp add: find_filter available_def chunk_total_def is_claimed_def)
  define after where "after k = (let h = handed_out 0 k ?av in (td, h \<noteq> [], map int h @ drop (length h) out))" for k
  have step: "claim_step ok clock w 0 k (after k) = Some (after (Suc k))" if "k < n" for k
  proof (cases ?av)
    case (Cons a as)
    have "k < length out" using that n by simp
    then have "(replicate k (int a) @ drop k out)[k := int a] = replicate (Suc k) (int a) @ drop (Suc k) out"
      by (simp add: list_update_append Cons_nth_drop_Suc [symmetric] replicate_append_same [symmetric])
    with Cons cl scan \<open>k < length out\<close> show ?thesis by (simp add: claim_step_def after_def handed_out_def Let_def)
  qed (use cl scan in \<open>simp add: claim_step_def after_def handed_out_def Let_def\<close>)
  have "(td, False, out) = after 0" by (simp add: after_def handed_out_def Let_def split: list.split)
  then have "\<exists>r. foldM (claim_step ok clock w 0) [0..<n] (td, False, out) = Some r \<and> r = after n"
    by (rule foldM_upt_rule) (use step in auto)
  then show ?thesis using cl by (auto simp: torrent_data_claim_chunk_def after_def ids_def Let_def)
qed

text \<open>
  C22: what \<open>torrent_data_claim_chunk\<close> does on initialised data, for a bitfield of interests that covers the chunks, a
  timeout whose milliseconds fit an \<open>int\<close>, room for the answer and memory for the claims. The answer is
  \<open>handed_out\<close>, at the front of the output array, and the call succeeds iff it is not empty. With a timeout these are
  the first chunks that nobody has claimed and the peer has, in order; exactly their \<open>claimed\<close> bits are set and one claim
  with its deadline is recorded for each. With the timeout 0 no bit is set and no claim recorded, so that
  the first such chunk fills the whole answer and is handed out again by the next call. The
  invariant is kept and no access leaves a bitfield or the array.
\<close>

theorem claim_chunk_spec:
  assumes "td_ok td" "bf_wf w" "chunk_total td \<le> bit_count w"
    and "int32_of (timeout * 1000) = timeout * 1000" "n \<le> length out"
    and ids: "ids = handed_out timeout n (available td w)"
  shows "\<exists>td'. torrent_data_claim_chunk True clock td w timeout (int n) out =
      Some (if ids = [] then EXIT_FAILURE else EXIT_SUCCESS, td', map int ids @ drop (length ids) out)
    \<and> td_ok td' \<and> is_completed td' = is_completed td
    \<and> (timeout \<noteq> 0 \<longrightarrow> ids = take n (available td w) \<and> claims td' = new_claims clock timeout ids @ claims td
         \<and> is_claimed td' = (\<lambda>i. is_claimed td i \<or> i \<in> set ids))
    \<and> (timeout = 0 \<longrightarrow> td' = td)"
proof (cases "timeout = 0")
  case True
  with claim_untimed_run [OF assms(1-3,5), of True clock] ids assms(1) show ?thesis by auto
next
  case False
  with ids have i: "ids = take n (available td w)" by (simp add: handed_out_def)
  obtain td' where td': "torrent_data_claim_chunk True clock td w timeout (int n) out =
      Some (if ids = [] then EXIT_FAILURE else EXIT_SUCCESS, td', map int ids @ drop (length ids) out)"
    "claim_result clock timeout td ids out (td', ids \<noteq> [], map int ids @ drop (length ids) out)"
    unfolding i using claim_chunk_run [OF assms(1-3) False assms(4,5)] by blast
  moreover have "td_ok td'" using assms(1) td'(2) unfolding i by (rule claim_result_ok)
  moreover have "claims td' = new_claims clock timeout ids @ claims td" "is_claimed td' = (\<lambda>i. is_claimed td i \<or> i \<in> set ids)"
    "is_completed td' = is_completed td"
    using td'(2) by (auto simp: claim_result_def is_claimed_def is_completed_def fun_eq_iff)
  ultimately show ?thesis using False i by blast
qed

text \<open>A small instance: four chunks, the second one claimed until time 50.\<close>

definition demo_bits :: "u8 \<Rightarrow> bitfield" where
  "demo_bits b = \<lparr>bit_count = 4, bytes_count = 1, bytes = [b]\<rparr>"

definition demo_td :: torrent_data where
  "demo_td = \<lparr>needed = 1, initialized = 1, claims = [\<lparr>deadline = 50, claim_chunk_id = 1\<rparr>],
     claimed = Some (demo_bits 0x4F), completed = Some (demo_bits 0x0F), root_path = ''/d/'',
     files = [], files_size = 0, piece_size = 32, chunk_size = 4, data_size = 14,
     piece_count = 1, completed_pieces = 0, chunk_count = 4, downloaded = 0, left = 14, uploaded = 0,
     pieces = hashmap_new True 1, sha1_hashes = None, sha1_hashes_len = 0\<rparr>"

lemma demo_bits_wf [simp]: "bf_wf (demo_bits b)" "bit_count (demo_bits b) = 4"
  by (simp_all add: demo_bits_def bf_wf_def)

lemma demo_bit_values:
  "bf_bit (demo_bits 0x4F) i = (i = 1)" "bf_bit (demo_bits 0x0F) i = False" "bf_bit (demo_bits 0xF0) i = True" if "i < 4"
proof -
  have c: "i = 0 \<or> i = 1 \<or> i = 2 \<or> i = 3" using that by linarith
  have "bit (0x4F :: u8) 7 = False" "bit (0x4F :: u8) 6 = True" "bit (0x4F :: u8) 5 = False" "bit (0x4F :: u8) 4 = False"
    "bit (0x0F :: u8) 7 = False" "bit (0x0F :: u8) 6 = False" "bit (0x0F :: u8) 5 = False" "bit (0x0F :: u8) 4 = False"
    "bit (0xF0 :: u8) 7 = True" "bit (0xF0 :: u8) 6 = True" "bit (0xF0 :: u8) 5 = True" "bit (0xF0 :: u8) 4 = True"
    by (simp_all add: bit_numeral_word_iff)
  with c show "bf_bit (demo_bits 0x4F) i = (i = 1)" "bf_bit (demo_bits 0x0F) i = False" "bf_bit (demo_bits 0xF0) i = True"
    by (auto simp: bf_bit_def demo_bits_def)
qed

lemma demo_td_simps [simp]:
  "chunk_total demo_td = 4" "claims demo_td = [\<lparr>deadline = 50, claim_chunk_id = 1\<rparr>]"
  by (simp_all add: chunk_total_def demo_td_def)

lemma demo_td_ok: "td_ok demo_td"
proof -
  have "hm_wf (\<lparr>max_buckets = 1, buckets = [[]]\<rparr> :: u8 list hash_map)" by (simp add: hm_wf_def)
  then show ?thesis
    by (auto simp: td_ok_def demo_td_def claims_ok_def demo_bit_values hashmap_new_def)
qed

lemma demo_td_available: "available demo_td (demo_bits 0xF0) = [0, 2, 3]"
proof -
  have "[0..<4] = [0, 1, 2, 3::nat]" by (simp add: upt_rec)
  then show ?thesis
    by (simp add: available_def chunk_total_def is_claimed_def demo_td_def demo_bit_values)
qed

theorem claim_chunk_spec_witness:
  "(\<exists>td'. torrent_data_claim_chunk True (\<lambda>k. 100) demo_td (demo_bits 0xF0) 5 2 [-1, -1, -1] =
      Some (EXIT_SUCCESS, td', [0, 2, -1]) \<and> td_ok td')
   \<and> torrent_data_claim_chunk True (\<lambda>k. 100) demo_td (demo_bits 0xF0) 0 2 [-1, -1, -1] = Some (EXIT_SUCCESS, demo_td, [0, 0, -1])"
  using claim_chunk_spec [OF demo_td_ok, of "demo_bits 0xF0" 5 2 "[-1, -1, -1]" "[0, 2]" "\<lambda>k. 100"]
    claim_chunk_spec [OF demo_td_ok, of "demo_bits 0xF0" 0 2 "[-1, -1, -1]" "[0, 0]" "\<lambda>k. 100"]
  by (auto simp: demo_td_available int32_of_def handed_out_def numeral_eq_Suc)

text \<open>Claims of any peers and releases, in any order: what each claim hands out and each release frees.\<close>

datatype claim_op = Claim "nat \<Rightarrow> int" bitfield int nat | Release "nat \<Rightarrow> int"

datatype claim_event = Handed "int list" | Freed "nat set"

fun claim_op_run :: "claim_op \<Rightarrow> torrent_data \<Rightarrow> (claim_event \<times> torrent_data) option" where
  "claim_op_run (Claim clock w timeout n) td = do {
     (_, td', out) \<leftarrow> torrent_data_claim_chunk True clock td w timeout (int n) (replicate n (- 1));
     Some (Handed (filter (\<lambda>i. i \<noteq> - 1) out), td')
   }"
| "claim_op_run (Release clock) td = do {
     (_, td') \<leftarrow> torrent_data_release_expired_claims clock td;
     Some (Freed {i. is_claimed td i \<and> \<not> is_claimed td' i}, td')
   }"

primrec claim_ops_run :: "claim_op list \<Rightarrow> torrent_data \<Rightarrow> (claim_event list \<times> torrent_data) option" where
  "claim_ops_run [] td = Some ([], td)"
| "claim_ops_run (x # xs) td = do {
     (e, td) \<leftarrow> claim_op_run x td;
     (es, td) \<leftarrow> claim_ops_run xs td;
     Some (e # es, td)
   }"

text \<open>A claim with a timeout, and interests that cover the chunks.\<close>

fun timed_op :: "nat \<Rightarrow> claim_op \<Rightarrow> bool" where
  "timed_op m (Claim clock w timeout n) \<longleftrightarrow> bf_wf w \<and> m \<le> bit_count w \<and> timeout \<noteq> 0 \<and> int32_of (timeout * 1000) = timeout * 1000"
| "timed_op m (Release clock) \<longleftrightarrow> True"

text \<open>No chunk is handed out while it is held.\<close>

fun exclusive :: "nat set \<Rightarrow> claim_event list \<Rightarrow> bool" where
  "exclusive H [] \<longleftrightarrow> True"
| "exclusive H (Handed ids # es) \<longleftrightarrow> distinct ids \<and> set ids \<inter> int ` H = {} \<and> exclusive (H \<union> nat ` set ids) es"
| "exclusive H (Freed is # es) \<longleftrightarrow> is \<subseteq> H \<and> exclusive (H - is) es"

lemma claim_op_exclusive:
  assumes "td_ok td" "timed_op (chunk_total td) x"
  shows "\<exists>e td'. claim_op_run x td = Some (e, td') \<and> td_ok td' \<and> chunk_total td' = chunk_total td
    \<and> (\<forall>es. exclusive {i. is_claimed td' i} es \<longrightarrow> exclusive {i. is_claimed td i} (e # es))"
proof (cases x)
  case (Claim clock w timeout n)
  let ?ids = "take n (available td w)"
  from assms(2) Claim have w: "bf_wf w" "chunk_total td \<le> bit_count w" "timeout \<noteq> 0" "int32_of (timeout * 1000) = timeout * 1000" by simp_all
  obtain td' where a: "torrent_data_claim_chunk True clock td w timeout (int n) (replicate n (- 1)) =
      Some (if ?ids = [] then EXIT_FAILURE else EXIT_SUCCESS, td', map int ?ids @ drop (length ?ids) (replicate n (- 1)))"
    "claim_result clock timeout td ?ids (replicate n (- 1)) (td', ?ids \<noteq> [], map int ?ids @ drop (length ?ids) (replicate n (- 1)))"
    using claim_chunk_run [OF assms(1) w, of n "replicate n (- 1)" clock] by auto
  have t: "chunk_total td' = chunk_total td" "is_claimed td' = (\<lambda>i. is_claimed td i \<or> i \<in> set ?ids)"
    using a(2) by (auto simp: claim_result_def chunk_total_def is_claimed_def fun_eq_iff)
  have f: "filter (\<lambda>i. i \<noteq> - 1) (map int ?ids @ drop (length ?ids) (replicate n (- 1))) = map int ?ids"
    by (simp add: filter_map comp_def)
  have "{i. is_claimed td' i} = {i. is_claimed td i} \<union> nat ` set (map int ?ids)" using t(2) by (auto simp: image_image)
  moreover have "distinct (map int ?ids)" "set (map int ?ids) \<inter> int ` {i. is_claimed td i} = {}"
    using available_props(1) [of td w] by (auto simp: distinct_map inj_on_def available_props(2) dest!: in_set_takeD)
  ultimately show ?thesis
    using Claim a(1) f t(1) claim_result_ok [OF assms(1) a(2)] by simp
next
  case (Release clock)
  obtain cl' where r: "torrent_data_release_expired_claims clock td
      = Some (Some EXIT_SUCCESS, td\<lparr>claims := kept_claims clock 0 (claims td), claimed := Some cl'\<rparr>)"
    "td_ok (td\<lparr>claims := kept_claims clock 0 (claims td), claimed := Some cl'\<rparr>)" "bit_count cl' = chunk_total td"
    "bf_bit cl' = (\<lambda>i. is_claimed td i \<and> (is_completed td i \<or> int i \<notin> claim_chunk_id ` set (expired_claims clock 0 (claims td))))"
    using release_run [OF assms(1)] by blast
  let ?td = "td\<lparr>claims := kept_claims clock 0 (claims td), claimed := Some cl'\<rparr>"
  have "{i. is_claimed ?td i} = {i. is_claimed td i} - {i. is_claimed td i \<and> \<not> is_claimed ?td i}"
    using r(4) by (auto simp: is_claimed_def)
  then show ?thesis using Release r(1-3) by (auto simp: chunk_total_def)
qed

text \<open>
  C17: a chunk that is claimed is handed to nobody else until its claim is released. Over any sequence of
  claims of any peers, with any interests that cover the chunks, any amounts and any timeouts other
  than 0, and of releases at any times, every call returns, the chunks one claim hands out are distinct, and
  none of them is held by an earlier claim that has not been freed since. (With the timeout 0, as the
  metadata extension passes it, nothing is recorded and the same chunk goes to many peers.)
\<close>

theorem claims_exclusive:
  assumes "td_ok td" "\<forall>x \<in> set xs. timed_op (chunk_total td) x"
  shows "\<exists>es td'. claim_ops_run xs td = Some (es, td') \<and> td_ok td' \<and> exclusive {i. is_claimed td i} es"
  using assms
proof (induction xs arbitrary: td)
  case (Cons x xs)
  then obtain e td1 where e: "claim_op_run x td = Some (e, td1)" "td_ok td1" "chunk_total td1 = chunk_total td"
    "\<forall>es. exclusive {i. is_claimed td1 i} es \<longrightarrow> exclusive {i. is_claimed td i} (e # es)"
    using claim_op_exclusive [of td x] by auto
  with Cons.IH [of td1] Cons.prems(2) obtain es td' where
    "claim_ops_run xs td1 = Some (es, td')" "td_ok td'" "exclusive {i. is_claimed td1 i} es" by auto
  with e show ?case by auto
qed simp

theorem claims_exclusive_witness:
  "\<exists>es td'. claim_ops_run [Claim (\<lambda>k. 100) (demo_bits 0xF0) 5 2, Claim (\<lambda>k. 200) (demo_bits 0xF0) 9 4, Release (\<lambda>k. 6000),
      Claim (\<lambda>k. 7000) (demo_bits 0xF0) 9 4] demo_td = Some (es, td') \<and> td_ok td' \<and> exclusive {i. is_claimed demo_td i} es"
  by (rule claims_exclusive [OF demo_td_ok]) (auto simp: int32_of_def)

text \<open>
  C23: \<open>torrent_data_release_expired_claims\<close> drops exactly the claims whose deadline has passed at the
  time they are looked at, keeps the others in order, frees exactly the chunks of the dropped claims
  that are not completed, and keeps the invariant.
\<close>

theorem release_expired_spec:
  assumes "td_ok td"
  shows "\<exists>td'. torrent_data_release_expired_claims clock td = Some (Some EXIT_SUCCESS, td') \<and> td_ok td'
    \<and> claims td' = kept_claims clock 0 (claims td) \<and> is_completed td' = is_completed td
    \<and> is_claimed td' = (\<lambda>i. is_claimed td i \<and>
        (is_completed td i \<or> int i \<notin> claim_chunk_id ` set (expired_claims clock 0 (claims td))))"
proof -
  obtain cl' where r: "torrent_data_release_expired_claims clock td
      = Some (Some EXIT_SUCCESS, td\<lparr>claims := kept_claims clock 0 (claims td), claimed := Some cl'\<rparr>)"
    "td_ok (td\<lparr>claims := kept_claims clock 0 (claims td), claimed := Some cl'\<rparr>)"
    "bf_bit cl' = (\<lambda>i. is_claimed td i \<and> (is_completed td i \<or> int i \<notin> claim_chunk_id ` set (expired_claims clock 0 (claims td))))"
    using release_run [OF assms] by blast
  then show ?thesis
    by (intro exI [of _ "td\<lparr>claims := kept_claims clock 0 (claims td), claimed := Some cl'\<rparr>"])
      (simp add: is_claimed_def is_completed_def fun_eq_iff)
qed

theorem release_expired_spec_witness:
  "\<exists>td'. torrent_data_release_expired_claims (\<lambda>k. 60) demo_td = Some (Some EXIT_SUCCESS, td') \<and> td_ok td' \<and> claims td' = []"
  using release_expired_spec [OF demo_td_ok, of "\<lambda>k. 60"] by auto

text \<open>
  C24: no chunk starves. Once every deadline has passed, a release makes every chunk that is not
  completed claimable again: a peer that has it finds it among the available chunks.
\<close>

theorem released_chunks_claimable:
  assumes "td_ok td" "\<forall>k. \<forall>c \<in> set (claims td). deadline c < clock k"
  shows "\<exists>td'. torrent_data_release_expired_claims clock td = Some (Some EXIT_SUCCESS, td') \<and> td_ok td'
    \<and> claims td' = []
    \<and> (\<forall>w i. i < chunk_total td \<longrightarrow> \<not> is_completed td i \<longrightarrow> bf_bit w i \<longrightarrow> i \<in> set (available td' w))"
proof -
  have k: "kept_claims clock j cs = [] \<and> expired_claims clock j cs = cs" if "\<forall>k. \<forall>c \<in> set cs. deadline c < clock k" for j cs
    using that by (induction cs arbitrary: j) auto
  note none = k [OF assms(2), of 0]
  obtain cl' where r: "torrent_data_release_expired_claims clock td
      = Some (Some EXIT_SUCCESS, td\<lparr>claims := kept_claims clock 0 (claims td), claimed := Some cl'\<rparr>)"
    "td_ok (td\<lparr>claims := kept_claims clock 0 (claims td), claimed := Some cl'\<rparr>)" "bit_count cl' = chunk_total td"
    "bf_bit cl' = (\<lambda>i. is_claimed td i \<and> (is_completed td i \<or> int i \<notin> claim_chunk_id ` set (expired_claims clock 0 (claims td))))"
    using release_run [OF assms(1)] by blast
  have free: "\<not> bf_bit cl' i" if "i < chunk_total td" "\<not> is_completed td i" for i
    using assms(1) that none unfolding r(4)
    by (auto simp: td_ok_def claims_ok_def is_claimed_def is_completed_def chunk_total_def)
  show ?thesis
    using r(1,2,3) free none
    by (intro exI [of _ "td\<lparr>claims := kept_claims clock 0 (claims td), claimed := Some cl'\<rparr>"])
      (auto simp: available_props is_claimed_def chunk_total_def)
qed

theorem released_chunks_claimable_witness:
  "\<exists>td'. torrent_data_release_expired_claims (\<lambda>k. 60) demo_td = Some (Some EXIT_SUCCESS, td') \<and> td_ok td'
    \<and> claims td' = []
    \<and> (\<forall>w i. i < chunk_total demo_td \<longrightarrow> \<not> is_completed demo_td i \<longrightarrow> bf_bit w i \<longrightarrow> i \<in> set (available td' w))"
  by (rule released_chunks_claimable [OF demo_td_ok]) simp

end
