(* ===== verification/Uvg_TorrentFiles.thy ===== *)
theory Uvg_TorrentFiles
  imports Uvg_TorrentData
begin

text \<open>
  What \<open>torrent_data_write_chunk\<close> and \<open>torrent_data_read_data\<close> do to pieces and files: the geometry of
  chunks and pieces, the mapping of a piece onto the files it spans, completion, verification, and
  the invariant over whole histories of claims, releases and writes.
\<close>

subsection \<open>Pieces and files\<close>

text \<open>
  The files lie end to end from \<open>off\<close> on, under different paths; \<open>byte_at\<close> is the byte of the torrent
  at a global position, looked up in the file that covers it.
\<close>

fun laid_out :: "nat \<Rightarrow> torrent_data_file_info list \<Rightarrow> bool" where
  "laid_out off [] \<longleftrightarrow> True"
| "laid_out off (f # fs) \<longleftrightarrow> file_offset f = off \<and> file_path f \<noteq> [] \<and> file_path f \<notin> file_path ` set fs
     \<and> laid_out (off + file_size f) fs"

definition files_end :: "nat \<Rightarrow> torrent_data_file_info list \<Rightarrow> nat" where
  "files_end off fs = off + sum_list (map file_size fs)"

fun byte_at :: "torrent_data_file_info list \<Rightarrow> disk \<Rightarrow> nat \<Rightarrow> u8 option" where
  "byte_at [] disk p = None"
| "byte_at (f # fs) disk p =
     (if file_offset f \<le> p \<and> p < file_offset f + file_size f then
        Option.bind (disk (file_path f)) (\<lambda>c. if p - file_offset f < length c then Some (c ! (p - file_offset f)) else None)
      else byte_at fs disk p)"

definition env_good :: "disk_env \<Rightarrow> bool" where
  "env_good env \<longleftrightarrow> (\<forall>p. create_ok env p) \<and> (\<forall>p. open_ok env p) \<and> (\<forall>p n. accepts env p n = n)"

definition disk_opened :: "torrent_data_file_info list \<Rightarrow> disk \<Rightarrow> bool" where
  "disk_opened fs disk \<longleftrightarrow> (\<forall>f \<in> set fs. fp_open f \<longrightarrow> disk (file_path f) \<noteq> None)"

lemma files_end_simps [simp]:
  "files_end off [] = off" "files_end off (f # fs) = files_end (off + file_size f) fs"
  by (simp_all add: files_end_def)

lemma files_end_ge: "off \<le> files_end off fs"
  by (simp add: files_end_def)

lemma byte_at_disk_cong:
  "(\<And>f. f \<in> set fs \<Longrightarrow> disk' (file_path f) = disk (file_path f)) \<Longrightarrow> byte_at fs disk' p = byte_at fs disk p"
  by (induction fs) auto

lemma nth_fwrite_at:
  assumes "i < length content \<or> off \<le> i \<and> i < off + length bs"
  shows "i < length (fwrite_at content off bs)"
    and "fwrite_at content off bs ! i = (if off \<le> i \<and> i < off + length bs then bs ! (i - off) else content ! i)"
proof -
  define pre where "pre = take off (content @ replicate (off - length content) 0)"
  have pre: "length pre = off" "i < off \<Longrightarrow> i < length content \<Longrightarrow> pre ! i = content ! i"
    by (auto simp: pre_def nth_append)
  have e: "fwrite_at content off bs = (if bs = [] then content else pre @ bs @ drop (off + length bs) content)"
    by (simp add: fwrite_at_def pre_def)
  show "i < length (fwrite_at content off bs)" using assms unfolding e by (auto simp: pre(1))
  show "fwrite_at content off bs ! i = (if off \<le> i \<and> i < off + length bs then bs ! (i - off) else content ! i)"
    using assms unfolding e by (auto simp: pre nth_append)
qed

lemma open_file_run:
  assumes "env_good env" "file_path f \<noteq> []" "fp_open f \<longrightarrow> disk (file_path f) \<noteq> None"
  shows "\<exists>c. open_file env disk f = Some (True, disk(file_path f \<mapsto> c), f\<lparr>fp_open := True\<rparr>)
    \<and> (disk (file_path f) = Some c \<or> disk (file_path f) = None \<and> c = [])"
  using assms by (cases "file_path f"; cases "disk (file_path f)")
    (auto simp: open_file_def env_good_def mkpath_def fun_upd_idem)

text \<open>One step of the write loop on a file that overlaps the rest of the piece.\<close>

lemma write_files_skip:
  assumes "w \<noteq> psize" "pb + psize < 2 ^ 63" "file_offset f + file_size f < pb"
  shows "write_files env pb psize piece (f # fs) w disk =
    map_option (\<lambda>(ok, w, fs', disk'). (ok, w, f # fs', disk')) (write_files env pb psize piece fs w disk)"
  using assms by (cases "write_files env pb psize piece fs w disk") (auto simp: Let_def)

text \<open>The machine arithmetic of one overlap computes the overlap.\<close>

lemma overlap_sizes:
  assumes "w < psize" "psize < 2 ^ 31" "pb + psize < 2 ^ 63" "file_offset f \<le> pb + w"
    "pb + w \<le> file_offset f + file_size f" "file_offset f + file_size f < 2 ^ 63"
  defines "rel \<equiv> pb + w - file_offset f"
  defines "n \<equiv> min (file_size f - rel) (psize - w)"
  shows "size_sub (pb + w) (file_offset f) = rel" "size_sub (file_size f) rel = file_size f - rel"
    "size_sub psize w = psize - w" "int32_of (int (min (file_size f - rel) (psize - w))) = int n" "rel < 2 ^ 63"
    "file_offset f \<le> (pb + psize) mod 2 ^ 64" "(file_offset f + file_size f) mod 2 ^ 64 = file_offset f + file_size f"
proof -
  have "rel \<le> file_size f" "file_size f < 2 ^ 64" using assms by (simp_all add: rel_def)
  then show "size_sub (file_size f) rel = file_size f - rel" by (rule size_sub_id)
  have "n < 2 ^ 31" using assms by (simp add: n_def)
  then have "int32_of (int n) = int n" by (simp add: int32_of_id)
  then show "int32_of (int (min (file_size f - rel) (psize - w))) = int n" by (simp add: n_def)
qed (use assms in \<open>simp_all add: rel_def size_sub_id\<close>)

lemma write_files_hit:
  assumes env: "env_good env" "file_path f \<noteq> []" "fp_open f \<longrightarrow> disk (file_path f) \<noteq> None"
    and w: "w < psize" "psize < 2 ^ 31" "psize \<le> length piece"
    and pos: "pb + psize < 2 ^ 63" "pb \<le> file_offset f + file_size f" "file_offset f \<le> pb + w"
      "pb + w \<le> file_offset f + file_size f" "file_offset f + file_size f < 2 ^ 63"
  defines "rel \<equiv> pb + w - file_offset f"
  defines "n \<equiv> min (file_size f - rel) (psize - w)"
  shows "\<exists>c. write_files env pb psize piece (f # fs) w disk =
      map_option (\<lambda>(ok, w, fs', disk'). (ok, w, f\<lparr>fp_open := True\<rparr> # fs', disk'))
        (write_files env pb psize piece fs (w + n) (disk(file_path f \<mapsto> fwrite_at c rel (take n (drop w piece)))))
    \<and> (disk (file_path f) = Some c \<or> disk (file_path f) = None \<and> c = [])"
proof -
  obtain c where c: "open_file env disk f = Some (True, disk(file_path f \<mapsto> c), f\<lparr>fp_open := True\<rparr>)"
    "disk (file_path f) = Some c \<or> disk (file_path f) = None \<and> c = []"
    using open_file_run [of env f disk, OF env] by blast
  note o = overlap_sizes [of w psize pb f, OF w(1,2) pos(1,3,4,5), folded rel_def]
  have m: "int32_of (int (min (file_size f - rel) (psize - w))) = int n" unfolding n_def by (rule o(4))
  have l: "w + n \<le> length piece" using w by (simp add: n_def)
  have t: "accepts env (file_path f) n = n" using env(1) by (simp add: env_good_def)
  let ?disk = "disk(file_path f \<mapsto> fwrite_at c rel (take n (drop w piece)))"
  show ?thesis
    using c w(1) pos(2) o(1,2,3,5,6,7) m l t
    by (cases "write_files env pb psize piece fs (w + n) ?disk") (auto simp: Let_def)
qed


text \<open>The state of the loop when it reaches the file at \<open>off\<close>: either that file lies before the
  piece and nothing is written, or everything up to \<open>off\<close> is.\<close>

definition reached :: "nat \<Rightarrow> nat \<Rightarrow> nat \<Rightarrow> nat \<Rightarrow> bool" where
  "reached pb psize off w \<longleftrightarrow> (w = 0 \<and> off \<le> pb) \<or> (pb + w = off \<and> w \<le> psize) \<or> w = psize"

definition stored :: "nat \<Rightarrow> nat \<Rightarrow> (nat \<Rightarrow> u8) \<Rightarrow> torrent_data_file_info list \<Rightarrow> disk \<Rightarrow> bool" where
  "stored pb psize g fs disk \<longleftrightarrow>
     (\<forall>p. pb \<le> p \<longrightarrow> p < pb + psize \<longrightarrow> byte_at fs disk p = Some (g p))
     \<and> (\<forall>f \<in> set fs. pb \<le> file_offset f + file_size f \<longrightarrow> file_offset f < pb + psize \<longrightarrow> disk (file_path f) \<noteq> None)"

lemma laid_out_offset: "laid_out off fs \<Longrightarrow> f \<in> set fs \<Longrightarrow> off \<le> file_offset f"
  by (induction fs arbitrary: off) fastforce+

lemma laid_out_open [simp]: "laid_out off (map (\<lambda>f. f\<lparr>fp_open := b f\<rparr>) fs) = laid_out off fs"
  by (induction fs arbitrary: off) (auto simp: image_image)

definition same_layout :: "torrent_data_file_info list \<Rightarrow> torrent_data_file_info list \<Rightarrow> bool" where
  "same_layout fs fs' \<longleftrightarrow> map (\<lambda>f. (file_offset f, file_size f, file_path f)) fs'
     = map (\<lambda>f. (file_offset f, file_size f, file_path f)) fs"

text \<open>What the loop does to the disk from \<open>w\<close> written bytes on: the rest of the piece is in place, no
  other byte is changed, no file disappears, every file the piece touches exists.\<close>

definition wrote :: "nat \<Rightarrow> nat \<Rightarrow> u8 list \<Rightarrow> nat \<Rightarrow> torrent_data_file_info list \<Rightarrow> disk \<Rightarrow> disk \<Rightarrow> bool" where
  "wrote pb psize piece w fs disk disk' \<longleftrightarrow>
     (\<forall>p. pb + w \<le> p \<longrightarrow> p < pb + psize \<longrightarrow> byte_at fs disk' p = Some (piece ! (p - pb)))
     \<and> (\<forall>p x. byte_at fs disk p = Some x \<longrightarrow> p < pb + w \<or> pb + psize \<le> p \<longrightarrow> byte_at fs disk' p = Some x)
     \<and> (\<forall>q. disk q \<noteq> None \<longrightarrow> disk' q \<noteq> None) \<and> (\<forall>q. q \<notin> file_path ` set fs \<longrightarrow> disk' q = disk q)
     \<and> (w < psize \<longrightarrow> (\<forall>f \<in> set fs. pb \<le> file_offset f + file_size f \<longrightarrow> file_offset f < pb + psize \<longrightarrow> disk' (file_path f) \<noteq> None))"

lemma wrote_done: "wrote pb psize piece psize fs disk disk"
  by (simp add: wrote_def)

lemma byte_at_below: "laid_out off fs \<Longrightarrow> p < off \<Longrightarrow> byte_at fs disk p = None"
  by (induction fs arbitrary: off) auto

lemma byte_at_other_path:
  "q \<notin> file_path ` set fs \<Longrightarrow> byte_at fs (disk(q := x)) p = byte_at fs disk p"
  by (rule byte_at_disk_cong) auto

lemma wrote_skip:
  assumes "laid_out off (f # fs)" "file_offset f + file_size f < pb" "wrote pb psize piece 0 fs disk disk'"
  shows "wrote pb psize piece 0 (f # fs) disk disk'"
proof -
  have same: "disk' (file_path f) = disk (file_path f)" using assms(1,3) by (simp add: wrote_def)
  have after: "byte_at (f # fs) d p = byte_at fs d p" if "pb \<le> p" for p d using assms(2) that by simp
  show ?thesis
    unfolding wrote_def
  proof (intro conjI allI impI ballI)
    fix p assume "pb + 0 \<le> p" "p < pb + psize"
    then show "byte_at (f # fs) disk' p = Some (piece ! (p - pb))"
      using assms(3) after by (simp add: wrote_def)
  next
    fix p x assume "byte_at (f # fs) disk p = Some x" "p < pb + 0 \<or> pb + psize \<le> p"
    then show "byte_at (f # fs) disk' p = Some x"
      using assms(3) same by (auto simp: wrote_def split: if_splits)
  qed (use assms(2,3) in \<open>auto simp: wrote_def\<close>)
qed

lemma wrote_hit:
  assumes lay: "laid_out off (f # fs)"
    and w: "w < psize" "psize \<le> length piece" "file_offset f \<le> pb + w" "pb + w \<le> file_offset f + file_size f"
    and c: "disk (file_path f) = Some c \<or> disk (file_path f) = None \<and> c = []"
  defines "rel \<equiv> pb + w - file_offset f"
  defines "n \<equiv> min (file_size f - rel) (psize - w)"
  assumes rest: "wrote pb psize piece (w + n) fs (disk(file_path f \<mapsto> fwrite_at c rel (take n (drop w piece)))) disk'"
  shows "wrote pb psize piece w (f # fs) disk disk'"
proof -
  let ?bs = "take n (drop w piece)" and ?e = "file_offset f + file_size f"
  have lb: "length ?bs = n" using w by (simp add: n_def)
  have fnew: "disk' (file_path f) = Some (fwrite_at c rel ?bs)" using lay rest by (simp add: wrote_def)
  have old: "byte_at fs (disk(file_path f \<mapsto> fwrite_at c rel ?bs)) p = byte_at fs disk p" for p
    using lay by (intro byte_at_other_path) auto
  show ?thesis
    unfolding wrote_def
  proof (intro conjI allI impI ballI)
    fix p assume p: "pb + w \<le> p" "p < pb + psize"
    show "byte_at (f # fs) disk' p = Some (piece ! (p - pb))"
    proof (cases "p < ?e")
      case True
      have i: "rel \<le> p - file_offset f" "p - file_offset f < rel + n"
        using p True w by (auto simp: rel_def n_def)
      then have "fwrite_at c rel ?bs ! (p - file_offset f) = ?bs ! (p - file_offset f - rel)"
        using nth_fwrite_at(2) [of "p - file_offset f" c rel ?bs] lb by simp
      also have "\<dots> = piece ! (p - pb)"
        using i p w by (simp add: rel_def)
      finally show ?thesis
        using True p w i fnew nth_fwrite_at(1) [of "p - file_offset f" c rel ?bs] lb by simp
    next
      case False
      then have "pb + (w + n) \<le> p" using p w by (auto simp: n_def rel_def)
      with rest p False show ?thesis by (simp add: wrote_def)
    qed
  next
    fix p x assume b: "byte_at (f # fs) disk p = Some x" and out: "p < pb + w \<or> pb + psize \<le> p"
    show "byte_at (f # fs) disk' p = Some x"
    proof (cases "file_offset f \<le> p \<and> p < ?e")
      case True
      with b c have "disk (file_path f) = Some c" "p - file_offset f < length c" "c ! (p - file_offset f) = x"
        by (auto split: if_splits)
      moreover have "\<not> (rel \<le> p - file_offset f \<and> p - file_offset f < rel + n)"
        using out True w by (auto simp: rel_def n_def)
      ultimately show ?thesis
        using True fnew nth_fwrite_at [of "p - file_offset f" c rel ?bs] lb by auto
    next
      case False
      with b have "byte_at fs disk p = Some x" by auto
      moreover have "p < pb + (w + n) \<or> pb + psize \<le> p" using out by auto
      ultimately have "byte_at fs disk' p = Some x"
        using rest unfolding wrote_def old by blast
      with False show ?thesis by auto
    qed
  next
    fix q assume "disk q \<noteq> None"
    then show "disk' q \<noteq> None" using rest by (simp add: wrote_def)
  next
    fix q assume "q \<notin> file_path ` set (f # fs)"
    then show "disk' q = disk q" using rest by (simp add: wrote_def)
  next
    fix g assume g: "g \<in> set (f # fs)" "pb \<le> file_offset g + file_size g" "file_offset g < pb + psize"
    show "disk' (file_path g) \<noteq> None"
    proof (cases "g = f")
      case False
      then have "?e \<le> file_offset g" using g(1) lay laid_out_offset [of ?e fs g] by auto
      with g(3) have "w + n < psize" using w by (auto simp: n_def rel_def)
      with False g rest show ?thesis by (auto simp: wrote_def)
    qed (simp add: fnew)
  qed
qed

lemma write_files_run:
  assumes env: "env_good env" and psize: "psize < 2 ^ 31" "psize \<le> length piece"
    and pe: "pb + psize < 2 ^ 63"
    and ends: "files_end off fs < 2 ^ 63" "pb + psize \<le> files_end off fs"
    and lay: "laid_out off fs" and op: "disk_opened fs disk" and re: "reached pb psize off w"
  shows "\<exists>fs' disk'. write_files env pb psize piece fs w disk = Some (True, psize, fs', disk')
    \<and> same_layout fs fs' \<and> disk_opened fs' disk' \<and> wrote pb psize piece w fs disk disk'"
  using ends lay op re
proof (induction fs arbitrary: off w disk)
  case Nil
  then have "w = psize" by (auto simp: reached_def)
  with Nil show ?case by (simp add: same_layout_def wrote_done)
next
  case (Cons f fs)
  have off: "file_offset f = off" using Cons.prems(3) by simp
  show ?case
  proof (cases "w = psize")
    case True
    with Cons.prems show ?thesis by (simp add: same_layout_def wrote_done)
  next
    case False
    note w = this
    show ?thesis
    proof (cases "off + file_size f < pb")
      case True
      with Cons.prems(5) w have 0: "w = 0" by (auto simp: reached_def)
      have "\<exists>fs' disk'. write_files env pb psize piece fs 0 disk = Some (True, psize, fs', disk')
          \<and> same_layout fs fs' \<and> disk_opened fs' disk' \<and> wrote pb psize piece 0 fs disk disk'"
        using Cons.prems True by (intro Cons.IH [of "off + file_size f"]) (auto simp: reached_def disk_opened_def)
      then obtain fs' disk' where r: "write_files env pb psize piece fs 0 disk = Some (True, psize, fs', disk')"
        "same_layout fs fs'" "disk_opened fs' disk'" "wrote pb psize piece 0 fs disk disk'" by blast
      have "wrote pb psize piece 0 (f # fs) disk disk'"
        using Cons.prems(3) True off r(4) by (intro wrote_skip) auto
      moreover have "disk_opened (f # fs') disk'"
        using Cons.prems(4) r(3,4) by (auto simp: disk_opened_def wrote_def)
      ultimately show ?thesis
        using write_files_skip [of w psize pb f env piece fs disk] w pe True off 0 r(1,2)
        by (simp add: same_layout_def del: write_files.simps)
    next
      case hit: False
      have pos: "w < psize" "file_offset f \<le> pb + w" "pb + w \<le> file_offset f + file_size f" "file_offset f + file_size f < 2 ^ 63"
        "pb \<le> file_offset f + file_size f"
        using Cons.prems(1,5) w hit off files_end_ge [of "off + file_size f" fs] by (auto simp: reached_def)
      define rel where "rel = pb + w - file_offset f"
      define n where "n = min (file_size f - rel) (psize - w)"
      have path: "file_path f \<noteq> []" "fp_open f \<longrightarrow> disk (file_path f) \<noteq> None"
        using Cons.prems(3,4) by (auto simp: disk_opened_def)
      obtain c where c: "write_files env pb psize piece (f # fs) w disk =
          map_option (\<lambda>(ok, w, fs', disk'). (ok, w, f\<lparr>fp_open := True\<rparr> # fs', disk'))
            (write_files env pb psize piece fs (w + n) (disk(file_path f \<mapsto> fwrite_at c rel (take n (drop w piece)))))"
        "disk (file_path f) = Some c \<or> disk (file_path f) = None \<and> c = []"
        using write_files_hit [of env f disk w psize piece pb fs, OF env path pos(1) psize pe pos(5,2,3,4)]
        unfolding rel_def n_def by blast
      let ?disk = "disk(file_path f \<mapsto> fwrite_at c rel (take n (drop w piece)))"
      have "reached pb psize (off + file_size f) (w + n)"
        using pos off by (auto simp: reached_def n_def rel_def)
      then have "\<exists>fs' disk'. write_files env pb psize piece fs (w + n) ?disk = Some (True, psize, fs', disk')
          \<and> same_layout fs fs' \<and> disk_opened fs' disk' \<and> wrote pb psize piece (w + n) fs ?disk disk'"
        using Cons.prems by (intro Cons.IH [of "off + file_size f"]) (auto simp: disk_opened_def)
      then obtain fs' disk' where r: "write_files env pb psize piece fs (w + n) ?disk = Some (True, psize, fs', disk')"
        "same_layout fs fs'" "disk_opened fs' disk'" "wrote pb psize piece (w + n) fs ?disk disk'" by blast
      have "wrote pb psize piece w (f # fs) disk disk'"
        using wrote_hit [where disk = disk, OF Cons.prems(3) pos(1) psize(2) pos(2,3) c(2)] r(4) unfolding rel_def n_def by blast
      moreover have "disk_opened (f\<lparr>fp_open := True\<rparr> # fs') disk'"
        using r(3,4) by (auto simp: disk_opened_def wrote_def)
      ultimately show ?thesis using c(1) r(1,2) by (auto simp: same_layout_def)
    qed
  qed
qed

text \<open>Reading back what the global positions hold.\<close>

lemma byte_at_file:
  assumes "laid_out off (f # fs)" "file_offset f \<le> p" "p + n \<le> file_offset f + file_size f"
    and "\<And>i. i < n \<Longrightarrow> byte_at (f # fs) disk (p + i) = Some (g (p + i))" and "disk (file_path f) \<noteq> None"
  shows "\<exists>c. disk (file_path f) = Some c \<and> take n (drop (p - file_offset f) c) = map g [p..<p + n]"
proof -
  obtain c where c: "disk (file_path f) = Some c" using assms(5) by auto
  have at: "p - file_offset f + i < length c \<and> c ! (p - file_offset f + i) = g (p + i)" if "i < n" for i
    using assms(4) [OF that] assms(2,3) that c by (auto split: if_splits)
  have "n \<le> length c - (p - file_offset f)" using at [of "n - 1"] by (cases n) auto
  then have "take n (drop (p - file_offset f) c) = map g [p..<p + n]"
    by (intro nth_equalityI) (auto simp: at)
  with c show ?thesis by blast
qed

lemma read_files_run:
  assumes env: "env_good env" and psize: "psize < 2 ^ 31" "pb + psize < 2 ^ 63"
    and ends: "files_end off fs < 2 ^ 63" "pb + psize \<le> files_end off fs"
    and lay: "laid_out off fs" and re: "reached pb psize off (length buf)"
    and bytes: "\<forall>p. pb + length buf \<le> p \<longrightarrow> p < pb + psize \<longrightarrow> byte_at fs disk p = Some (g p)"
    and ex: "length buf < psize \<longrightarrow> (\<forall>f \<in> set fs. pb \<le> file_offset f + file_size f \<longrightarrow> file_offset f < pb + psize \<longrightarrow> disk (file_path f) \<noteq> None)"
  shows "read_files env pb psize fs disk buf = Some (True, buf @ map g [pb + length buf..<pb + psize])"
  using ends lay re bytes ex
proof (induction fs arbitrary: off buf)
  case Nil
  then have "length buf = psize" by (auto simp: reached_def)
  then show ?case by simp
next
  case (Cons f fs)
  have off: "file_offset f = off" using Cons.prems(3) by simp
  show ?case
  proof (cases "length buf = psize")
    case True
    then show ?thesis by simp
  next
    case w: False
    show ?thesis
    proof (cases "off + file_size f < pb")
      case True
      with Cons.prems(4) w have 0: "length buf = 0" by (auto simp: reached_def)
      have "read_files env pb psize fs disk buf = Some (True, buf @ map g [pb + length buf..<pb + psize])"
        using Cons.prems True 0 off by (intro Cons.IH [of "off + file_size f"]) (auto simp: reached_def)
      with w True off psize(2) show ?thesis by simp
    next
      case hit: False
      let ?w = "length buf"
      have pos: "?w < psize" "file_offset f \<le> pb + ?w" "pb + ?w \<le> file_offset f + file_size f" "file_offset f + file_size f < 2 ^ 63"
        "pb \<le> file_offset f + file_size f"
        using Cons.prems(1,4) w hit off files_end_ge [of "off + file_size f" fs] by (auto simp: reached_def)
      define rel where "rel = pb + ?w - file_offset f"
      define n where "n = min (file_size f - rel) (psize - ?w)"
      have n: "pb + ?w + n \<le> file_offset f + file_size f" "?w + n \<le> psize" using pos by (auto simp: n_def rel_def)
      obtain c where c: "disk (file_path f) = Some c" "take n (drop rel c) = map g [pb + ?w..<pb + ?w + n]"
        unfolding rel_def
        using byte_at_file [OF Cons.prems(3) pos(2) n(1), of disk g] Cons.prems(5,6) n(2) pos by auto
      note o = overlap_sizes [of ?w psize pb f, OF pos(1) psize pos(2,3,4), folded rel_def]
      have m: "int32_of (int (min (file_size f - rel) (psize - ?w))) = int n" unfolding n_def by (rule o(4))
      have "read_files env pb psize (f # fs) disk buf = read_files env pb psize fs disk (buf @ take n (drop rel c))"
        using w pos(5) o(1,2,3,5,6,7) m c env by (simp add: Let_def env_good_def)
      also have "\<dots> = Some (True, (buf @ take n (drop rel c)) @ map g [pb + length (buf @ take n (drop rel c))..<pb + psize])"
      proof (rule Cons.IH [of "off + file_size f"])
        have l: "length (buf @ take n (drop rel c)) = ?w + n" unfolding c(2) by simp
        show "reached pb psize (off + file_size f) (length (buf @ take n (drop rel c)))"
          unfolding l using pos off by (auto simp: reached_def n_def rel_def)
        show "\<forall>p\<ge>pb + length (buf @ take n (drop rel c)). p < pb + psize \<longrightarrow> byte_at fs disk p = Some (g p)"
          unfolding l
        proof (intro allI impI)
          fix p assume p: "pb + (?w + n) \<le> p" "p < pb + psize"
          then have "file_offset f + file_size f \<le> p" using pos by (auto simp: n_def rel_def)
          moreover have "byte_at (f # fs) disk p = Some (g p)" using Cons.prems(5) p by simp
          ultimately show "byte_at fs disk p = Some (g p)" by simp
        qed
        show "length (buf @ take n (drop rel c)) < psize \<longrightarrow> (\<forall>f\<in>set fs. pb \<le> file_offset f + file_size f
            \<longrightarrow> file_offset f < pb + psize \<longrightarrow> disk (file_path f) \<noteq> None)"
          using Cons.prems(6) pos(1) by auto
      qed (use Cons.prems in auto)
      also have "\<dots> = Some (True, buf @ map g [pb + ?w..<pb + psize])"
        unfolding c(2) using n(2) upt_add_eq_append [of "pb + ?w" "pb + ?w + n" "psize - (?w + n)"]
        by (simp add: add.assoc)
      finally show ?thesis .
    qed
  qed
qed

subsection \<open>Geometry\<close>

text \<open>A layout the program can handle: chunks divide pieces, and sizes and piece numbers stay in the
  range of the \<open>int\<close>s and of the ten-byte key buffer the code puts them in.\<close>

definition geometry :: "torrent_data \<Rightarrow> bool" where
  "geometry td \<longleftrightarrow> 0 < chunk_size td \<and> chunk_size td dvd piece_size td \<and> 0 < piece_size td \<and> piece_size td < 2 ^ 31
     \<and> 0 < data_size td \<and> data_size td < 2 ^ 62 \<and> data_size td \<le> piece_size td * 10 ^ 8
     \<and> chunk_total td = (data_size td + (chunk_size td - 1)) div chunk_size td \<and> chunk_total td < 2 ^ 31"

lemma chunk_start:
  assumes "geometry td" "i < chunk_total td"
  shows "chunk_size td * i < data_size td"
proof -
  have "Suc i \<le> (data_size td + (chunk_size td - 1)) div chunk_size td" using assms by (simp add: geometry_def)
  then have "Suc i * chunk_size td \<le> data_size td + (chunk_size td - 1)"
    using assms(1) by (simp add: less_eq_div_iff_mult_less_eq geometry_def)
  moreover have "0 < chunk_size td" using assms(1) by (simp add: geometry_def)
  ultimately show ?thesis by (simp add: mult.commute)
qed

lemma piece_of_offset:
  assumes "geometry td" "off < data_size td"
  shows "off div piece_size td < 10 ^ 8" "piece_size td * (off div piece_size td) \<le> off"
proof -
  have "off < piece_size td * 10 ^ 8" using assms by (simp add: geometry_def)
  then show "off div piece_size td < 10 ^ 8" by (simp add: less_mult_imp_div_less mult.commute)
  show "piece_size td * (off div piece_size td) \<le> off" by simp
qed

lemma get_chunk_info_run:
  assumes "geometry td" "i < chunk_total td"
  shows "torrent_data_get_chunk_info td (int i) = Some (EXIT_SUCCESS, Some
    \<lparr>chunk_id = int i, chunk_piece_id = int (chunk_size td * i div piece_size td),
     info_chunk_size = min (chunk_size td) (data_size td - chunk_size td * i), chunk_offset = chunk_size td * i\<rparr>)"
proof -
  have lt: "chunk_size td * i < data_size td" using assms by (rule chunk_start)
  have "size_t_of (int (chunk_size td) * int i) = chunk_size td * i"
    using lt assms(1) by (intro size_t_of_mult) (simp add: geometry_def)
  moreover have "int32_of (int (chunk_size td * i div piece_size td)) = int (chunk_size td * i div piece_size td)"
    using piece_of_offset(1) [OF assms(1) lt] by (intro int32_of_id) auto
  moreover have "size_sub (data_size td) (chunk_size td * i) = data_size td - chunk_size td * i"
    using lt assms(1) by (intro size_sub_id) (auto simp: geometry_def)
  ultimately show ?thesis
    using assms(1) by (simp add: torrent_data_get_chunk_info_def geometry_def Let_def del: of_nat_mult)
qed

lemma get_piece_info_run:
  assumes "geometry td" "piece_size td * p < data_size td"
  shows "torrent_data_get_piece_info td (int p) = (EXIT_SUCCESS, Some
    \<lparr>piece_id = int p, info_piece_size = min (piece_size td) (data_size td - piece_size td * p),
     piece_offset = piece_size td * p\<rparr>)"
proof -
  have "size_t_of (int (piece_size td) * int p) = piece_size td * p"
    using assms by (intro size_t_of_mult) (simp add: geometry_def)
  moreover have "size_sub (data_size td) (piece_size td * p) = data_size td - piece_size td * p"
    using assms by (intro size_sub_id) (auto simp: geometry_def)
  ultimately show ?thesis
    using assms(1) by (simp add: torrent_data_get_piece_info_def geometry_def Let_def del: of_nat_mult)
qed

lemma chunk_in_piece:
  assumes "geometry td"
  shows "chunk_size td * i - piece_size td * (chunk_size td * i div piece_size td) + chunk_size td \<le> piece_size td"
proof -
  let ?c = "chunk_size td" and ?r = "chunk_size td * i mod piece_size td"
  have g: "?c dvd piece_size td" "0 < ?c" "0 < piece_size td" using assms by (simp_all add: geometry_def)
  from g(1) obtain k where k: "piece_size td = ?c * k" by (rule dvdE)
  with g(3) have "0 < k" by (cases k) auto
  have r: "?r = ?c * (i mod k)" unfolding k by (rule mult_mod_right [symmetric])
  have "i mod k + 1 \<le> k" using \<open>0 < k\<close> by (simp add: Suc_leI)
  then have "?c * (i mod k + 1) \<le> ?c * k" by (rule mult_le_mono2)
  moreover have "?c * i - piece_size td * (?c * i div piece_size td) = ?r" by (rule minus_mult_div_eq_mod)
  ultimately show ?thesis using r k by simp
qed

subsection \<open>Completed pieces\<close>

definition piece_uints :: "torrent_data \<Rightarrow> nat" where
  "piece_uints td = piece_size td div chunk_size td div 8"

lemma upto_int: "[0..int n - 1] = map int [0..<n]"
  by (rule nth_equalityI) simp_all

lemma piece_bytes_full_run:
  assumes "bf_wf c" "\<forall>k \<in> set ks. k < 2 ^ 31"
  shows "piece_bytes_full c (map int ks) = Some (of_bool (\<forall>k \<in> set ks. k < bytes_count c \<longrightarrow> bytes c ! k = 0xFF))"
  using assms(2)
proof (induction ks)
  case (Cons k ks)
  then have "int32_of (int k) = int k" "size_t_of (int k) = k" by (simp_all add: int32_of_id size_t_of_id)
  with Cons assms(1) show ?case by (simp add: bf_wf_def)
qed simp

lemma piece_index_bound:
  assumes "geometry td" "piece_size td * p < data_size td" "j < piece_uints td"
  shows "p * piece_uints td + j < 2 ^ 31"
proof -
  let ?c = "chunk_size td" and ?u = "piece_uints td"
  have c: "0 < ?c" "piece_size td < 2 ^ 31" "chunk_total td < 2 ^ 31" using assms(1) unfolding geometry_def by blast+
  have u8: "8 * ?u \<le> piece_size td div ?c" unfolding piece_uints_def by (simp add: mult.commute)
  then have "8 * ?u * ?c \<le> piece_size td" using c(1) by (simp add: less_eq_div_iff_mult_less_eq)
  then have "8 * ?u * ?c * p \<le> piece_size td * p" by (rule mult_le_mono1)
  moreover have "(8 * ?u * p) * ?c = 8 * ?u * ?c * p" by (simp only: ac_simps)
  ultimately have "(8 * ?u * p) * ?c \<le> data_size td" using assms(2) by linarith
  then have "8 * ?u * p \<le> data_size td div ?c" using c(1) by (simp add: less_eq_div_iff_mult_less_eq)
  also have "\<dots> \<le> chunk_total td" using assms(1) unfolding geometry_def by (metis div_le_mono le_add1)
  finally have "8 * (p * ?u) < 2 ^ 31" using c(3) by (simp add: ac_simps)
  moreover have "8 * ?u < 2 ^ 31" using u8 c(2) div_le_dividend [of "piece_size td" ?c] by linarith
  ultimately show ?thesis using assms(3) by simp
qed

lemma is_piece_complete_run:
  assumes "geometry td" "piece_size td * p < data_size td" "completed td = Some co" "bf_wf co"
  shows "torrent_data_is_piece_complete td (int p) = Some (of_bool
    (\<forall>j < piece_uints td. p * piece_uints td + j < bytes_count co \<longrightarrow> bytes co ! (p * piece_uints td + j) = 0xFF))"
proof -
  let ?u = "piece_uints td"
  have c: "0 < chunk_size td" "piece_size td < 2 ^ 31" using assms(1) by (simp_all add: geometry_def)
  have "int32_of (int (piece_size td div chunk_size td)) = int (piece_size td div chunk_size td)"
    using c(2) by (intro int32_of_nat le_less_trans [OF div_le_dividend])
  then have u: "int32_of (int (piece_size td div chunk_size td)) div 8 = int ?u"
    by (simp add: piece_uints_def zdiv_int)
  have ix: "map (\<lambda>i. int p * int ?u + i) [0..int ?u - 1] = map int (map (\<lambda>j. p * ?u + j) [0..<?u])"
    unfolding upto_int by simp
  have bound: "k < 2 ^ 31" if "p * ?u \<le> k" "k < ?u + p * ?u" for k
    using piece_index_bound [OF assms(1,2), of "k - p * ?u"] that by simp
  have "piece_bytes_full co (map int (map (\<lambda>j. p * ?u + j) [0..<?u])) = Some (of_bool
      (\<forall>k \<in> set (map (\<lambda>j. p * ?u + j) [0..<?u]). k < bytes_count co \<longrightarrow> bytes co ! k = 0xFF))"
    using bound by (intro piece_bytes_full_run [OF assms(4)]) auto
  also have "(\<forall>k \<in> set (map (\<lambda>j. p * ?u + j) [0..<?u]). k < bytes_count co \<longrightarrow> bytes co ! k = 0xFF) \<longleftrightarrow>
      (\<forall>j < ?u. p * ?u + j < bytes_count co \<longrightarrow> bytes co ! (p * ?u + j) = 0xFF)"
    unfolding set_map set_upt ball_simps by auto
  finally show ?thesis
    unfolding torrent_data_is_piece_complete_def get_piece_info_run [OF assms(1,2)] u Let_def
    using c(1) assms(3) ix by (simp add: u)
qed

subsection \<open>Writing a chunk\<close>

definition hashes_ok :: "torrent_data \<Rightarrow> bool" where
  "hashes_ok td \<longleftrightarrow> (case sha1_hashes td of None \<Rightarrow> True
     | Some h \<Rightarrow> length h = sha1_hashes_len td \<and> 20 \<le> length h \<and> length h < 2 ^ 63)"

text \<open>The full invariant, on the download state and the disk.\<close>

definition td_good :: "torrent_data \<Rightarrow> disk \<Rightarrow> bool" where
  "td_good td disk \<longleftrightarrow> td_ok td \<and> geometry td \<and> hashes_ok td
     \<and> (\<forall>hm k p. pieces td = Some hm \<longrightarrow> hm_lookup hm k = Some p \<longrightarrow> length p = piece_size td)
     \<and> laid_out 0 (files td) \<and> data_size td \<le> files_end 0 (files td) \<and> files_end 0 (files td) < 2 ^ 63
     \<and> disk_opened (files td) disk"

lemma validate_piece_run:
  assumes "hashes_ok td" "length stack = 64" "p < 10 ^ 8" "info_piece_size pinfo \<le> length piece"
    "info_piece_size pinfo < 2 ^ 31" "piece_id pinfo = int p"
  shows "torrent_data_validate_piece stack td pinfo piece = Some (case sha1_hashes td of
      None \<Rightarrow> EXIT_SUCCESS
    | Some h \<Rightarrow> if length h < 20 * p + 20 then EXIT_FAILURE
        else if strncmp 20 (fips_sha1 (take (info_piece_size pinfo) piece)) (drop (20 * p) h) = Some 0
          then EXIT_SUCCESS else EXIT_FAILURE)"
proof (cases "sha1_hashes td")
  case None
  then show ?thesis by (simp add: torrent_data_validate_piece_def)
next
  case (Some h)
  with assms(1) have h: "length h = sha1_hashes_len td" "20 \<le> length h" "length h < 2 ^ 63" by (auto simp: hashes_ok_def)
  have off: "int32_of (int p * 20) = int p * 20" "size_t_of (int p * 20) = 20 * p"
    using assms(3) by (simp_all add: int32_of_id size_t_of_id nat_mult_distrib)
  have sub: "size_sub (sha1_hashes_len td) 20 = length h - 20" using h by (simp add: size_sub_id)
  have sha: "sha1_of stack piece (info_piece_size pinfo mod 2 ^ 32) = Some (fips_sha1 (take (info_piece_size pinfo) piece))"
    using assms by (simp add: sha1_of_run)
  have cmp: "\<exists>r. strncmp 20 (fips_sha1 m) (drop (20 * p) h) = Some r" if "\<not> length h < 20 * p + 20" for m
    using that by (intro strncmp_defined) auto
  show ?thesis
  proof (cases "length h < 20 * p + 20")
    case True
    then have "length h - 20 < 20 * p" using h(2) by linarith
    with True Some h(2) assms(6) off sub show ?thesis by (simp add: torrent_data_validate_piece_def Let_def)
  next
    case False
    with cmp obtain r where "strncmp 20 (fips_sha1 (take (info_piece_size pinfo) piece)) (drop (20 * p) h) = Some r" by blast
    moreover have "\<not> length h - 20 < 20 * p" using False by linarith
    ultimately show ?thesis
      using False Some h(2) assms(6) off sub sha by (simp add: torrent_data_validate_piece_def Let_def)
  qed
qed

text \<open>The parts of the invariant do not see the fields they do not mention.\<close>

lemma chunk_total_frame [simp]:
  "chunk_total (td\<lparr>files := a\<rparr>) = chunk_total td" "chunk_total (td\<lparr>completed_pieces := b\<rparr>) = chunk_total td"
  "chunk_total (td\<lparr>needed := c\<rparr>) = chunk_total td" "chunk_total (td\<lparr>downloaded := d\<rparr>) = chunk_total td"
  "chunk_total (td\<lparr>left := d\<rparr>) = chunk_total td" "chunk_total (td\<lparr>completed := e\<rparr>) = chunk_total td"
  "chunk_total (td\<lparr>pieces := h\<rparr>) = chunk_total td"
  by (simp_all add: chunk_total_def)

lemma geometry_frame [simp]:
  "geometry (td\<lparr>files := a\<rparr>) = geometry td" "geometry (td\<lparr>completed_pieces := b\<rparr>) = geometry td"
  "geometry (td\<lparr>needed := c\<rparr>) = geometry td" "geometry (td\<lparr>downloaded := d\<rparr>) = geometry td"
  "geometry (td\<lparr>left := d\<rparr>) = geometry td" "geometry (td\<lparr>completed := e\<rparr>) = geometry td"
  "geometry (td\<lparr>pieces := h\<rparr>) = geometry td"
  by (simp_all add: geometry_def)

lemma hashes_ok_frame [simp]:
  "hashes_ok (td\<lparr>files := a\<rparr>) = hashes_ok td" "hashes_ok (td\<lparr>completed_pieces := b\<rparr>) = hashes_ok td"
  "hashes_ok (td\<lparr>needed := c\<rparr>) = hashes_ok td" "hashes_ok (td\<lparr>downloaded := d\<rparr>) = hashes_ok td"
  "hashes_ok (td\<lparr>left := d\<rparr>) = hashes_ok td" "hashes_ok (td\<lparr>completed := e\<rparr>) = hashes_ok td"
  "hashes_ok (td\<lparr>pieces := h\<rparr>) = hashes_ok td"
  by (simp_all add: hashes_ok_def split: option.split)

lemma td_ok_frame [simp]:
  "td_ok (td\<lparr>files := a\<rparr>) = td_ok td" "td_ok (td\<lparr>completed_pieces := b\<rparr>) = td_ok td"
  "td_ok (td\<lparr>needed := c\<rparr>) = td_ok td" "td_ok (td\<lparr>downloaded := d\<rparr>) = td_ok td"
  "td_ok (td\<lparr>left := d\<rparr>) = td_ok td"
  by (simp_all add: td_ok_def)

lemma take_piece_run:
  assumes "pieces td = Some hm" "hm_wf hm" "\<forall>k p. hm_lookup hm k = Some p \<longrightarrow> length p = piece_size td"
    and "chunk_offset ci - piece_offset pinfo + info_chunk_size ci \<le> piece_size td" "piece_offset pinfo \<le> chunk_offset ci"
    and "piece_size td < 2 ^ 31" "info_chunk_size ci = length dat"
  shows "\<exists>hm'. take_piece True td key ci pinfo dat = Some
      (splice (case hm_lookup hm key of Some p \<Rightarrow> p | None \<Rightarrow> replicate (piece_size td) 0)
        (chunk_offset ci - piece_offset pinfo) dat, td\<lparr>pieces := Some hm'\<rparr>)
    \<and> hm_wf hm' \<and> hm_lookup hm' = (hm_lookup hm)(key := None)"
proof -
  let ?base = "case hm_lookup hm key of Some p \<Rightarrow> p | None \<Rightarrow> replicate (piece_size td) 0"
  let ?rel = "chunk_offset ci - piece_offset pinfo"
  obtain hm' where hm': "hashmap_get hm key = Some (hm_lookup hm key, hm')" "hm_wf hm'" "hm_lookup hm' = (hm_lookup hm)(key := None)"
    using hashmap_get_run [OF assms(2)] by blast
  have len: "length ?base = piece_size td" using assms(3) by (auto split: option.splits)
  have "?rel < 2 ^ 31" using assms(4,6) by linarith
  then have rel: "int32_of (int (chunk_offset ci) - int (piece_offset pinfo)) = int ?rel"
    unfolding of_nat_diff [OF assms(5), symmetric] by (rule int32_of_nat)
  have cp: "memcpy_at ?base ?rel dat = Some (splice ?base ?rel dat)"
    using len assms(4,7) by (simp add: memcpy_at_def)
  have base: "(case hm_lookup hm key of Some p \<Rightarrow> Some p
      | None \<Rightarrow> if True then Some (replicate (piece_size td) 0) else None) = Some ?base"
    by (simp split: option.splits)
  have "take_piece True td key ci pinfo dat = Some (splice ?base ?rel dat, td\<lparr>pieces := Some hm'\<rparr>)"
    unfolding take_piece_def rel Let_def using hm'(1) cp assms(1,7) base by simp
  with hm' show ?thesis by blast
qed

text \<open>The length of chunk \<open>i\<close>, and the number and length of the piece it belongs to.\<close>

definition chunk_len :: "torrent_data \<Rightarrow> nat \<Rightarrow> nat" where
  "chunk_len td i = min (chunk_size td) (data_size td - chunk_size td * i)"

definition piece_of :: "torrent_data \<Rightarrow> nat \<Rightarrow> nat" where
  "piece_of td i = chunk_size td * i div piece_size td"

definition piece_len :: "torrent_data \<Rightarrow> nat \<Rightarrow> nat" where
  "piece_len td p = min (piece_size td) (data_size td - piece_size td * p)"

lemma same_layout_facts:
  assumes "same_layout fs fs'"
  shows "laid_out off fs' = laid_out off fs" "files_end off fs' = files_end off fs"
proof -
  have m: "map file_offset fs' = map file_offset fs" "map file_size fs' = map file_size fs" "map file_path fs' = map file_path fs"
    using arg_cong [OF assms [unfolded same_layout_def], of "map fst"]
      arg_cong [OF assms [unfolded same_layout_def], of "map (fst \<circ> snd)"]
      arg_cong [OF assms [unfolded same_layout_def], of "map (snd \<circ> snd)"] by (simp_all add: comp_def)
  have lay: "laid_out off fs = laid_out off gs" if "map file_offset fs = map file_offset gs" "map file_size fs = map file_size gs"
      "map file_path fs = map file_path gs" for gs off and fs :: "torrent_data_file_info list"
    using that
  proof (induction fs arbitrary: gs off)
    case (Cons f fs)
    then obtain g gs' where g: "gs = g # gs'" by (cases gs) auto
    with Cons.prems have "file_path ` set fs = file_path ` set gs'" by (metis list.inject list.map(2) list.set_map)
    with g Cons show ?case by simp
  qed simp
  from m show "laid_out off fs' = laid_out off fs" by (intro lay)
  from m show "files_end off fs' = files_end off fs" by (simp add: files_end_def)
qed

definition sizes_of :: "torrent_data \<Rightarrow> nat \<times> nat \<times> nat" where
  "sizes_of td = (piece_size td, chunk_size td, data_size td)"

lemma store_piece_run:
  assumes good: "td_good td disk" and env: "env_good env"
    and p: "piece_size td * p < data_size td" "piece_len td p \<le> length piece"
    and info: "piece_offset pinfo = piece_size td * p" "info_piece_size pinfo = piece_len td p"
  shows "\<exists>td' disk'. store_piece env td disk pinfo piece = Some (True, td', disk')
    \<and> td_good td' disk' \<and> completed_pieces td' = completed_pieces td + 1
    \<and> claims td' = claims td \<and> claimed td' = claimed td \<and> completed td' = completed td \<and> same_layout (files td) (files td')
    \<and> sizes_of td' = sizes_of td \<and> wrote (piece_size td * p) (piece_len td p) piece 0 (files td) disk disk'"
proof -
  let ?pb = "piece_size td * p" and ?n = "piece_len td p"
  from good have g: "piece_size td < 2 ^ 31" "laid_out 0 (files td)" "data_size td \<le> files_end 0 (files td)"
    "files_end 0 (files td) < 2 ^ 63" "disk_opened (files td) disk"
    by (simp_all add: td_good_def geometry_def)
  have n: "?n < 2 ^ 31" "?pb + ?n \<le> data_size td" using g(1) p(1) by (auto simp: piece_len_def)
  have "\<exists>fs' disk'. write_files env ?pb ?n piece (files td) 0 disk = Some (True, ?n, fs', disk')
      \<and> same_layout (files td) fs' \<and> disk_opened fs' disk' \<and> wrote ?pb ?n piece 0 (files td) disk disk'"
    using env n p g by (intro write_files_run [of _ _ _ _ 0]) (auto simp: reached_def)
  then obtain fs' disk' where w: "write_files env ?pb ?n piece (files td) 0 disk = Some (True, ?n, fs', disk')"
    "same_layout (files td) fs'" "disk_opened fs' disk'" "wrote ?pb ?n piece 0 (files td) disk disk'" by blast
  define td' where "td' = td\<lparr>files := fs', completed_pieces := completed_pieces td + 1\<rparr>"
  have "store_piece env td disk pinfo piece = Some (True, if torrent_data_is_complete td' = 1 then td'\<lparr>needed := 0\<rparr> else td', disk')"
    using w(1) info by (simp add: store_piece_def td'_def Let_def)
  moreover have "td_good td' disk'"
    using good w(3) same_layout_facts [OF w(2)]
    by (simp add: td_good_def td'_def)
  moreover have "td_good (td'\<lparr>needed := 0\<rparr>) disk'"
    using good w(3) same_layout_facts [OF w(2)]
    by (simp add: td_good_def td'_def)
  ultimately show ?thesis using w(2,4) by (simp add: td'_def sizes_of_def)
qed

lemma claims_ok_mono: "claims_ok cl co cs \<Longrightarrow> (\<And>i. bf_bit co i \<Longrightarrow> bf_bit co' i) \<Longrightarrow> claims_ok cl co' cs"
  by (auto simp: claims_ok_def)

lemma mark_completed:
  assumes "td_good td disk" "completed td = Some co" "i < chunk_total td" "pieces td = Some hm"
    and "hm_wf hm'" "hm_lookup hm' = (hm_lookup hm)(key := None)"
  shows "\<exists>co'. bitfield_set_bit co (int i) 1 = Some co' \<and> bf_wf co'
    \<and> td_good (td\<lparr>pieces := Some hm', completed := Some co'\<rparr>) disk
    \<and> is_completed (td\<lparr>pieces := Some hm', completed := Some co'\<rparr>) = (is_completed td)(i := True)"
proof -
  from assms(1,2,4) obtain cl where td: "initialized td = 1" "claimed td = Some cl" "bf_wf cl" "bf_wf co"
    "bit_count co = bit_count cl" "claims_ok cl co (claims td)"
    by (auto simp: td_good_def td_ok_def)
  have i: "i < bit_count co" using assms(3) td(2,5) by (simp add: chunk_total_def)
  obtain co' where co': "bitfield_set_bit co (int i) 1 = Some co'" "bf_wf co'" "bit_count co' = bit_count co"
    "bf_bit co' = bf_put 1 i (bf_bit co)"
    using bf.set_in [OF td(4) i] by blast
  have "claims_ok cl co' (claims td)"
    by (rule claims_ok_mono [OF td(6)]) (simp add: co'(4) bf_put_def)
  then have "td_ok (td\<lparr>pieces := Some hm', completed := Some co'\<rparr>)"
    using td co' assms(5) by (simp add: td_ok_def)
  moreover have "\<forall>k p. hm_lookup hm' k = Some p \<longrightarrow> length p = piece_size td"
    using assms(1,4) unfolding assms(6) by (simp add: td_good_def)
  ultimately have "td_good (td\<lparr>pieces := Some hm', completed := Some co'\<rparr>) disk"
    using assms(1) by (simp add: td_good_def)
  with co' assms(2) show ?thesis by (auto simp: is_completed_def bf_put_def fun_eq_iff)
qed

lemma keep_piece_run:
  assumes "td_good td disk" "pieces td = Some hm" "hm_lookup hm key = None" "length piece = piece_size td"
  shows "\<exists>hm'. keep_piece True td key piece = Some (td\<lparr>pieces := Some hm'\<rparr>) \<and> td_good (td\<lparr>pieces := Some hm'\<rparr>) disk
    \<and> hm_lookup hm' = (hm_lookup hm)(key \<mapsto> piece)"
proof -
  have "hm_wf hm" using assms(1,2) by (auto simp: td_good_def td_ok_def)
  from hashmap_set_run [OF this assms(3), of piece] obtain hm' where
    hm': "hashmap_set True hm key piece = Some (EXIT_SUCCESS, hm')" "hm_wf hm'" "hm_lookup hm' = (hm_lookup hm)(key \<mapsto> piece)"
    by blast
  have "td_ok (td\<lparr>pieces := Some hm'\<rparr>)" using assms(1) hm'(2) by (auto simp: td_good_def td_ok_def)
  moreover have "\<forall>k p. hm_lookup hm' k = Some p \<longrightarrow> length p = piece_size td"
    using assms(1,2,4) unfolding hm'(3) by (simp add: td_good_def)
  ultimately have "td_good (td\<lparr>pieces := Some hm'\<rparr>) disk" using assms(1) by (simp add: td_good_def)
  with hm' assms(2) show ?thesis by (auto simp: keep_piece_def)
qed

lemma count_chunk_frame [simp]:
  "td_good (count_chunk ci td) disk = td_good td disk" "is_completed (count_chunk ci td) = is_completed td"
  "claims (count_chunk ci td) = claims td" "claimed (count_chunk ci td) = claimed td" "files (count_chunk ci td) = files td"
  "completed_pieces (count_chunk ci td) = completed_pieces td" "pieces (count_chunk ci td) = pieces td"
  by (simp_all add: count_chunk_def td_good_def is_completed_def fun_eq_iff)

text \<open>The piece of chunk \<open>i\<close> after the chunk has arrived.\<close>

definition assembled :: "torrent_data \<Rightarrow> nat \<Rightarrow> u8 list \<Rightarrow> u8 list" where
  "assembled td i dat = splice (case hm_lookup (the (pieces td)) (dec_int (int (piece_of td i))) of
       Some p \<Rightarrow> p | None \<Rightarrow> replicate (piece_size td) 0)
     (chunk_size td * i - piece_size td * piece_of td i) dat"

lemma piece_start:
  assumes "geometry td" "i < chunk_total td"
  shows "piece_size td * piece_of td i \<le> chunk_size td * i" "piece_size td * piece_of td i < data_size td"
    "piece_of td i < 10 ^ 8"
  using piece_of_offset [OF assms(1) chunk_start [OF assms]] chunk_start [OF assms]
  unfolding piece_of_def by linarith+

lemma write_chunk_refused:
  assumes "td_good td disk" "i < chunk_total td" "is_completed td i \<or> dsize \<noteq> chunk_len td i"
  shows "torrent_data_write_chunk env m1 m2 stack td disk (int i) dat dsize = Some (EXIT_FAILURE, td, disk)"
proof -
  from assms(1) have g: "geometry td" by (simp add: td_good_def)
  from assms(1) obtain cl co where td: "claimed td = Some cl" "completed td = Some co" "bf_wf co" "bit_count co = bit_count cl"
    by (auto simp: td_good_def elim: td_okE)
  have get: "bitfield_get_bit co (int i) = Some (of_bool (is_completed td i))"
    using bf.get_in [OF td(3), of i] assms(2) td by (simp add: chunk_total_def is_completed_def)
  note pinfo = get_piece_info_run [OF g piece_start(2) [OF g assms(2)], unfolded piece_of_def]
  show ?thesis
    using assms(3) td(2) get unfolding torrent_data_write_chunk_def get_chunk_info_run [OF g assms(2)]
    by (cases "is_completed td i") (auto simp: pinfo chunk_len_def)
qed

lemma is_piece_complete_frame [simp]:
  "torrent_data_is_piece_complete (td\<lparr>pieces := h\<rparr>) p = torrent_data_is_piece_complete td p"
  "torrent_data_is_piece_complete (td\<lparr>pieces := h, completed := c\<rparr>) p = torrent_data_is_piece_complete (td\<lparr>completed := c\<rparr>) p"
  "torrent_data_is_piece_complete (count_chunk ci td) p = torrent_data_is_piece_complete td p"
  by (simp_all add: torrent_data_is_piece_complete_def torrent_data_get_piece_info_def count_chunk_def Let_def)

text \<open>The way to the decision of \<open>torrent_data_write_chunk\<close>: nothing on it is undefined.\<close>

lemma write_chunk_body:
  assumes good: "td_good td disk" and env: "env_good env" and stack: "length stack = 64"
    and i: "i < chunk_total td" "\<not> is_completed td i" "length dat = chunk_len td i"
  defines "key \<equiv> dec_int (int (piece_of td i))" and "piece \<equiv> assembled td i dat"
  defines "ci \<equiv> \<lparr>chunk_id = int i, chunk_piece_id = int (piece_of td i), info_chunk_size = chunk_len td i, chunk_offset = chunk_size td * i\<rparr>"
  defines "pinfo \<equiv> \<lparr>piece_id = int (piece_of td i), info_piece_size = piece_len td (piece_of td i), piece_offset = piece_size td * piece_of td i\<rparr>"
  obtains hm' co' a b v where
    "td_good (td\<lparr>pieces := Some hm', completed := Some co'\<rparr>) disk"
    "is_completed (td\<lparr>pieces := Some hm', completed := Some co'\<rparr>) = (is_completed td)(i := True)"
    "bitfield_set_bit (the (completed td)) (int i) 1 = Some co'"
    "hm_lookup hm' key = None" "length piece = piece_size td"
    "torrent_data_is_piece_complete td (int (piece_of td i)) = Some a"
    "torrent_data_is_piece_complete (td\<lparr>completed := Some co'\<rparr>) (int (piece_of td i)) = Some b"
    "torrent_data_validate_piece stack td pinfo piece = Some v"
    "torrent_data_write_chunk env True True stack td disk (int i) dat (length dat) =
      (if b = 1 \<and> a = 0 \<and> v = EXIT_SUCCESS then
         do { (ok, td3, disk') \<leftarrow> store_piece env (td\<lparr>pieces := Some hm', completed := Some co'\<rparr>) disk pinfo piece;
              (if ok then Some (EXIT_SUCCESS, count_chunk ci td3, disk') else Some (EXIT_FAILURE, td3, disk')) }
       else do { td3 \<leftarrow> keep_piece True (td\<lparr>pieces := Some hm', completed := Some co'\<rparr>) key piece;
                 Some (EXIT_FAILURE, count_chunk ci td3, disk) })"
proof -
  let ?p = "piece_of td i" and ?key = key and ?piece = piece
  let ?ci = ci and ?pinfo = pinfo
  note abbr = key_def piece_def ci_def pinfo_def
  have sel: "chunk_piece_id ci = int ?p" "chunk_id ci = int i" "info_chunk_size ci = chunk_len td i" "piece_id pinfo = int ?p"
    by (simp_all add: ci_def pinfo_def)
  from good have g: "geometry td" by (simp add: td_good_def)
  have gs: "0 < chunk_size td" "piece_size td < 2 ^ 31" using g by (simp_all add: geometry_def)
  from good obtain cl co hm where td: "claimed td = Some cl" "completed td = Some co" "pieces td = Some hm"
    "bf_wf co" "bit_count co = bit_count cl" "hm_wf hm"
    by (auto simp: td_good_def elim: td_okE)
  have get: "bitfield_get_bit co (int i) = Some 0"
    using bf.get_in [OF td(4), of i] i td by (simp add: chunk_total_def is_completed_def)
  have ci: "torrent_data_get_chunk_info td (int i) = Some (EXIT_SUCCESS, Some ?ci)"
    using get_chunk_info_run [OF g i(1)] by (simp add: piece_of_def chunk_len_def ci_def)
  have pinfo: "torrent_data_get_piece_info td (int ?p) = (EXIT_SUCCESS, Some ?pinfo)"
    using get_piece_info_run [OF g piece_start(2) [OF g i(1)]] by (simp add: piece_len_def pinfo_def)
  have fits: "chunk_size td * i - piece_size td * ?p + chunk_len td i \<le> piece_size td"
    using chunk_in_piece [OF g, of i] by (simp add: piece_of_def chunk_len_def)
  have lens: "\<forall>k p. hm_lookup hm k = Some p \<longrightarrow> length p = piece_size td" using good td(3) by (simp add: td_good_def)
  obtain hm' where hm': "take_piece True td ?key ?ci ?pinfo dat = Some (?piece, td\<lparr>pieces := Some hm'\<rparr>)"
    "hm_wf hm'" "hm_lookup hm' = (hm_lookup hm)(?key := None)"
    using take_piece_run [OF td(3,6) lens, of ?ci ?pinfo dat ?key] fits piece_start(1) [OF g i(1)] gs(2) i(3) td(3)
    by (auto simp: assembled_def abbr)
  have plen: "length ?piece = piece_size td"
    using fits i(3) lens td(3) by (auto simp: assembled_def piece_def split: option.splits)
  have key: "length ?key < 10" using dec_nat_length [OF piece_start(3) [OF g i(1)]] by (simp add: dec_int_def key_def)
  obtain co' where co': "bitfield_set_bit co (int i) 1 = Some co'" "bf_wf co'"
    "td_good (td\<lparr>pieces := Some hm', completed := Some co'\<rparr>) disk"
    "is_completed (td\<lparr>pieces := Some hm', completed := Some co'\<rparr>) = (is_completed td)(i := True)"
    using mark_completed [OF good td(2) i(1) td(3) hm'(2,3)] by blast
  let ?td1 = "td\<lparr>pieces := Some hm'\<rparr>" and ?td2 = "td\<lparr>pieces := Some hm', completed := Some co'\<rparr>"
  have cpl: "\<exists>a. torrent_data_is_piece_complete ?td1 (int ?p) = Some a" "\<exists>b. torrent_data_is_piece_complete ?td2 (int ?p) = Some b"
    using is_piece_complete_run [of ?td1 ?p co] is_piece_complete_run [of ?td2 ?p co'] g td(2,4) co'(2) piece_start(2) [OF g i(1)]
    by auto
  then obtain a b where ab: "torrent_data_is_piece_complete ?td1 (int ?p) = Some a" "torrent_data_is_piece_complete ?td2 (int ?p) = Some b"
    by blast
  have val: "torrent_data_validate_piece stack ?td2 ?pinfo ?piece = torrent_data_validate_piece stack td ?pinfo ?piece"
    by (simp add: torrent_data_validate_piece_def Let_def split: option.split)
  obtain v where v: "torrent_data_validate_piece stack td ?pinfo ?piece = Some v"
    using validate_piece_run [of td stack ?p ?pinfo ?piece] good stack piece_start(3) [OF g i(1)] plen gs(2)
    by (auto simp: td_good_def piece_len_def pinfo_def)
  have body: "torrent_data_write_chunk env True True stack td disk (int i) dat (length dat) =
    (if b = 1 \<and> a = 0 \<and> v = EXIT_SUCCESS then
       do { (ok, td3, disk') \<leftarrow> store_piece env ?td2 disk ?pinfo ?piece;
            (if ok then Some (EXIT_SUCCESS, count_chunk ?ci td3, disk') else Some (EXIT_FAILURE, td3, disk')) }
     else do { td3 \<leftarrow> keep_piece True ?td2 ?key ?piece; Some (EXIT_FAILURE, count_chunk ?ci td3, disk) })"
    unfolding torrent_data_write_chunk_def using td(2) get ci pinfo i(3) key hm'(1) ab co'(1) val v
    by (simp add: Let_def sel key_def [symmetric])
  have same: "torrent_data_is_piece_complete ?td1 (int ?p) = torrent_data_is_piece_complete td (int ?p)"
    "torrent_data_is_piece_complete ?td2 (int ?p) = torrent_data_is_piece_complete (td\<lparr>completed := Some co'\<rparr>) (int ?p)"
    by simp_all
  show ?thesis
    by (rule that [OF co'(3,4) _ _ plen ab [unfolded same] v body]) (simp_all add: hm'(3) td(2) co'(1))
qed

lemma write_chunk_accepted:
  assumes good: "td_good td disk" and env: "env_good env" and stack: "length stack = 64"
    and i: "i < chunk_total td" "\<not> is_completed td i" "length dat = chunk_len td i"
  shows "\<exists>st td' disk'. torrent_data_write_chunk env True True stack td disk (int i) dat (length dat) = Some (st, td', disk')
    \<and> td_good td' disk' \<and> is_completed td' = (is_completed td)(i := True)
    \<and> claims td' = claims td \<and> claimed td' = claimed td \<and> same_layout (files td) (files td')
    \<and> sizes_of td' = sizes_of td \<and> completed td' = bitfield_set_bit (the (completed td)) (int i) 1
    \<and> (st = EXIT_SUCCESS \<and> completed_pieces td' = completed_pieces td + 1
         \<and> torrent_data_is_piece_complete td (int (piece_of td i)) = Some 0
         \<and> torrent_data_validate_piece stack td
             \<lparr>piece_id = int (piece_of td i), info_piece_size = piece_len td (piece_of td i), piece_offset = piece_size td * piece_of td i\<rparr>
             (assembled td i dat) = Some EXIT_SUCCESS
         \<and> wrote (piece_size td * piece_of td i) (piece_len td (piece_of td i)) (assembled td i dat) 0 (files td) disk disk'
       \<or> st = EXIT_FAILURE \<and> completed_pieces td' = completed_pieces td \<and> disk' = disk
         \<and> hm_lookup (the (pieces td')) (dec_int (int (piece_of td i))) = Some (assembled td i dat)
         \<and> (torrent_data_is_piece_complete td (int (piece_of td i)) \<noteq> Some 0
            \<or> torrent_data_is_piece_complete td' (int (piece_of td i)) \<noteq> Some 1
            \<or> torrent_data_validate_piece stack td
                \<lparr>piece_id = int (piece_of td i), info_piece_size = piece_len td (piece_of td i), piece_offset = piece_size td * piece_of td i\<rparr>
                (assembled td i dat) \<noteq> Some EXIT_SUCCESS))"
proof -
  let ?p = "piece_of td i"
  define key where "key = dec_int (int ?p)"
  define piece where "piece = assembled td i dat"
  define ci where "ci = \<lparr>chunk_id = int i, chunk_piece_id = int ?p, info_chunk_size = chunk_len td i, chunk_offset = chunk_size td * i\<rparr>"
  define pinfo where "pinfo = \<lparr>piece_id = int ?p, info_piece_size = piece_len td ?p, piece_offset = piece_size td * ?p\<rparr>"
  note g = good [unfolded td_good_def, THEN conjunct2, THEN conjunct1]
  obtain hm' co' a b v where co': "td_good (td\<lparr>pieces := Some hm', completed := Some co'\<rparr>) disk"
    "is_completed (td\<lparr>pieces := Some hm', completed := Some co'\<rparr>) = (is_completed td)(i := True)"
    and set_co: "bitfield_set_bit (the (completed td)) (int i) 1 = Some co'"
    and hm': "hm_lookup hm' key = None" and plen: "length piece = piece_size td"
    and ab: "torrent_data_is_piece_complete td (int ?p) = Some a"
      "torrent_data_is_piece_complete (td\<lparr>completed := Some co'\<rparr>) (int ?p) = Some b"
    and v: "torrent_data_validate_piece stack td pinfo piece = Some v"
    and body: "torrent_data_write_chunk env True True stack td disk (int i) dat (length dat) =
      (if b = 1 \<and> a = 0 \<and> v = EXIT_SUCCESS then
         do { (ok, td3, disk') \<leftarrow> store_piece env (td\<lparr>pieces := Some hm', completed := Some co'\<rparr>) disk pinfo piece;
              (if ok then Some (EXIT_SUCCESS, count_chunk ci td3, disk') else Some (EXIT_FAILURE, td3, disk')) }
       else do { td3 \<leftarrow> keep_piece True (td\<lparr>pieces := Some hm', completed := Some co'\<rparr>) key piece;
                 Some (EXIT_FAILURE, count_chunk ci td3, disk) })"
    by (rule write_chunk_body [OF assms, folded key_def piece_def ci_def pinfo_def])
  let ?td2 = "td\<lparr>pieces := Some hm', completed := Some co'\<rparr>"
  show ?thesis
  proof (cases "b = 1 \<and> a = 0 \<and> v = EXIT_SUCCESS")
    case True
    have "\<exists>td' disk'. store_piece env ?td2 disk pinfo piece = Some (True, td', disk')
      \<and> td_good td' disk' \<and> completed_pieces td' = completed_pieces ?td2 + 1
      \<and> claims td' = claims ?td2 \<and> claimed td' = claimed ?td2 \<and> completed td' = completed ?td2 \<and> same_layout (files ?td2) (files td')
      \<and> sizes_of td' = sizes_of ?td2 \<and> wrote (piece_size ?td2 * ?p) (piece_len ?td2 ?p) piece 0 (files ?td2) disk disk'"
      using co'(1) env piece_start(2) [OF g i(1)] plen by (intro store_piece_run) (auto simp: piece_len_def pinfo_def)
    then obtain td' disk' where st: "store_piece env ?td2 disk pinfo piece = Some (True, td', disk')" "td_good td' disk'"
      "completed_pieces td' = completed_pieces td + 1" "claims td' = claims td" "claimed td' = claimed td"
      "completed td' = Some co'" "same_layout (files td) (files td')" "sizes_of td' = sizes_of td"
      "wrote (piece_size td * ?p) (piece_len td ?p) piece 0 (files td) disk disk'"
      by (auto simp: piece_len_def sizes_of_def)
    have "is_completed td' = (is_completed td)(i := True)"
      using co'(2) st(6) by (simp add: is_completed_def fun_eq_iff)
    with st True body v ab(1) set_co show ?thesis
      by (simp add: key_def piece_def pinfo_def sizes_of_def) (simp add: count_chunk_def)
  next
    case False
    obtain hm'' where k: "keep_piece True ?td2 key piece = Some (?td2\<lparr>pieces := Some hm''\<rparr>)"
      "td_good (?td2\<lparr>pieces := Some hm''\<rparr>) disk" "hm_lookup hm'' = (hm_lookup hm')(key \<mapsto> piece)"
      using keep_piece_run [OF co'(1), of hm' key piece] plen hm' by auto
    have "is_completed (?td2\<lparr>pieces := Some hm''\<rparr>) = (is_completed td)(i := True)"
      using co'(2) by (simp add: is_completed_def fun_eq_iff)
    moreover have "torrent_data_is_piece_complete (?td2\<lparr>pieces := Some hm''\<rparr>) (int ?p) = Some b" using ab(2) by simp
    ultimately show ?thesis
      using k(2,3) False ab(1) v set_co unfolding body if_not_P [OF False] k(1)
      by (simp add: same_layout_def key_def piece_def pinfo_def sizes_of_def) (simp add: count_chunk_def)
  qed
qed

subsection \<open>Reading back\<close>

lemma same_layout_byte_at: "same_layout fs fs' \<Longrightarrow> byte_at fs' disk p = byte_at fs disk p"
proof (induction fs arbitrary: fs')
  case (Cons f fs)
  then obtain f' gs where "fs' = f' # gs" "same_layout fs gs" "file_offset f' = file_offset f" "file_size f' = file_size f"
    "file_path f' = file_path f" by (cases fs') (auto simp: same_layout_def)
  with Cons.IH [of gs] show ?case by (cases "disk (file_path f)") auto
qed (simp add: same_layout_def)

lemma same_layout_ex:
  assumes "same_layout fs fs'" "f' \<in> set fs'"
  shows "\<exists>f \<in> set fs. file_offset f = file_offset f' \<and> file_size f = file_size f' \<and> file_path f = file_path f'"
  using assms
proof (induction fs arbitrary: fs')
  case (Cons f fs)
  then obtain g gs where "fs' = g # gs" "same_layout fs gs" "file_offset g = file_offset f" "file_size g = file_size f"
    "file_path g = file_path f" by (cases fs') (auto simp: same_layout_def)
  with Cons show ?case by auto
qed (simp add: same_layout_def)

lemma wrote_stored:
  assumes "wrote pb n piece 0 fs disk disk'" "same_layout fs fs'" "0 < n"
  shows "stored pb n (\<lambda>p. piece ! (p - pb)) fs' disk'"
  unfolding stored_def
proof (intro conjI allI impI ballI)
  fix p assume "pb \<le> p" "p < pb + n"
  then show "byte_at fs' disk' p = Some (piece ! (p - pb))"
    using assms(1) by (simp add: wrote_def same_layout_byte_at [OF assms(2)])
next
  fix f' assume "f' \<in> set fs'" "pb \<le> file_offset f' + file_size f'" "file_offset f' < pb + n"
  moreover from same_layout_ex [OF assms(2) this(1)] obtain f where "f \<in> set fs" "file_offset f = file_offset f'"
    "file_size f = file_size f'" "file_path f = file_path f'" by blast
  ultimately show "disk' (file_path f') \<noteq> None" using assms(1,3) by (simp add: wrote_def) metis
qed

lemma read_data_step:
  assumes good: "td_good td disk" and env: "env_good env"
    and off: "piece_size td * p \<le> off" "off < piece_size td * p + piece_len td p"
    and st: "stored (piece_size td * p) (piece_len td p) g (files td) disk"
    and out: "length out < len" "len < 2 ^ 31"
  shows "read_data_loop (Suc fuel) env td disk off len out = read_data_loop fuel env td disk off len
    (out @ map g [off..<off + min (piece_size td * p + piece_len td p - off) (len - length out)])"
proof -
  let ?pb = "piece_size td * p" and ?n = "piece_len td p"
  from good have g: "geometry td" "laid_out 0 (files td)" "data_size td \<le> files_end 0 (files td)" "files_end 0 (files td) < 2 ^ 63"
    by (simp_all add: td_good_def)
  have gs: "0 < piece_size td" "piece_size td < 2 ^ 31" using g(1) unfolding geometry_def by blast+
  have lt: "?pb < data_size td" using off by (simp add: piece_len_def)
  have n: "?pb + ?n \<le> data_size td" "?n \<le> piece_size td" using lt by (auto simp: piece_len_def)
  have p: "off div piece_size td = p"
    using off n(2) by (intro div_nat_eqI) (simp_all add: mult.commute)
  have "p < 10 ^ 8" using piece_of_offset(1) [OF g(1), of off] off n(1) p by simp
  then have "int32_of (int p) = int p" by (simp add: int32_of_nat)
  then have pinfo: "torrent_data_get_piece_info td (int32_of (int (off div piece_size td))) = (EXIT_SUCCESS, Some
    \<lparr>piece_id = int p, info_piece_size = ?n, piece_offset = ?pb\<rparr>)"
    using get_piece_info_run [OF g(1) lt] p by (simp add: piece_len_def)
  have buf: "read_files env ?pb ?n (files td) disk [] = Some (True, map g [?pb..<?pb + ?n])"
    using read_files_run [of env ?n ?pb 0 "files td" "[]" disk g] env g n gs st by (simp add: stored_def reached_def)
  define rel where "rel = off - ?pb"
  define m where "m = min (?pb + ?n - off) (len - length out)"
  have rel: "rel + m \<le> ?n" "int32_of (int off - int ?pb) = int rel" "size_t_of (int ?n - int rel) = ?pb + ?n - off"
  proof -
    show "rel + m \<le> ?n" using off by (simp add: rel_def m_def)
    have "rel < 2 ^ 31" using off n(2) gs(2) unfolding rel_def by linarith
    moreover have "int off - int ?pb = int rel" using off(1) by (simp add: rel_def)
    ultimately show "int32_of (int off - int ?pb) = int rel" by (simp only: int32_of_nat)
    have "int ?n - int rel = int (?pb + ?n - off)" using off by (simp add: rel_def)
    moreover have "?pb + ?n - off < 2 ^ 64" using n g(3,4) by simp
    ultimately show "size_t_of (int ?n - int rel) = ?pb + ?n - off" by (simp only: size_t_of_nat)
  qed
  have m: "int32_of (int (min (?pb + ?n - off) (size_sub len (length out)))) = int m"
  proof -
    have "size_sub len (length out) = len - length out" using out by (intro size_sub_id) auto
    moreover have "m < 2 ^ 31" using out by (simp add: m_def)
    ultimately show ?thesis unfolding m_def by (simp only: int32_of_nat)
  qed
  have "take m (drop rel (map g [?pb..<?pb + ?n] @ [0])) = map g [off..<off + m]"
    using rel(1) off by (intro nth_equalityI) (auto simp: nth_append rel_def)
  then show ?thesis
    unfolding m_def [symmetric] using out(1) gs(1) pinfo buf rel m by (simp add: Let_def)
qed

subsection \<open>Whole histories\<close>

text \<open>The operations the peers and the main loop apply to the shared download state, in any order.\<close>

inductive td_reach :: "disk_env \<Rightarrow> torrent_data \<times> disk \<Rightarrow> torrent_data \<times> disk \<Rightarrow> bool" for env where
  td_start: "td_reach env s s"
| td_claim: "td_reach env s (td, disk) \<Longrightarrow> bf_wf w \<Longrightarrow> chunk_total td \<le> bit_count w \<Longrightarrow> timeout \<noteq> 0 \<Longrightarrow>
    int32_of (timeout * 1000) = timeout * 1000 \<Longrightarrow> n \<le> length out \<Longrightarrow>
    torrent_data_claim_chunk True clock td w timeout (int n) out = Some (st, td', out') \<Longrightarrow> td_reach env s (td', disk)"
| td_release: "td_reach env s (td, disk) \<Longrightarrow>
    torrent_data_release_expired_claims clock td = Some (st', td') \<Longrightarrow> td_reach env s (td', disk)"
| td_write: "td_reach env s (td, disk) \<Longrightarrow> length stack = 64 \<Longrightarrow> i < chunk_total td \<Longrightarrow>
    torrent_data_write_chunk env True True stack td disk (int i) dat (length dat) = Some (st, td', disk') \<Longrightarrow>
    td_reach env s (td', disk')"

lemma td_good_claims:
  assumes "td_good td disk" "td_ok (td\<lparr>claimed := Some cl, claims := cs\<rparr>)" "bit_count cl = chunk_total td"
  shows "td_good (td\<lparr>claimed := Some cl, claims := cs\<rparr>) disk"
  using assms by (auto simp: td_good_def geometry_def chunk_total_def hashes_ok_def split: option.splits)

lemma td_good_claim:
  assumes "td_good td disk" "bf_wf w" "chunk_total td \<le> bit_count w" "timeout \<noteq> 0"
    "int32_of (timeout * 1000) = timeout * 1000" "n \<le> length out"
    "torrent_data_claim_chunk True clock td w timeout (int n) out = Some (st, td', out')"
  shows "td_good td' disk"
proof -
  have ok: "td_ok td" using assms(1) by (simp add: td_good_def)
  let ?ids = "take n (available td w)"
  have "claim_result clock timeout td ?ids out (td', ?ids \<noteq> [], map int ?ids @ drop (length ?ids) out)"
    using claim_chunk_run [OF ok assms(2-6), of clock] assms(7) by auto
  moreover from this obtain cl' where "td' = td\<lparr>claimed := Some cl', claims := new_claims clock timeout ?ids @ claims td\<rparr>"
    "bit_count cl' = chunk_total td" by (auto simp: claim_result_def)
  ultimately show ?thesis using td_good_claims [OF assms(1)] claim_result_ok [OF ok] by blast
qed

lemma td_good_release:
  assumes "td_good td disk" "torrent_data_release_expired_claims clock td = Some (st, td')"
  shows "td_good td' disk"
proof -
  have ok: "td_ok td" using assms(1) by (simp add: td_good_def)
  obtain cl' where r: "td' = td\<lparr>claims := kept_claims clock 0 (claims td), claimed := Some cl'\<rparr>"
    "td_ok (td\<lparr>claims := kept_claims clock 0 (claims td), claimed := Some cl'\<rparr>)" "bit_count cl' = chunk_total td"
    using release_run [OF ok, of clock] assms(2) by auto
  have e: "td\<lparr>claims := kept_claims clock 0 (claims td), claimed := Some cl'\<rparr>
      = td\<lparr>claimed := Some cl', claims := kept_claims clock 0 (claims td)\<rparr>" by simp
  show ?thesis using td_good_claims [OF assms(1)] r unfolding e by blast
qed

lemma td_good_write:
  assumes "td_good td disk" "env_good env" "length stack = 64" "i < chunk_total td"
    "torrent_data_write_chunk env True True stack td disk (int i) dat (length dat) = Some (st, td', disk')"
  shows "td_good td' disk'"
proof (cases "is_completed td i \<or> length dat \<noteq> chunk_len td i")
  case True
  with write_chunk_refused [OF assms(1,4)] assms(1,5) show ?thesis by auto
next
  case False
  with write_chunk_accepted [OF assms(1,2,3,4)] assms(5) show ?thesis by fastforce
qed

lemma td_reach_good: "td_reach env s t \<Longrightarrow> env_good env \<Longrightarrow> td_good (fst s) (snd s) \<Longrightarrow> td_good (fst t) (snd t)"
  by (induction rule: td_reach.induct) (auto intro: td_good_claim td_good_release td_good_write)

subsection \<open>When a piece is complete\<close>

text \<open>The bits behind the last chunk are set when the bitfield is made, and stay set.\<close>

definition padding_set :: "bitfield \<Rightarrow> bool" where
  "padding_set c \<longleftrightarrow> (\<forall>i. bit_count c \<le> i \<longrightarrow> i < 8 * bytes_count c \<longrightarrow> bf_bit c i)"

lemma byte_full_iff: "(b :: u8) = 0xFF \<longleftrightarrow> (\<forall>k < 8. bit b (7 - k))"
proof
  assume "b = 0xFF"
  moreover have "(0xFF :: u8) = mask 8" by (simp add: mask_numeral)
  ultimately have "b = mask 8" by (simp only:)
  then show "\<forall>k < 8. bit b (7 - k)" by (simp only: bit_mask_iff) auto
next
  assume *: "\<forall>k < 8. bit b (7 - k)"
  have m: "(0xFF :: u8) = mask 8" by (simp add: mask_numeral)
  show "b = 0xFF"
    unfolding m
  proof (rule bit_word_eqI)
    fix n assume n: "n < LENGTH(8)"
    then have "bit b n" using * [rule_format, of "7 - n"] by simp
    with n show "bit b n = bit (mask 8 :: u8) n" by (simp add: bit_mask_iff)
  qed
qed

lemma byte_full_bits:
  assumes "k < length (bytes c)"
  shows "bytes c ! k = 0xFF \<longleftrightarrow> (\<forall>i. 8 * k \<le> i \<longrightarrow> i < 8 * k + 8 \<longrightarrow> bf_bit c i)"
proof -
  have "bf_bit c (8 * k + b) = bit (bytes c ! k) (7 - b)" if "b < 8" for b
    using that by (simp add: bf_bit_def)
  then have "bytes c ! k = 0xFF \<longleftrightarrow> (\<forall>b < 8. bf_bit c (8 * k + b))" unfolding byte_full_iff by simp
  also have "\<dots> \<longleftrightarrow> (\<forall>i. 8 * k \<le> i \<longrightarrow> i < 8 * k + 8 \<longrightarrow> bf_bit c i)"
    by (metis le_add_diff_inverse less_add_eq_less add_less_cancel_left le_add1)
  finally show ?thesis .
qed

lemma piece_complete_iff:
  assumes g: "geometry td" and p: "piece_size td * p < data_size td"
    and co: "completed td = Some co" "bf_wf co" "bit_count co = chunk_total td" "padding_set co"
    and eight: "8 dvd piece_size td div chunk_size td"
  shows "torrent_data_is_piece_complete td (int p)
    = Some (of_bool (\<forall>i < chunk_total td. piece_of td i = p \<longrightarrow> is_completed td i))"
proof -
  let ?u = "piece_uints td" and ?n = "chunk_total td"
  define cpp where "cpp = piece_size td div chunk_size td"
  have c: "0 < chunk_size td" "chunk_size td dvd piece_size td" "0 < piece_size td" using g unfolding geometry_def by blast+
  have ps: "piece_size td = chunk_size td * cpp" "cpp = ?u * 8"
    using c(2) eight by (simp_all add: cpp_def piece_uints_def)
  have cpp: "0 < cpp" using ps(1) c(3) by (cases cpp) auto
  have of: "piece_of td i = i div cpp" for i unfolding piece_of_def ps(1) using c(1) by simp
  have bc: "bytes_count co = (?n + 7) div 8" "length (bytes co) = bytes_count co" using co(2,3) by (simp_all add: bf_wf_def)
  have "(\<forall>j < ?u. p * ?u + j < bytes_count co \<longrightarrow> bytes co ! (p * ?u + j) = 0xFF) \<longleftrightarrow>
      (\<forall>i < ?n. i div cpp = p \<longrightarrow> bf_bit co i)"
  proof
    assume full: "\<forall>j < ?u. p * ?u + j < bytes_count co \<longrightarrow> bytes co ! (p * ?u + j) = 0xFF"
    show "\<forall>i < ?n. i div cpp = p \<longrightarrow> bf_bit co i"
    proof (intro allI impI)
      fix i assume i: "i < ?n" "i div cpp = p"
      have "p * cpp \<le> i" "i < p * cpp + cpp"
        using i(2) cpp div_times_less_eq_dividend [of i cpp] dividend_less_div_times [of cpp i] by auto
      then have j: "p * ?u \<le> i div 8" "i div 8 < p * ?u + ?u"
        unfolding ps(2) by (simp_all add: less_eq_div_iff_mult_less_eq less_mult_imp_div_less algebra_simps)
      have b: "i div 8 < bytes_count co" using i(1) bc by (auto simp: less_eq_div_iff_mult_less_eq)
      have "bytes co ! (i div 8) = 0xFF" using full [rule_format, of "i div 8 - p * ?u"] j b by simp
      then show "bf_bit co i" using byte_full_bits [of "i div 8" co] b bc(2) by simp
    qed
  next
    assume bits: "\<forall>i < ?n. i div cpp = p \<longrightarrow> bf_bit co i"
    show "\<forall>j < ?u. p * ?u + j < bytes_count co \<longrightarrow> bytes co ! (p * ?u + j) = 0xFF"
    proof (intro allI impI)
      fix j assume j: "j < ?u" "p * ?u + j < bytes_count co"
      let ?k = "p * ?u + j"
      have "bf_bit co i" if i: "8 * ?k \<le> i" "i < 8 * ?k + 8" for i
      proof (cases "i < ?n")
        case True
        have "8 * j + 8 \<le> 8 * ?u" using j(1) by simp
        then have "p * cpp \<le> i" "i < p * cpp + cpp" using i unfolding ps(2) by (simp_all add: algebra_simps)
        then have "i div cpp = p" by (intro div_nat_eqI) (simp_all add: mult.commute)
        with True bits show ?thesis by simp
      next
        case False
        moreover have "i < 8 * bytes_count co" using i(2) j(2) by simp
        ultimately show ?thesis using co(3,4) by (simp add: padding_set_def)
      qed
      then show "bytes co ! ?k = 0xFF" using byte_full_bits [of ?k co] j(2) bc(2) by simp
    qed
  qed
  then show ?thesis
    using is_piece_complete_run [OF g p co(1,2)] by (simp add: of is_completed_def co(1))
qed

lemma padding_set_set_bit:
  assumes "padding_set co" "bf_wf co" "i < bit_count co" "bitfield_set_bit co (int i) 1 = Some co'"
  shows "padding_set co'"
proof -
  obtain b where b: "bitfield_set_bit co (int i) 1 = Some b" "bit_count b = bit_count co" "bytes_count b = bytes_count co"
    "bf_bit b = bf_put 1 i (bf_bit co)"
    using bitfield_set_bit_run [OF assms(2,3), of 1] by blast
  with assms show ?thesis by (auto simp: padding_set_def bf_put_def)
qed

subsection \<open>Properties\<close>

text \<open>
  C25: the chunks tile the data inside the pieces. For every chunk number below the chunk count, the
  chunk starts where the previous one ends, is not empty, ends at the next multiple of the chunk
  size or at the end of the data, and lies inside the piece whose number is recorded with it.
\<close>

theorem chunk_geometry:
  assumes "geometry td" "i < chunk_total td"
  shows "\<exists>ci pinfo. torrent_data_get_chunk_info td (int i) = Some (EXIT_SUCCESS, Some ci)
    \<and> torrent_data_get_piece_info td (chunk_piece_id ci) = (EXIT_SUCCESS, Some pinfo)
    \<and> chunk_offset ci = chunk_size td * i \<and> 0 < info_chunk_size ci
    \<and> chunk_offset ci + info_chunk_size ci = min (chunk_size td * (i + 1)) (data_size td)
    \<and> piece_offset pinfo \<le> chunk_offset ci
    \<and> chunk_offset ci + info_chunk_size ci \<le> piece_offset pinfo + info_piece_size pinfo"
proof -
  note lt = chunk_start [OF assms] and ps = piece_start [OF assms]
  have c: "0 < chunk_size td" using assms(1) by (simp add: geometry_def)
  have "chunk_size td * i + chunk_size td \<le> piece_size td * piece_of td i + piece_size td"
    using chunk_in_piece [OF assms(1), of i] ps(1) by (simp add: piece_of_def)
  with lt c show ?thesis
    unfolding get_chunk_info_run [OF assms]
    using get_piece_info_run [OF assms(1) ps(2)] ps(1) by (auto simp: piece_of_def min_def)
qed

definition demo_files :: "torrent_data_file_info list" where
  "demo_files = [\<lparr>fp_open = False, file_path = ''/d/a'', file_offset = 0, file_size = 10\<rparr>,
     \<lparr>fp_open = False, file_path = ''/d/b'', file_offset = 10, file_size = 4\<rparr>]"

definition demo_env :: disk_env where
  "demo_env = \<lparr>mkdir_fails = (\<lambda>p. False), create_ok = (\<lambda>p. True), open_ok = (\<lambda>p. True), accepts = (\<lambda>p n. n)\<rparr>"

definition demo_dl :: torrent_data where
  "demo_dl = demo_td\<lparr>files := demo_files, claimed := Some (demo_bits 0xFF), completed := Some (demo_bits 0xEF),
     claims := [\<lparr>deadline = 50, claim_chunk_id = 3\<rparr>]\<rparr>"

lemma demo_env_good: "env_good demo_env"
  by (simp add: env_good_def demo_env_def)

lemma demo_dl_bits:
  "bf_bit (demo_bits 0xFF) i" "bf_bit (demo_bits 0xEF) i = (i \<noteq> 3)" if "i < 8"
proof -
  have m: "(0xFF :: u8) = mask 8" by (simp add: mask_numeral)
  have "bit (0xFF :: u8) n" if "n < 8" for n unfolding m using that by (simp add: bit_mask_iff)
  moreover have "bit (0xEF :: u8) n = (n \<noteq> 4)" if "n < 8" for n
  proof -
    have "n = 0 \<or> n = 1 \<or> n = 2 \<or> n = 3 \<or> n = 4 \<or> n = 5 \<or> n = 6 \<or> n = 7" using that by linarith
    then show ?thesis by (elim disjE) (simp_all add: bit_numeral_word_iff)
  qed
  ultimately show "bf_bit (demo_bits 0xFF) i" "bf_bit (demo_bits 0xEF) i = (i \<noteq> 3)"
    using that by (auto simp: bf_bit_def demo_bits_def)
qed

lemma demo_dl_facts:
  "chunk_total demo_dl = 4" "geometry demo_dl" "is_completed demo_dl 3 = False" "chunk_len demo_dl 3 = 2"
  "piece_of demo_dl i = i div 8" "piece_size demo_dl = 32" "piece_len demo_dl 0 = 14" "sha1_hashes demo_dl = None"
  by (simp_all add: chunk_total_def geometry_def is_completed_def chunk_len_def piece_of_def piece_len_def
      demo_dl_def demo_td_def demo_dl_bits)

lemma empty_map_lookup: "hm_lookup \<lparr>max_buckets = 1, buckets = [[]]\<rparr> k = None"
  by (auto simp: hm_lookup_def bucket_index_def Let_def u32_of_def split: bind_splits if_splits)

lemma demo_dl_good: "td_good demo_dl Map.empty"
proof -
  have "hm_wf (\<lparr>max_buckets = 1, buckets = [[]]\<rparr> :: u8 list hash_map)" by (simp add: hm_wf_def)
  then have "td_ok demo_dl"
    by (auto simp: td_ok_def demo_dl_def demo_td_def claims_ok_def demo_dl_bits hashmap_new_def)
  moreover have "\<forall>hm k p. pieces demo_dl = Some hm \<longrightarrow> hm_lookup hm k = Some p \<longrightarrow> length p = piece_size demo_dl"
    by (simp add: demo_dl_def demo_td_def hashmap_new_def empty_map_lookup)
  ultimately show ?thesis
    by (simp add: td_good_def demo_dl_facts hashes_ok_def) (simp add: demo_dl_def demo_td_def demo_files_def disk_opened_def)
qed

theorem chunk_geometry_witness:
  "\<exists>ci pinfo. torrent_data_get_chunk_info demo_dl 3 = Some (EXIT_SUCCESS, Some ci)
    \<and> torrent_data_get_piece_info demo_dl (chunk_piece_id ci) = (EXIT_SUCCESS, Some pinfo)
    \<and> chunk_offset ci + info_chunk_size ci = 14"
proof -
  have "chunk_size demo_dl = 4" "data_size demo_dl = 14" by (simp_all add: demo_dl_def demo_td_def)
  then show ?thesis using chunk_geometry [OF demo_dl_facts(2), of 3] by (auto simp: demo_dl_facts(1))
qed

text \<open>
  \<open>torrent_data_is_piece_complete\<close>, which looks at whole bytes of the \<open>completed\<close> bitfield, is
  correct when the chunks of a piece fill whole bytes: it returns 1 exactly when every chunk of the
  piece is completed, also for the shorter last piece.
\<close>

theorem piece_complete_correct:
  assumes "geometry td" "piece_size td * p < data_size td" "completed td = Some co" "bf_wf co"
    "bit_count co = chunk_total td" "padding_set co" "8 dvd piece_size td div chunk_size td"
  shows "torrent_data_is_piece_complete td (int p)
    = Some (of_bool (\<forall>i < chunk_total td. piece_of td i = p \<longrightarrow> is_completed td i))"
  using assms by (rule piece_complete_iff)

lemma demo_dl_padding: "padding_set (demo_bits 0xEF)" "completed demo_dl = Some (demo_bits 0xEF)"
  using demo_dl_bits by (auto simp: padding_set_def demo_dl_def) (auto simp: demo_bits_def)

theorem piece_complete_correct_witness:
  "torrent_data_is_piece_complete demo_dl 0 = Some 0"
proof -
  have "\<not> (\<forall>i < chunk_total demo_dl. piece_of demo_dl i = 0 \<longrightarrow> is_completed demo_dl i)"
    using demo_dl_facts(1,3,5) by (auto intro!: exI [of _ 3])
  moreover have "data_size demo_dl = 14" "chunk_size demo_dl = 4" by (simp_all add: demo_dl_def demo_td_def)
  ultimately show ?thesis
    using piece_complete_correct [OF demo_dl_facts(2) _ demo_dl_padding(2) demo_bits_wf(1) _ demo_dl_padding(1), of 0]
    by (simp add: demo_dl_facts)
qed

text \<open>
  C26: with fewer than eight chunks in a piece the byte test is vacuous, and no piece is ever stored:
  an acceptable chunk is marked completed and kept in memory, the call fails and neither the disk nor
  the count of completed pieces changes, whatever has arrived before.
\<close>

theorem small_pieces_never_stored:
  assumes "td_good td disk" "env_good env" "length stack = 64" "i < chunk_total td" "\<not> is_completed td i"
    "length dat = chunk_len td i" "piece_size td < 8 * chunk_size td"
  shows "\<exists>td'. torrent_data_write_chunk env True True stack td disk (int i) dat (length dat) = Some (EXIT_FAILURE, td', disk)
    \<and> is_completed td' i \<and> completed_pieces td' = completed_pieces td"
proof -
  have g: "geometry td" using assms(1) by (simp add: td_good_def)
  obtain co where "completed td = Some co" "bf_wf co" using assms(1) by (auto simp: td_good_def elim: td_okE)
  moreover have "piece_uints td = 0" using assms(7) by (simp add: piece_uints_def less_mult_imp_div_less)
  ultimately have "torrent_data_is_piece_complete td (int (piece_of td i)) = Some 1"
    using is_piece_complete_run [OF g piece_start(2) [OF g assms(4)]] by simp
  then show ?thesis using write_chunk_accepted [OF assms(1-6)] by fastforce
qed

definition demo_small :: torrent_data where
  "demo_small = demo_dl\<lparr>piece_size := 16\<rparr>"

theorem small_pieces_never_stored_witness:
  "\<exists>td'. torrent_data_write_chunk demo_env True True (replicate 64 0) demo_small Map.empty 3 [8, 9] 2
      = Some (EXIT_FAILURE, td', Map.empty) \<and> is_completed td' 3"
proof -
  have "hm_wf (\<lparr>max_buckets = 1, buckets = [[]]\<rparr> :: u8 list hash_map)" by (simp add: hm_wf_def)
  then have "td_ok demo_small"
    by (auto simp: td_ok_def demo_small_def demo_dl_def demo_td_def claims_ok_def demo_dl_bits hashmap_new_def)
  moreover have "\<forall>hm k p. pieces demo_small = Some hm \<longrightarrow> hm_lookup hm k = Some p \<longrightarrow> length p = piece_size demo_small"
    by (simp add: demo_small_def demo_dl_def demo_td_def hashmap_new_def empty_map_lookup)
  ultimately have "td_good demo_small Map.empty"
    by (simp add: td_good_def hashes_ok_def geometry_def chunk_total_def)
      (simp add: demo_small_def demo_dl_def demo_td_def demo_files_def disk_opened_def)
  moreover have "chunk_total demo_small = 4" "\<not> is_completed demo_small 3" "chunk_len demo_small 3 = 2"
    "piece_size demo_small = 16" "chunk_size demo_small = 4"
    by (simp_all add: demo_small_def demo_dl_def demo_td_def chunk_total_def is_completed_def chunk_len_def demo_dl_bits)
  ultimately show ?thesis
    using small_pieces_never_stored [OF _ demo_env_good, of demo_small Map.empty "replicate 64 0" 3 "[8, 9]"] by (auto simp: numeral_2_eq_2)
qed

lemma piece_complete_good:
  assumes "td_good td disk" "8 dvd piece_size td div chunk_size td" "padding_set (the (completed td))"
    "piece_size td * p < data_size td"
  shows "torrent_data_is_piece_complete td (int p)
    = Some (of_bool (\<forall>i < chunk_total td. piece_of td i = p \<longrightarrow> is_completed td i))"
proof -
  obtain cl co where "claimed td = Some cl" "completed td = Some co" "bf_wf co" "bit_count co = bit_count cl"
    using assms(1) by (auto simp: td_good_def elim: td_okE)
  then show ?thesis
    using assms by (intro piece_complete_iff) (auto simp: td_good_def chunk_total_def)
qed

lemma padding_good:
  assumes "td_good td disk" "i < chunk_total td" "padding_set (the (completed td))"
    "completed td' = bitfield_set_bit (the (completed td)) (int i) 1"
  shows "padding_set (the (completed td'))"
proof -
  obtain cl co where co: "claimed td = Some cl" "completed td = Some co" "bf_wf co" "bit_count co = bit_count cl"
    using assms(1) by (auto simp: td_good_def elim: td_okE)
  obtain co' where "bitfield_set_bit co (int i) 1 = Some co'"
    using bf.set_in [OF co(3), of i 1] assms(2) co by (auto simp: chunk_total_def)
  with padding_set_set_bit [of co i co'] co assms show ?thesis by (simp add: chunk_total_def)
qed

lemma read_stored_piece:
  assumes "td_good td disk" "env_good env" "wrote (piece_size td * p) (piece_len td p) piece 0 fs disk0 disk"
    "same_layout fs (files td)" "piece_len td p \<le> length piece"
    "0 < len" "piece_size td * p \<le> off" "off + len \<le> piece_size td * p + piece_len td p"
  shows "torrent_data_read_data 1 env td disk off len = Some (EXIT_SUCCESS, take len (drop (off - piece_size td * p) piece))"
proof -
  let ?pb = "piece_size td * p" and ?g = "\<lambda>q. piece ! (q - piece_size td * p)"
  have st: "stored ?pb (piece_len td p) ?g (files td) disk"
    using assms(3,4,6,7,8) by (intro wrote_stored) auto
  have len: "len < 2 ^ 31"
    using assms(1,7,8) unfolding td_good_def geometry_def piece_len_def by linarith
  have m: "min (?pb + piece_len td p - off) len = len" using assms(8) by simp
  have "read_data_loop (Suc 0) env td disk off len [] = read_data_loop 0 env td disk off len (map ?g [off..<off + len])"
    using read_data_step [OF assms(1,2,7) _ st, of "[]" len 0] m assms(6,8) len
    by (simp del: read_data_loop.simps)
  then have "torrent_data_read_data 1 env td disk off len = Some (EXIT_SUCCESS, map ?g [off..<off + len])"
    by (simp add: torrent_data_read_data_def del: read_data_loop.simps(2))
  moreover have "map ?g [off..<off + len] = take len (drop (off - ?pb) piece)"
    using assms(5,7,8) by (intro nth_equalityI) auto
  ultimately show ?thesis by simp
qed

lemma assembled_length:
  assumes "td_good td disk" "length dat = chunk_len td i"
  shows "length (assembled td i dat) = piece_size td"
proof -
  have g: "geometry td" using assms(1) by (simp add: td_good_def)
  obtain hm where hm: "pieces td = Some hm" using assms(1) by (auto simp: td_good_def elim: td_okE)
  have "length (case hm_lookup hm k of Some p \<Rightarrow> p | None \<Rightarrow> replicate (piece_size td) 0) = piece_size td" for k
    using assms(1) hm by (auto simp: td_good_def split: option.splits)
  moreover have "chunk_size td * i - piece_size td * piece_of td i + length dat \<le> piece_size td"
    using chunk_in_piece [OF g, of i] assms(2) by (simp add: piece_of_def chunk_len_def)
  ultimately show ?thesis using hm by (simp add: assembled_def)
qed

text \<open>
  C15: for torrents whose pieces have a multiple of eight chunks (such as the usual sizes from 128 KiB on, with chunks
  of 16 KiB), a finished and verified piece is on disk and can be read back. Let the download be in a consistent
  state, with the unused bits at the end of the bitfield of completed chunks set, and let every
  directory and file that is needed be made, opened and written. When the last missing chunk of a piece arrives
  with its right length and the piece passes verification, \<open>torrent_data_write_chunk\<close> succeeds, counts the piece,
  keeps the invariant, and from then on \<open>torrent_data_read_data\<close> returns, for every range inside the piece,
  the bytes of the piece as assembled from its chunks, across any number of files.
\<close>

theorem last_chunk_stores_piece:
  assumes "td_good td disk" "env_good env" "length stack = 64" "i < chunk_total td" "\<not> is_completed td i"
    "length dat = chunk_len td i" "8 dvd piece_size td div chunk_size td" "padding_set (the (completed td))"
    and others: "\<forall>j < chunk_total td. piece_of td j = piece_of td i \<longrightarrow> j \<noteq> i \<longrightarrow> is_completed td j"
    and valid: "torrent_data_validate_piece stack td
      \<lparr>piece_id = int (piece_of td i), info_piece_size = piece_len td (piece_of td i), piece_offset = piece_size td * piece_of td i\<rparr>
      (assembled td i dat) = Some EXIT_SUCCESS"
  shows "\<exists>td' disk'. torrent_data_write_chunk env True True stack td disk (int i) dat (length dat) = Some (EXIT_SUCCESS, td', disk')
    \<and> td_good td' disk' \<and> completed_pieces td' = completed_pieces td + 1
    \<and> (\<forall>off len. 0 < len \<longrightarrow> piece_size td * piece_of td i \<le> off \<longrightarrow>
        off + len \<le> piece_size td * piece_of td i + piece_len td (piece_of td i) \<longrightarrow>
        torrent_data_read_data 1 env td' disk' off len
          = Some (EXIT_SUCCESS, take len (drop (off - piece_size td * piece_of td i) (assembled td i dat))))"
proof -
  let ?p = "piece_of td i" and ?n = "piece_len td (piece_of td i)"
  let ?pb = "piece_size td * ?p" and ?A = "assembled td i dat"
  have g: "geometry td" using assms(1) by (simp add: td_good_def)
  note start = piece_start(2) [OF g assms(4)]
  obtain st td' disk' where w: "torrent_data_write_chunk env True True stack td disk (int i) dat (length dat) = Some (st, td', disk')"
    "td_good td' disk'" "is_completed td' = (is_completed td)(i := True)" "same_layout (files td) (files td')"
    "sizes_of td' = sizes_of td" "completed td' = bitfield_set_bit (the (completed td)) (int i) 1" "claimed td' = claimed td"
    and decided: "st = EXIT_SUCCESS \<and> completed_pieces td' = completed_pieces td + 1 \<and> wrote ?pb ?n ?A 0 (files td) disk disk'
      \<or> torrent_data_is_piece_complete td (int ?p) \<noteq> Some 0 \<or> torrent_data_is_piece_complete td' (int ?p) \<noteq> Some 1"
    using write_chunk_accepted [OF assms(1-6)] valid by blast
  have sz: "piece_size td' = piece_size td" "chunk_size td' = chunk_size td" "data_size td' = data_size td"
    "chunk_total td' = chunk_total td" "piece_len td' ?p = ?n"
    using w(5,7) by (simp_all add: sizes_of_def chunk_total_def piece_len_def)
  have "torrent_data_is_piece_complete td (int ?p) = Some 0"
    using piece_complete_good [OF assms(1,7,8) start] assms(4,5) by auto
  moreover have "torrent_data_is_piece_complete td' (int ?p) = Some 1"
    using piece_complete_good [OF w(2) _ padding_good [OF assms(1,4,8) w(6)], of ?p] sz assms(7) start others w(3)
    by (auto simp: piece_of_def)
  ultimately have ok: "st = EXIT_SUCCESS" "completed_pieces td' = completed_pieces td + 1"
    "wrote ?pb ?n ?A 0 (files td) disk disk'" using decided by auto
  have "torrent_data_read_data 1 env td' disk' off len = Some (EXIT_SUCCESS, take len (drop (off - ?pb) ?A))"
    if "0 < len" "?pb \<le> off" "off + len \<le> ?pb + ?n" for off len
    using read_stored_piece [OF w(2) assms(2), of ?p ?A "files td" disk len off] ok(3) w(4) sz that
      assembled_length [OF assms(1,6)] by (auto simp: piece_len_def)
  with w(1,2) ok show ?thesis by blast
qed

theorem last_chunk_stores_piece_witness:
  "\<exists>td' disk'. torrent_data_write_chunk demo_env True True (replicate 64 0) demo_dl Map.empty 3 [8, 9] 2
      = Some (EXIT_SUCCESS, td', disk')
    \<and> torrent_data_read_data 1 demo_env td' disk' 9 5 = Some (EXIT_SUCCESS, [0, 0, 0, 8, 9])"
proof -
  have sz: "chunk_size demo_dl = 4" "padding_set (the (completed demo_dl))"
    using demo_dl_padding by (simp_all add: demo_dl_def demo_td_def)
  have oth: "\<forall>j < chunk_total demo_dl. piece_of demo_dl j = piece_of demo_dl 3 \<longrightarrow> j \<noteq> 3 \<longrightarrow> is_completed demo_dl j"
    by (simp add: demo_dl_facts(1) is_completed_def demo_dl_padding(2) demo_dl_bits)
  have A: "assembled demo_dl 3 [8, 9] = replicate 12 0 @ [8, 9] @ replicate 18 0"
    by (simp add: assembled_def demo_dl_facts(5,6) sz(1)) (simp add: demo_dl_def demo_td_def hashmap_new_def empty_map_lookup splice_def)
  have v: "torrent_data_validate_piece (replicate 64 0) demo_dl
      \<lparr>piece_id = int (piece_of demo_dl 3), info_piece_size = piece_len demo_dl (piece_of demo_dl 3),
       piece_offset = piece_size demo_dl * piece_of demo_dl 3\<rparr> (assembled demo_dl 3 [8, 9]) = Some EXIT_SUCCESS"
    by (simp add: torrent_data_validate_piece_def demo_dl_facts(8))
  obtain td' disk' where r: "torrent_data_write_chunk demo_env True True (replicate 64 0) demo_dl Map.empty (int 3) [8, 9] (length [8, 9::u8])
      = Some (EXIT_SUCCESS, td', disk')"
    "\<forall>off len. 0 < len \<longrightarrow> piece_size demo_dl * piece_of demo_dl 3 \<le> off \<longrightarrow>
        off + len \<le> piece_size demo_dl * piece_of demo_dl 3 + piece_len demo_dl (piece_of demo_dl 3) \<longrightarrow>
        torrent_data_read_data 1 demo_env td' disk' off len
          = Some (EXIT_SUCCESS, take len (drop (off - piece_size demo_dl * piece_of demo_dl 3) (assembled demo_dl 3 [8, 9])))"
    using last_chunk_stores_piece [OF demo_dl_good demo_env_good, of "replicate 64 0" 3 "[8, 9]"] oth v sz
    by (auto simp: demo_dl_facts(1,3,4,6))
  have "replicate 3 (0 :: u8) = [0, 0, 0]" by (simp add: numeral_3_eq_3)
  then show ?thesis
    using r(1) r(2) [rule_format, of 5 9]
    by (auto simp: A demo_dl_facts(5,6,7) numeral_2_eq_2 drop_append take_append)
qed

text \<open>
  C16: the invariant of the shared download state holds in every state reachable by claims, releases
  and writes in any order: in particular every chunk is completed, free to be claimed, or covered by
  exactly one pending claim, and the piece map, the bitfields and the files stay consistent.
\<close>

theorem download_invariant:
  assumes "td_reach env (td0, disk0) (td, disk)" "env_good env" "td_good td0 disk0"
  shows "td_good td disk \<and> (\<forall>i < chunk_total td. is_completed td i \<or> \<not> is_claimed td i
    \<or> (\<exists>!c. c \<in> set (claims td) \<and> claim_chunk_id c = int i))"
proof -
  have good: "td_good td disk" using td_reach_good [OF assms(1,2)] assms(3) by simp
  then obtain cl co where td: "claimed td = Some cl" "completed td = Some co" "claims_ok cl co (claims td)"
    by (auto simp: td_good_def elim: td_okE)
  have inj: "inj_on claim_chunk_id (set (claims td))" using td(3) by (simp add: claims_ok_def distinct_map)
  have "\<exists>!c. c \<in> set (claims td) \<and> claim_chunk_id c = int i"
    if "i < bit_count cl" "\<not> bf_bit co i" "bf_bit cl i" for i
  proof -
    have "int i \<in> claim_chunk_id ` set (claims td)" using td(3) that unfolding claims_ok_def by blast
    then obtain c where c: "c \<in> set (claims td)" "claim_chunk_id c = int i" by (metis imageE)
    show ?thesis
    proof (rule ex1I [of _ c])
      fix d assume "d \<in> set (claims td) \<and> claim_chunk_id d = int i"
      then show "d = c" using c inj_onD [OF inj, of d c] by simp
    qed (use c in simp)
  qed
  then show ?thesis
    using good unfolding chunk_total_def is_claimed_def is_completed_def td(1,2) option.case by blast
qed

theorem download_invariant_witness:
  "\<exists>td. td_reach demo_env (demo_dl, Map.empty) (td, Map.empty) \<and> td_good td Map.empty \<and> claims td = []"
proof -
  have ok: "td_ok demo_dl" using demo_dl_good by (simp add: td_good_def)
  from release_run [OF ok, of "\<lambda>k. 60"] obtain td where
    r: "torrent_data_release_expired_claims (\<lambda>k. 60) demo_dl = Some (Some EXIT_SUCCESS, td)" "claims td = []"
    by (auto simp: demo_dl_def)
  have "td_reach demo_env (demo_dl, Map.empty) (td, Map.empty)"
    by (rule td_reach.td_release [OF td_reach.td_start r(1)])
  with download_invariant [OF this demo_env_good demo_dl_good] r(2) show ?thesis by blast
qed

text \<open>
  C27: reading across the end of a piece repeats the piece. \<open>torrent_data_read_data\<close> does not advance
  its offset, so a read that starts inside a stored piece and is longer than what is left of it
  returns the rest of that piece a second time instead of the bytes that follow.
\<close>

theorem read_past_piece_repeats:
  assumes "td_good td disk" "env_good env"
    "piece_size td * p \<le> off" "off < piece_size td * p + piece_len td p"
    "stored (piece_size td * p) (piece_len td p) g (files td) disk"
    and "k \<le> piece_size td * p + piece_len td p - off" "piece_size td * p + piece_len td p - off + k < 2 ^ 31"
  shows "torrent_data_read_data 2 env td disk off (piece_size td * p + piece_len td p - off + k)
    = Some (EXIT_SUCCESS, map g [off..<piece_size td * p + piece_len td p] @ map g [off..<off + k])"
proof -
  define r where "r = piece_size td * p + piece_len td p - off"
  have r: "0 < r" "off + r = piece_size td * p + piece_len td p" using assms(3,4) by (simp_all add: r_def)
  note step = read_data_step [OF assms(1-5), folded r_def]
  have "read_data_loop (Suc (Suc 0)) env td disk off (r + k) [] = read_data_loop (Suc 0) env td disk off (r + k) (map g [off..<off + r])"
    using step [of "[]" "r + k" "Suc 0"] r(1) assms(7) by (simp add: r_def [symmetric] min_def del: read_data_loop.simps)
  also have "\<dots> = Some (EXIT_SUCCESS, map g [off..<off + r] @ map g [off..<off + k])"
  proof (cases "k = 0")
    case False
    then show ?thesis
      using step [of "map g [off..<off + r]" "r + k" 0] assms(6,7) by (simp add: r_def [symmetric] min_def)
  qed simp
  finally show ?thesis
    by (simp add: torrent_data_read_data_def r_def [symmetric] r(2) numeral_2_eq_2 del: read_data_loop.simps)
qed

theorem read_past_piece_repeats_witness:
  "torrent_data_read_data 2 demo_env demo_dl
      [''/d/a'' \<mapsto> map of_nat [0..<10], ''/d/b'' \<mapsto> map of_nat [10..<14]] 12 4
    = Some (EXIT_SUCCESS, map of_nat [12..<14] @ map of_nat [12..<14])"
proof -
  let ?disk = "[''/d/a'' \<mapsto> map of_nat [0..<10], ''/d/b'' \<mapsto> map of_nat [10..<14]] :: disk"
  have good: "td_good demo_dl ?disk"
    using demo_dl_good by (simp add: td_good_def) (simp add: demo_dl_def demo_files_def disk_opened_def)
  have "stored 0 14 of_nat demo_files ?disk"
    by (auto simp: stored_def demo_files_def nth_map_upt simp del: upt_rec_numeral)
  moreover have "files demo_dl = demo_files" by (simp add: demo_dl_def)
  ultimately show ?thesis
    using read_past_piece_repeats [OF good demo_env_good, of 0 12 of_nat 2] by (simp add: demo_dl_facts)
qed

end
