(* ===== verification/Uvg_List.thy ===== *)
theory Uvg_List
  imports Uvg_Prelude
begin

text \<open>
  The circular doubly linked lists of \<^verbatim>\<open>src/src/bencode/list.h\<close>. Links live in a memory of link
  cells addressed by numbers; reading or writing a cell that does not exist is undefined. \<open>ring\<close>
  relates a list head to the sequence of the links on it, and every operation is shown to refine
  the operation on sequences, which is what lets the nodes of a bencode value be plain lists.
\<close>

record list_t =
  lnext :: nat
  lprev :: nat

type_synonym links = "nat \<rightharpoonup> list_t"

definition get_next :: "nat \<Rightarrow> links \<Rightarrow> nat option" where
  "get_next p m = map_option lnext (m p)"

definition get_prev :: "nat \<Rightarrow> links \<Rightarrow> nat option" where
  "get_prev p m = map_option lprev (m p)"

definition set_next :: "nat \<Rightarrow> nat \<Rightarrow> links \<Rightarrow> links option" where
  "set_next p v m = map_option (\<lambda>c. m(p \<mapsto> c\<lparr>lnext := v\<rparr>)) (m p)"

definition set_prev :: "nat \<Rightarrow> nat \<Rightarrow> links \<Rightarrow> links option" where
  "set_prev p v m = map_option (\<lambda>c. m(p \<mapsto> c\<lparr>lprev := v\<rparr>)) (m p)"

definition init_list_head :: "nat \<Rightarrow> links \<Rightarrow> links option" where
  "init_list_head head m = Option.bind (set_prev head head m) (set_next head head)"

definition list_add :: "nat \<Rightarrow> nat \<Rightarrow> links \<Rightarrow> links option" where
  "list_add new head m = do {
     m \<leftarrow> set_prev new head m;
     n \<leftarrow> get_next head m;
     m \<leftarrow> set_next new n m;
     n \<leftarrow> get_next head m;
     m \<leftarrow> set_prev n new m;
     set_next head new m
   }"

definition list_add_tail :: "nat \<Rightarrow> nat \<Rightarrow> links \<Rightarrow> links option" where
  "list_add_tail new head m = do {
     p \<leftarrow> get_prev head m;
     m \<leftarrow> set_prev new p m;
     m \<leftarrow> set_next new head m;
     p \<leftarrow> get_prev head m;
     m \<leftarrow> set_next p new m;
     set_prev head new m
   }"

definition list_del :: "nat \<Rightarrow> links \<Rightarrow> links option" where
  "list_del entry m = do {
     p \<leftarrow> get_prev entry m;
     n \<leftarrow> get_next entry m;
     m \<leftarrow> set_next p n m;
     n \<leftarrow> get_next entry m;
     p \<leftarrow> get_prev entry m;
     set_prev n p m
   }"

definition list_empty :: "nat \<Rightarrow> links \<Rightarrow> bool option" where
  "list_empty head m = map_option (\<lambda>n. n = head) (get_next head m)"

text \<open>The two iteration macros, with a body over the link and a state. The first number bounds the
  iterations; \<open>None\<close> also stands for a loop that has not ended within it, and the lemmas below give
  a bound that is enough.\<close>

primrec list_for_each_from ::
  "nat \<Rightarrow> (nat \<Rightarrow> 's \<Rightarrow> 's) \<Rightarrow> nat \<Rightarrow> nat \<Rightarrow> links \<Rightarrow> 's \<Rightarrow> 's option" where
  "list_for_each_from 0 body pos head m s = None"
| "list_for_each_from (Suc k) body pos head m s =
     (if pos = head then Some s
      else Option.bind (get_next pos m) (\<lambda>n. list_for_each_from k body n head m (body pos s)))"

definition list_for_each :: "nat \<Rightarrow> (nat \<Rightarrow> 's \<Rightarrow> 's) \<Rightarrow> nat \<Rightarrow> links \<Rightarrow> 's \<Rightarrow> 's option" where
  "list_for_each k body head m s =
     Option.bind (get_next head m) (\<lambda>n. list_for_each_from k body n head m s)"

primrec list_for_each_safe_from ::
  "nat \<Rightarrow> (nat \<Rightarrow> links \<Rightarrow> links option) \<Rightarrow> nat \<Rightarrow> nat \<Rightarrow> nat \<Rightarrow> links \<Rightarrow> links option" where
  "list_for_each_safe_from 0 body pos temp head m = None"
| "list_for_each_safe_from (Suc k) body pos temp head m =
     (if pos = head then Some m
      else do {
        m \<leftarrow> body pos m;
        n \<leftarrow> get_next temp m;
        list_for_each_safe_from k body temp n head m
      })"

definition list_for_each_safe ::
  "nat \<Rightarrow> (nat \<Rightarrow> links \<Rightarrow> links option) \<Rightarrow> nat \<Rightarrow> links \<Rightarrow> links option" where
  "list_for_each_safe k body head m = do {
     pos \<leftarrow> get_next head m;
     temp \<leftarrow> get_next pos m;
     list_for_each_safe_from k body pos temp head m
   }"

subsection \<open>Sequences of links\<close>

lemmas link_defs = get_next_def get_prev_def set_next_def set_prev_def

text \<open>\<open>chain m a xs b\<close>: from \<open>a\<close> the links \<open>xs\<close> lead to \<open>b\<close>, in both directions.\<close>

primrec chain :: "links \<Rightarrow> nat \<Rightarrow> nat list \<Rightarrow> nat \<Rightarrow> bool" where
  "chain m a [] b \<longleftrightarrow> get_next a m = Some b \<and> get_prev b m = Some a"
| "chain m a (x # xs) b \<longleftrightarrow> get_next a m = Some x \<and> get_prev x m = Some a \<and> chain m x xs b"

definition ring :: "links \<Rightarrow> nat \<Rightarrow> nat list \<Rightarrow> bool" where
  "ring m head xs \<longleftrightarrow> distinct (head # xs) \<and> chain m head xs head"

lemma chain_append: "chain m a (xs @ x # ys) b \<longleftrightarrow> chain m a xs x \<and> chain m x ys b"
  by (induction xs arbitrary: a) auto

lemma chain_cong:
  assumes "\<And>p. p \<in> insert a (set xs) \<Longrightarrow> get_next p m' = get_next p m"
    and "\<And>p. p \<in> insert b (set xs) \<Longrightarrow> get_prev p m' = get_prev p m"
  shows "chain m' a xs b = chain m a xs b"
  using assms by (induction xs arbitrary: a) auto

lemma chain_first: "chain m a xs b \<Longrightarrow> get_next a m = Some (hd (xs @ [b]))"
  by (cases xs) auto

lemma chain_last: "chain m a xs b \<Longrightarrow> get_prev b m = Some (last (a # xs))"
  by (induction xs arbitrary: a) auto

lemma set_next_reads:
  assumes "set_next p v m = Some m'"
  shows "get_next q m' = (if q = p then Some v else get_next q m)" "get_prev q m' = get_prev q m"
  using assms by (auto simp: link_defs)

lemma set_prev_reads:
  assumes "set_prev p v m = Some m'"
  shows "get_prev q m' = (if q = p then Some v else get_prev q m)" "get_next q m' = get_next q m"
  using assms by (auto simp: link_defs)

lemma set_next_ok: "p \<in> dom m \<Longrightarrow> \<exists>m'. set_next p v m = Some m' \<and> dom m' = dom m"
  by (auto simp: link_defs split: if_splits)

lemma set_prev_ok: "p \<in> dom m \<Longrightarrow> \<exists>m'. set_prev p v m = Some m' \<and> dom m' = dom m"
  by (auto simp: link_defs split: if_splits)

lemma get_link_defined: "get_next p m = Some q \<Longrightarrow> p \<in> dom m" "get_prev p m = Some q \<Longrightarrow> p \<in> dom m"
  by (auto simp: link_defs)

text \<open>Linking \<open>new\<close> between two neighbours, and unlinking it.\<close>

lemma chain_insert:
  assumes ch: "chain m a (xs @ ys) b" and dist: "distinct (xs @ ys)" "new \<notin> set (xs @ ys)"
    and p: "p = last (a # xs)" and n: "n = hd (ys @ [b])"
    and ne: "new \<noteq> a" "new \<noteq> b" "a \<notin> set (xs @ ys)" "b \<notin> set (xs @ ys)"
    and nx: "\<And>q. get_next q m' = (if q = p then Some new else if q = new then Some n else get_next q m)"
    and pv: "\<And>q. get_prev q m' = (if q = n then Some new else if q = new then Some p else get_prev q m)"
  shows "chain m' a (xs @ new # ys) b"
proof -
  have new: "new \<noteq> n" "new \<noteq> p" using dist ne n p by (auto split: if_splits simp: hd_append)
  have "chain m' a xs new"
  proof (cases xs rule: rev_cases)
    case Nil
    with p nx pv new show ?thesis by simp
  next
    case (snoc us u)
    with ch have "chain m a us u" by (simp add: chain_append)
    moreover have "chain m' a us u = chain m a us u"
      using dist ne snoc n p by (intro chain_cong) (auto simp: nx pv hd_append split: if_splits)
    ultimately show ?thesis using snoc p nx pv new by (simp add: chain_append)
  qed
  moreover have "chain m' new ys b"
  proof (cases ys)
    case Nil
    with n nx pv new show ?thesis by simp
  next
    case (Cons v vs)
    with ch have "chain m v vs b" by (simp add: chain_append)
    moreover have "p \<notin> set ys" using dist ne p last_in_set [of xs] by (auto simp del: last_in_set)
    then have "chain m' v vs b = chain m v vs b"
      using dist ne Cons n new by (intro chain_cong) (auto simp: nx pv split: if_splits)
    ultimately show ?thesis using Cons n nx pv new by simp
  qed
  ultimately show ?thesis by (simp add: chain_append)
qed

lemma chain_remove:
  assumes ch: "chain m a (xs @ e # ys) b" and dist: "distinct (xs @ e # ys)"
    and p: "p = last (a # xs)" and n: "n = hd (ys @ [b])"
    and ne: "a \<notin> set (xs @ e # ys)" "b \<notin> set (xs @ e # ys)"
    and nx: "\<And>q. get_next q m' = (if q = p then Some n else get_next q m)"
    and pv: "\<And>q. get_prev q m' = (if q = n then Some p else get_prev q m)"
  shows "chain m' a (xs @ ys) b"
proof (cases xs rule: rev_cases)
  case xs: Nil
  show ?thesis
  proof (cases ys)
    case Nil
    with xs p n nx pv show ?thesis by simp
  next
    case (Cons v vs)
    with ch xs have "chain m v vs b" by simp
    moreover have "chain m' v vs b = chain m v vs b"
      using dist ne xs Cons n p by (intro chain_cong) (auto simp: nx pv)
    ultimately show ?thesis using xs Cons p n nx pv by simp
  qed
next
  case xs: (snoc us u)
  have us: "chain m' a us u"
  proof -
    have "chain m' a us u = chain m a us u"
      using dist ne xs n p by (intro chain_cong) (auto simp: nx pv hd_append split: if_splits)
    with ch xs show ?thesis by (simp add: chain_append)
  qed
  show ?thesis
  proof (cases ys)
    case Nil
    with xs p n nx pv us show ?thesis by (simp add: chain_append)
  next
    case (Cons v vs)
    with ch xs have "chain m v vs b" by (simp add: chain_append)
    moreover have "chain m' v vs b = chain m v vs b"
      using dist ne xs Cons n p by (intro chain_cong) (auto simp: nx pv)
    ultimately show ?thesis using xs Cons p n nx pv us by (simp add: chain_append)
  qed
qed

subsection \<open>The operations refine those on sequences\<close>

lemma init_list_head_ring:
  "head \<in> dom m \<Longrightarrow> \<exists>m'. init_list_head head m = Some m' \<and> ring m' head [] \<and> dom m' = dom m"
  by (auto simp: init_list_head_def ring_def link_defs split: if_splits)

lemma list_add_ring:
  assumes r: "ring m head xs" and new: "new \<in> dom m" "new \<noteq> head" "new \<notin> set xs"
  shows "\<exists>m'. list_add new head m = Some m' \<and> ring m' head (new # xs) \<and> dom m' = dom m"
proof -
  define n where "n = hd (xs @ [head])"
  from r have ch: "chain m head xs head" and d: "distinct xs" "head \<notin> set xs" by (auto simp: ring_def)
  from chain_first [OF ch] have nh: "get_next head m = Some n" by (simp add: n_def)
  have n_new: "n \<noteq> new" using new by (cases xs) (auto simp: n_def)
  have n_dom: "n \<in> dom m" using ch by (cases xs) (auto simp: n_def dest: get_link_defined)
  obtain m1 where m1: "set_prev new head m = Some m1" and m1_dom: "dom m1 = dom m"
    using set_prev_ok [of new m head] new(1) by auto
  obtain m2 where m2: "set_next new n m1 = Some m2" and m2_dom: "dom m2 = dom m"
    using set_next_ok [of new m1 n] new(1) m1_dom by auto
  obtain m3 where m3: "set_prev n new m2 = Some m3" and m3_dom: "dom m3 = dom m"
    using set_prev_ok [of n m2 new] n_dom m2_dom by auto
  obtain m4 where m4: "set_next head new m3 = Some m4" and m4_dom: "dom m4 = dom m"
    using set_next_ok [of head m3 new] get_link_defined(1) [OF nh] m3_dom by auto
  note eqs = set_prev_reads [OF m1] set_next_reads [OF m2] set_prev_reads [OF m3] set_next_reads [OF m4]
  have "chain m4 head ([] @ new # xs) head"
    by (rule chain_insert [OF _ _ _ refl refl, of m head "[]" xs])
      (use ch d new n_new in \<open>auto simp: eqs n_def\<close>)
  moreover have "list_add new head m = Some m4"
    using m1 m2 m3 m4 nh new by (simp add: list_add_def eqs)
  ultimately show ?thesis using d new m4_dom by (auto simp: ring_def)
qed

lemma list_add_tail_ring:
  assumes r: "ring m head xs" and new: "new \<in> dom m" "new \<noteq> head" "new \<notin> set xs"
  shows "\<exists>m'. list_add_tail new head m = Some m' \<and> ring m' head (xs @ [new]) \<and> dom m' = dom m"
proof -
  define p where "p = last (head # xs)"
  from r have ch: "chain m head xs head" and d: "distinct xs" "head \<notin> set xs" by (auto simp: ring_def)
  from chain_last [OF ch] have ph: "get_prev head m = Some p" by (simp add: p_def)
  have p_in: "p \<in> insert head (set xs)" by (auto simp: p_def)
  then have p_new: "p \<noteq> new" using new by auto
  have p_dom: "p \<in> dom m"
  proof (cases xs rule: rev_cases)
    case Nil
    with ch show ?thesis by (auto simp: p_def dest: get_link_defined)
  next
    case (snoc us u)
    with ch have "get_next u m = Some head" by (simp add: chain_append)
    with snoc show ?thesis by (auto simp: p_def dest: get_link_defined)
  qed
  obtain m1 where m1: "set_prev new p m = Some m1" and m1_dom: "dom m1 = dom m"
    using set_prev_ok [of new m p] new(1) by auto
  obtain m2 where m2: "set_next new head m1 = Some m2" and m2_dom: "dom m2 = dom m"
    using set_next_ok [of new m1 head] new(1) m1_dom by auto
  obtain m3 where m3: "set_next p new m2 = Some m3" and m3_dom: "dom m3 = dom m"
    using set_next_ok [of p m2 new] p_dom m2_dom by auto
  obtain m4 where m4: "set_prev head new m3 = Some m4" and m4_dom: "dom m4 = dom m"
    using set_prev_ok [of head m3 new] get_link_defined(2) [OF ph] m3_dom by auto
  note eqs = set_prev_reads [OF m1] set_next_reads [OF m2] set_next_reads [OF m3] set_prev_reads [OF m4]
  have "chain m4 head (xs @ new # []) head"
    by (rule chain_insert [OF _ _ _ refl refl, of m head xs "[]"])
      (use ch d new p_new in \<open>auto simp: eqs p_def\<close>)
  moreover have "list_add_tail new head m = Some m4"
    using m1 m2 m3 m4 ph new by (simp add: list_add_tail_def eqs)
  ultimately show ?thesis using d new m4_dom by (auto simp: ring_def)
qed

lemma list_del_ring:
  assumes r: "ring m head (xs @ e # ys)"
  shows "\<exists>m'. list_del e m = Some m' \<and> ring m' head (xs @ ys) \<and> dom m' = dom m
    \<and> get_next e m' = get_next e m"
proof -
  define p n where "p = last (head # xs)" and "n = hd (ys @ [head])"
  from r have ch: "chain m head (xs @ e # ys) head" and d: "distinct (xs @ e # ys)" "head \<notin> set (xs @ e # ys)"
    by (auto simp: ring_def)
  from ch have cs: "chain m head xs e" "chain m e ys head" by (auto simp: chain_append)
  have pe: "get_prev e m = Some p" and ne: "get_next e m = Some n"
    using chain_last [OF cs(1)] chain_first [OF cs(2)] by (simp_all add: p_def n_def)
  have p_dom: "p \<in> dom m"
    using cs(1) by (cases xs rule: rev_cases) (auto simp: p_def chain_append dest: get_link_defined)
  have n_dom: "n \<in> dom m" using cs(2) by (cases ys) (auto simp: n_def dest: get_link_defined)
  have dif: "p \<noteq> e" "n \<noteq> e" using d by (auto simp: p_def n_def hd_append split: if_splits)
  obtain m1 where m1: "set_next p n m = Some m1" and m1_dom: "dom m1 = dom m"
    using set_next_ok [of p m n] p_dom by auto
  obtain m2 where m2: "set_prev n p m1 = Some m2" and m2_dom: "dom m2 = dom m"
    using set_prev_ok [of n m1 p] n_dom m1_dom by auto
  note eqs = set_next_reads [OF m1] set_prev_reads [OF m2]
  have "chain m2 head (xs @ ys) head"
    by (rule chain_remove [OF ch d(1) refl refl d(2) d(2)]) (simp_all add: eqs p_def n_def)
  moreover have "list_del e m = Some m2"
    using m1 m2 pe ne dif by (simp add: list_del_def eqs)
  moreover have "get_next e m2 = get_next e m" using dif by (simp add: eqs)
  ultimately show ?thesis using d m2_dom by (auto simp: ring_def)
qed

lemma list_empty_ring: "ring m head xs \<Longrightarrow> list_empty head m = Some (xs = [])"
  by (cases xs) (auto simp: list_empty_def ring_def)

lemma list_for_each_from_chain:
  "chain m a xs head \<Longrightarrow> head \<notin> set xs \<Longrightarrow> length xs < k \<Longrightarrow>
   list_for_each_from k body (hd (xs @ [head])) head m s = Some (fold body xs s)"
proof (induction xs arbitrary: a k s)
  case Nil
  then show ?case by (cases k) auto
next
  case (Cons x xs)
  then obtain j where k: "k = Suc j" by (cases k) auto
  from Cons.prems have ch: "chain m x xs head" by simp
  from chain_first [OF ch] Cons.IH [OF ch, of j "body x s"] Cons.prems k show ?case by simp
qed

lemma list_for_each_ring:
  assumes "ring m head xs" and "length xs < k"
  shows "list_for_each k body head m s = Some (fold body xs s)"
proof -
  from assms have ch: "chain m head xs head" and "head \<notin> set xs" by (auto simp: ring_def)
  with chain_first [OF ch] list_for_each_from_chain [OF ch] assms(2) show ?thesis
    by (simp add: list_for_each_def)
qed

text \<open>Unlinking every entry inside the safe iteration empties the list.\<close>

lemma list_for_each_safe_from_ring:
  "ring m head xs \<Longrightarrow> length xs < k \<Longrightarrow>
   \<exists>m'. list_for_each_safe_from k list_del (hd (xs @ [head])) (hd (tl (xs @ [head]) @ [hd (xs @ [head])])) head m
     = Some m' \<and> ring m' head []"
proof (induction xs arbitrary: m k)
  case Nil
  then show ?case by (cases k) auto
next
  case (Cons x xs)
  then obtain j where k: "k = Suc j" by (cases k) auto
  from list_del_ring [of m head "[]" x xs] Cons.prems
  obtain m' where m': "list_del x m = Some m'" "ring m' head xs" by auto
  obtain n where n: "get_next (hd (xs @ [head])) m' = Some n" and n': "n = hd (tl (xs @ [head]) @ [hd (xs @ [head])])"
  proof (cases xs)
    case Nil
    with m'(2) that show ?thesis by (simp add: ring_def)
  next
    case (Cons y ys)
    with m'(2) have "chain m' y ys head" by (simp add: ring_def)
    from chain_first [OF this] that Cons show ?thesis by (simp add: hd_append)
  qed
  have hd: "hd (xs @ [head, x]) = hd (xs @ [head])" by (simp add: hd_append)
  from Cons.IH [OF m'(2), of j] Cons.prems k obtain m'' where
    "list_for_each_safe_from j list_del (hd (xs @ [head])) n head m' = Some m''" "ring m'' head []"
    unfolding n' by auto
  with m'(1) n k Cons.prems(1) show ?case by (simp add: hd ring_def)
qed

lemma list_for_each_safe_ring:
  assumes r: "ring m head xs" and k: "length xs < k"
  shows "\<exists>m'. list_for_each_safe k list_del head m = Some m' \<and> ring m' head []"
proof -
  from r have ch: "chain m head xs head" by (simp add: ring_def)
  have "get_next (hd (xs @ [head])) m = Some (hd (tl (xs @ [head]) @ [hd (xs @ [head])]))"
  proof (cases xs)
    case Nil
    with ch show ?thesis by simp
  next
    case (Cons y ys)
    with ch have "chain m y ys head" by simp
    from chain_first [OF this] Cons show ?thesis by (simp add: hd_append)
  qed
  with chain_first [OF ch] list_for_each_safe_from_ring [OF r k] show ?thesis
    by (simp add: list_for_each_safe_def)
qed

definition demo_links :: links where
  "demo_links = [1 \<mapsto> \<lparr>lnext = 2, lprev = 2\<rparr>, 2 \<mapsto> \<lparr>lnext = 1, lprev = 1\<rparr>, 3 \<mapsto> \<lparr>lnext = 0, lprev = 0\<rparr>]"

text \<open>C29: The list operations refine sequences: from a head whose ring holds the links \<open>xs\<close>, adding in
  front and at the tail, unlinking any entry, the emptiness test and both iterations behave as the
  corresponding operations on \<open>xs\<close>, never leave the allocated links, and the iterations end.\<close>

theorem list_head_refines_sequence:
  assumes r: "ring m head xs" and new: "new \<in> dom m" "new \<notin> set (head # xs)"
  shows "(\<exists>m'. list_add new head m = Some m' \<and> ring m' head (new # xs))
    \<and> (\<exists>m'. list_add_tail new head m = Some m' \<and> ring m' head (xs @ [new]))
    \<and> (\<forall>ys e zs. xs = ys @ e # zs \<longrightarrow> (\<exists>m'. list_del e m = Some m' \<and> ring m' head (ys @ zs)))
    \<and> list_empty head m = Some (xs = [])
    \<and> list_for_each (Suc (length xs)) body head m s = Some (fold body xs s)
    \<and> (\<exists>m'. list_for_each_safe (Suc (length xs)) list_del head m = Some m' \<and> ring m' head [])"
proof (intro conjI allI impI)
  from new have ne: "new \<noteq> head" "new \<notin> set xs" by auto
  show "\<exists>m'. list_add new head m = Some m' \<and> ring m' head (new # xs)"
    using list_add_ring [OF r new(1) ne] by blast
  show "\<exists>m'. list_add_tail new head m = Some m' \<and> ring m' head (xs @ [new])"
    using list_add_tail_ring [OF r new(1) ne] by blast
  show "\<exists>m'. list_del e m = Some m' \<and> ring m' head (ys @ zs)" if "xs = ys @ e # zs" for ys e zs
    using list_del_ring r that by blast
  show "list_empty head m = Some (xs = [])" by (rule list_empty_ring [OF r])
  show "list_for_each (Suc (length xs)) body head m s = Some (fold body xs s)"
    by (rule list_for_each_ring [OF r]) simp
  show "\<exists>m'. list_for_each_safe (Suc (length xs)) list_del head m = Some m' \<and> ring m' head []"
    by (rule list_for_each_safe_ring [OF r]) simp
qed

theorem list_head_refines_sequence_witness:
  "ring demo_links 1 [2] \<and> (\<exists>m'. list_add_tail 3 1 demo_links = Some m' \<and> ring m' 1 [2, 3])"
proof -
  have "ring demo_links 1 [2]" "3 \<in> dom demo_links" "3 \<notin> set [1, 2 :: nat]"
    by (simp_all add: demo_links_def ring_def get_next_def get_prev_def)
  with list_head_refines_sequence [of demo_links 1 "[2]" 3 "\<lambda>_ s. s" "0 :: nat"] show ?thesis by simp
qed

end
