(* ===== verification/Uvg_Bencode.thy ===== *)
theory Uvg_Bencode
  imports Uvg_Text Uvg_List
begin

text \<open>
  The bencode reader and writer of \<^verbatim>\<open>src/src/bencode/bencode.c\<close>. The input is the memory that starts
  at \<open>inBuf\<close>; a position \<open>p\<close> stands for the pointer \<open>buf\<close> and \<open>len\<close> for the remaining length, a
  \<open>size_t\<close> that wraps. Reading past the end of the memory, and arithmetic that leaves the range of
  \<open>long long\<close>, is undefined. The heap counts the calls of malloc, whose outcomes are given by a
  predicate on the number of the call, and the blocks that are live.

  The links of list.h are represented by the sequences on them (theory \<open>Uvg_List\<close>).
\<close>

subsection \<open>Data\<close>

record be_str =
  sbuf :: "u8 list option"
  slen :: int

datatype be_type = TSTR | TNUM | TLIST | TDICT

datatype be_node =
    BE_STR be_str
  | BE_NUM int
  | BE_LIST "be_node list"
  | BE_DICT "(be_str \<times> be_node option) list"

datatype errno = EINVAL | ENOMEM | ELOOP

record heap =
  calls :: nat
  live :: int

type_synonym mem = "u8 list"
type_synonym outcomes = "nat \<Rightarrow> bool"

abbreviation ascii :: "char \<Rightarrow> u8" where "ascii c \<equiv> of_char c"

definition byte_at :: "mem \<Rightarrow> nat \<Rightarrow> u8 option" where
  "byte_at m p = (if p < length m then Some (m ! p) else None)"

definition isdigit_byte :: "u8 \<Rightarrow> bool" where
  "isdigit_byte c \<longleftrightarrow> 48 \<le> c \<and> c \<le> 57"

abbreviation LLONG_MAX :: int where "LLONG_MAX \<equiv> 2 ^ 63 - 1"
abbreviation LLONG_MIN :: int where "LLONG_MIN \<equiv> - (2 ^ 63)"

definition llong :: "int \<Rightarrow> int option" where
  "llong i = (if LLONG_MIN \<le> i \<and> i \<le> LLONG_MAX then Some i else None)"

text \<open>malloc, calloc and strdup: one call, which yields a block or NULL.\<close>

definition heap_alloc :: "outcomes \<Rightarrow> heap \<Rightarrow> bool \<times> heap" where
  "heap_alloc ok h = (ok (calls h), \<lparr>calls = Suc (calls h), live = (if ok (calls h) then live h + 1 else live h)\<rparr>)"

definition heap_free :: "heap \<Rightarrow> heap" where
  "heap_free h = h\<lparr>live := live h - 1\<rparr>"

definition free_buf :: "be_str \<Rightarrow> heap \<Rightarrow> heap" where
  "free_buf s h = (if sbuf s = None then h else heap_free h)"

definition be_empty :: "be_type \<Rightarrow> be_node" where
  "be_empty type = (case type of TSTR \<Rightarrow> BE_STR (\<lparr>sbuf = None, slen = 0\<rparr>) | TNUM \<Rightarrow> BE_NUM 0 | TLIST \<Rightarrow> BE_LIST [] | TDICT \<Rightarrow> BE_DICT [])"

definition be_alloc :: "outcomes \<Rightarrow> be_type \<Rightarrow> heap \<Rightarrow> be_node option \<times> heap" where
  "be_alloc ok type h = (case heap_alloc ok h of (got, h') \<Rightarrow> (if got then Some (be_empty type) else None, h'))"

fun be_free :: "be_node \<Rightarrow> heap \<Rightarrow> heap"
  and be_free_list :: "be_node list \<Rightarrow> heap \<Rightarrow> heap"
  and be_free_entries :: "(be_str \<times> be_node option) list \<Rightarrow> heap \<Rightarrow> heap" where
  "be_free (BE_STR s) h = heap_free (free_buf s h)"
| "be_free (BE_NUM i) h = heap_free h"
| "be_free (BE_LIST xs) h = heap_free (be_free_list xs h)"
| "be_free (BE_DICT es) h = heap_free (be_free_entries es h)"
| "be_free_list [] h = h"
| "be_free_list (x # xs) h = be_free_list xs (be_free x h)"
| "be_free_entries [] h = h"
| "be_free_entries ((key, None) # es) h = be_free_entries es (heap_free (free_buf key h))"
| "be_free_entries ((key, Some val) # es) h = be_free_entries es (heap_free (be_free val (free_buf key h)))"

subsection \<open>Reading\<close>

text \<open>The digits loop; \<open>len\<close> is the remaining length, which is returned with the value.\<close>

primrec int_loop :: "nat \<Rightarrow> mem \<Rightarrow> nat \<Rightarrow> int \<Rightarrow> int \<Rightarrow> bool \<Rightarrow> (int \<times> nat) option" where
  "int_loop 0 m p sign ret overflowed = Some (ret, 0)"
| "int_loop (Suc len) m p sign ret overflowed = do {
     c \<leftarrow> byte_at m p;
     if \<not> isdigit_byte c then Some (ret, Suc len)
     else do {
       (ret, overflowed) \<leftarrow>
         (if overflowed then Some (ret, overflowed)
          else do {
            r \<leftarrow> llong (ret * 10);
            r \<leftarrow> llong (r + (uint c - 48) * sign);
            Some (if sign = 1 \<and> r < ret then (LLONG_MAX, True)
                  else if sign = -1 \<and> ret < r then (LLONG_MIN, True)
                  else (r, False))
          });
       int_loop len m (Suc p) sign ret overflowed
     }
   }"

definition be_decode_int :: "mem \<Rightarrow> nat \<Rightarrow> nat \<Rightarrow> (int \<times> nat) option" where
  "be_decode_int m p len = do {
     c \<leftarrow> byte_at m p;
     let (sign, p', len') = (if c = ascii CHR ''-'' then (- 1, Suc p, size_sub len 1) else (1, p, len));
     (ret, rest) \<leftarrow> int_loop len' m p' sign 0 False;
     Some (ret, size_sub len rest)
   }"

definition no_str :: be_str where
  "no_str = \<lparr>sbuf = None, slen = 0\<rparr>"

definition be_decode_str :: "outcomes \<Rightarrow> mem \<Rightarrow> nat \<Rightarrow> nat \<Rightarrow> heap \<Rightarrow> (be_str \<times> nat \<times> heap) option" where
  "be_decode_str ok m p orglen h = do {
     (n, rx) \<leftarrow> be_decode_int m p orglen;
     let p = p + rx; len = size_sub orglen rx in
     if len = 0 \<or> n < 0 \<or> nat n > len - 1 then Some (no_str, size_sub orglen len, h)
     else do {
       c \<leftarrow> byte_at m p;
       if c \<noteq> ascii CHR '':'' then Some (no_str, size_sub orglen len, h)
       else let (got, h) = heap_alloc ok h in
         if \<not> got then Some (no_str, size_sub orglen len, h)
         else if length m < p + 1 + nat n then None
         else Some (\<lparr>sbuf = Some (take (nat n) (drop (p + 1) m) @ [0]), slen = n\<rparr>,
                    size_sub orglen (size_sub len (nat n + 1)), h)
     }
   }"

type_synonym decoder = "nat \<Rightarrow> nat \<Rightarrow> heap \<Rightarrow> ((errno + be_node) \<times> nat \<times> heap) option"

text \<open>The loops over the entries of a list and of a dictionary. They return the remaining length; an
  error frees what has been linked so far. The first number bounds the iterations.\<close>

primrec list_loop :: "nat \<Rightarrow> decoder \<Rightarrow> mem \<Rightarrow> nat \<Rightarrow> nat \<Rightarrow> heap \<Rightarrow> be_node list
    \<Rightarrow> ((errno + be_node) \<times> nat \<times> heap) option" where
  "list_loop 0 dec m p len h xs = None"
| "list_loop (Suc k) dec m p len h xs = do {
     c \<leftarrow> byte_at m p;
     if c = ascii CHR ''e'' then Some (Inr (BE_LIST xs), size_sub len 1, h)
     else do {
       (entry, n, h) \<leftarrow> dec p len h;
       let len = size_sub len n in
       case entry of
         Inl _ \<Rightarrow> Some (Inl EINVAL, len, be_free (BE_LIST xs) h)
       | Inr x \<Rightarrow>
           if len = 0 then Some (Inl EINVAL, len, be_free (BE_LIST (xs @ [x])) h)
           else list_loop k dec m (p + n) len h (xs @ [x])
     }
   }"

primrec dict_loop :: "nat \<Rightarrow> outcomes \<Rightarrow> decoder \<Rightarrow> mem \<Rightarrow> nat \<Rightarrow> nat \<Rightarrow> heap \<Rightarrow> (be_str \<times> be_node option) list
    \<Rightarrow> ((errno + be_node) \<times> nat \<times> heap) option" where
  "dict_loop 0 ok dec m p len h es = None"
| "dict_loop (Suc k) ok dec m p len h es = do {
     c \<leftarrow> byte_at m p;
     if c = ascii CHR ''e'' then Some (Inr (BE_DICT es), size_sub len 1, h)
     else let (got, h) = heap_alloc ok h in
       if \<not> got then Some (Inl ENOMEM, len, be_free (BE_DICT es) h)
       else do {
         (key, n, h) \<leftarrow> be_decode_str ok m p len h;
         let p = p + n; len = size_sub len n in
         if sbuf key = None then Some (Inl EINVAL, len, be_free (BE_DICT (es @ [(key, None)])) h)
         else do {
           (val, n, h) \<leftarrow> dec p len h;
           let p = p + n; len = size_sub len n in
           case val of
             Inl _ \<Rightarrow> Some (Inl EINVAL, len, be_free (BE_DICT (es @ [(key, None)])) h)
           | Inr v \<Rightarrow>
               if len = 0 then Some (Inl EINVAL, len, be_free (BE_DICT (es @ [(key, Some v)])) h)
               else dict_loop k ok dec m p len h (es @ [(key, Some v)])
         }
       }
   }"

text \<open>The body of \<open>be_decode1\<close> below the depth check: \<open>dec\<close> is the recursive call.\<close>

definition decode_num :: "mem \<Rightarrow> nat \<Rightarrow> nat \<Rightarrow> heap \<Rightarrow> ((errno + be_node) \<times> nat \<times> heap) option" where
  "decode_num m p len h = do {
     (i, n) \<leftarrow> be_decode_int m p len;
     let p = p + n; len = size_sub len n in do {
       c \<leftarrow> byte_at m p;
       if c \<noteq> ascii CHR ''e'' then Some (Inl EINVAL, len, be_free (BE_NUM i) h)
       else Some (Inr (BE_NUM i), size_sub len 1, h)
     }
   }"

definition decode_node :: "outcomes \<Rightarrow> mem \<Rightarrow> decoder \<Rightarrow> be_type \<Rightarrow> nat \<Rightarrow> nat \<Rightarrow> heap
    \<Rightarrow> ((errno + be_node) \<times> nat \<times> heap) option" where
  "decode_node ok m dec type p len h =
     (case be_alloc ok type h of
        (None, h) \<Rightarrow> Some (Inl ENOMEM, len, h)
      | (Some ret, h) \<Rightarrow>
          if type = TSTR then do {
            (s, n, h) \<leftarrow> be_decode_str ok m p len h;
            let len = size_sub len n in
            if sbuf s = None then Some (Inl EINVAL, len, be_free (BE_STR s) h)
            else Some (Inr (BE_STR s), len, h)
          }
          else let p = Suc p; len = size_sub len 1 in
            if len = 0 then Some (Inl EINVAL, len, be_free ret h)
            else case type of
              TNUM \<Rightarrow> decode_num m p len h
            | TLIST \<Rightarrow> list_loop (Suc (length m)) dec m p len h []
            | _ \<Rightarrow> dict_loop (Suc (length m)) ok dec m p len h [])"

definition node_type :: "u8 \<Rightarrow> be_type option" where
  "node_type c = (if c = ascii CHR ''i'' then Some TNUM
     else if isdigit_byte c then Some TSTR
     else if c = ascii CHR ''l'' then Some TLIST
     else if c = ascii CHR ''d'' then Some TDICT
     else None)"

text \<open>The first argument is the number of levels left, \<open>BE_MAX_DEPTH + 1 - depth\<close>.\<close>

primrec be_decode1 :: "nat \<Rightarrow> outcomes \<Rightarrow> mem \<Rightarrow> decoder" where
  "be_decode1 0 ok m p len h = Some (Inl ELOOP, 0, h)"
| "be_decode1 (Suc d) ok m p len h =
     (if len = 0 then Some (Inl EINVAL, 0, h)
      else do {
        c \<leftarrow> byte_at m p;
        case node_type c of
          None \<Rightarrow> Some (Inl EINVAL, 0, h)
        | Some type \<Rightarrow> do {
            (ret, rest, h) \<leftarrow> decode_node ok m (be_decode1 d ok m) type p len h;
            Some (ret, size_sub len rest, h)
          }
      })"

definition BE_MAX_DEPTH :: nat where "BE_MAX_DEPTH = 10"

definition be_decode :: "outcomes \<Rightarrow> mem \<Rightarrow> nat \<Rightarrow> heap \<Rightarrow> ((errno + be_node) \<times> nat \<times> heap) option" where
  "be_decode ok m inBufLen h = be_decode1 BE_MAX_DEPTH ok m 0 inBufLen h"

subsection \<open>Writing\<close>

definition be_encode_str :: "be_str \<Rightarrow> mem option \<Rightarrow> nat \<Rightarrow> nat \<Rightarrow> (int \<times> mem option) option" where
  "be_encode_str s out p outBufLen =
     (let tmp = map ascii (dec_int (slen s) @ '':''); sz = int (length tmp) in
      case out of
        None \<Rightarrow> Some (sz + slen s, None)
      | Some m \<Rightarrow>
          if size_t_of (sz + slen s) > outBufLen then Some (- 1, out)
          else (case sbuf s of
              None \<Rightarrow> None
            | Some b \<Rightarrow>
                if slen s < 0 \<or> length b < nat (slen s) then None
                else do {
                  m' \<leftarrow> memcpy_at m p (tmp @ take (nat (slen s)) b);
                  Some (sz + slen s, Some m')
                }))"

text \<open>A state of the writer: the memory, the position and the space left; \<open>put_byte\<close> is
  \<open>*outBuf = c; EAT (outBuf, outBufLen)\<close> under \<open>if (outBuf)\<close>.\<close>

definition put_byte :: "char \<Rightarrow> mem option \<Rightarrow> nat \<Rightarrow> nat \<Rightarrow> (mem option \<times> nat \<times> nat) option" where
  "put_byte c out p n = (case out of
      None \<Rightarrow> Some (None, p, n)
    | Some m \<Rightarrow> map_option (\<lambda>m'. (Some m', Suc p, size_sub n 1)) (memcpy_at m p [ascii c]))"

text \<open>The end of a composite: \<open>if (outBuf) { if (outBufLen == 0) return -1; *outBuf = 'e'; } sz++\<close>.\<close>

definition put_end :: "mem option \<Rightarrow> nat \<Rightarrow> nat \<Rightarrow> int \<Rightarrow> (int \<times> mem option) option" where
  "put_end out p n sz = (case out of
      None \<Rightarrow> Some (int32_of (sz + 1), None)
    | Some m \<Rightarrow> if n = 0 then Some (- 1, out)
        else map_option (\<lambda>m'. (int32_of (sz + 1), Some m')) (memcpy_at m p [ascii CHR ''e'']))"

text \<open>\<open>CHECK_AND_UPDATE\<close>, with the rest of the loop as its continuation.\<close>

definition check_and_update :: "int \<times> mem option \<Rightarrow> nat \<Rightarrow> nat \<Rightarrow> int
    \<Rightarrow> (mem option \<Rightarrow> nat \<Rightarrow> nat \<Rightarrow> int \<Rightarrow> (int \<times> mem option) option) \<Rightarrow> (int \<times> mem option) option" where
  "check_and_update res p n sz cont = (case res of (r, out) \<Rightarrow>
     if r < 0 then Some (- 1, out)
     else if out = None then cont out p n (int32_of (sz + r))
     else cont out (p + nat r) (size_sub n (nat r)) (int32_of (sz + r)))"

type_synonym encode_cont = "mem option \<Rightarrow> nat \<Rightarrow> nat \<Rightarrow> int \<Rightarrow> (int \<times> mem option) option"

primrec be_encode :: "be_node \<Rightarrow> mem option \<Rightarrow> nat \<Rightarrow> nat \<Rightarrow> (int \<times> mem option) option"
  and encode_list :: "be_node list \<Rightarrow> encode_cont"
  and encode_entries :: "(be_str \<times> be_node option) list \<Rightarrow> encode_cont"
  and encode_entry :: "be_str \<times> be_node option \<Rightarrow> mem option \<Rightarrow> nat \<Rightarrow> nat \<Rightarrow> int \<Rightarrow> encode_cont \<Rightarrow> (int \<times> mem option) option"
  and encode_val :: "be_node option \<Rightarrow> mem option \<Rightarrow> nat \<Rightarrow> nat \<Rightarrow> (int \<times> mem option) option"
where
  "be_encode (BE_NUM i) out p n =
     (if out \<noteq> None \<and> n = 0 then Some (- 1, out)
      else let tmp = map ascii (''i'' @ dec_int i @ ''e''); sz = int (length tmp) in
        case out of None \<Rightarrow> Some (sz, None)
        | Some m \<Rightarrow> if length tmp > n then Some (- 1, out)
            else map_option (\<lambda>m'. (sz, Some m')) (memcpy_at m p tmp))"
| "be_encode (BE_STR s) out p n =
     (if out \<noteq> None \<and> n = 0 then Some (- 1, out)
      else map_option (\<lambda>(r, out). (if int32_of r < 0 then - 1 else int32_of r, out)) (be_encode_str s out p n))"
| "be_encode (BE_LIST xs) out p n =
     (if out \<noteq> None \<and> n = 0 then Some (- 1, out)
      else Option.bind (put_byte (CHR ''l'') out p n) (\<lambda>(out, p, n). encode_list xs out p n 1))"
| "be_encode (BE_DICT es) out p n =
     (if out \<noteq> None \<and> n = 0 then Some (- 1, out)
      else Option.bind (put_byte (CHR ''d'') out p n) (\<lambda>(out, p, n). encode_entries es out p n 1))"
| "encode_list [] = put_end"
| "encode_list (x # xs) = (\<lambda>out p n sz.
     Option.bind (be_encode x out p n) (\<lambda>res. check_and_update res p n sz (encode_list xs)))"
| "encode_entries [] = put_end"
| "encode_entries (e # es) = (\<lambda>out p n sz. encode_entry e out p n sz (encode_entries es))"
| "encode_entry (key, val) out p n sz cont =
     Option.bind (be_encode_str key out p n) (\<lambda>res. check_and_update res p n sz (\<lambda>out p n sz.
       Option.bind (encode_val val out p n) (\<lambda>res. check_and_update res p n sz cont)))"
| "encode_val None out p n = None"
| "encode_val (Some x) out p n = be_encode x out p n"

subsection \<open>Dictionaries\<close>

definition be_dict_free :: "be_str \<times> be_node option \<Rightarrow> heap \<Rightarrow> heap" where
  "be_dict_free entry h = be_free_entries [entry] h"

primrec lookup_loop :: "(be_str \<times> be_node option) list \<Rightarrow> u8 list \<Rightarrow> (be_str \<times> be_node option) option option" where
  "lookup_loop [] key = Some None"
| "lookup_loop (e # es) key = (case sbuf (fst e) of
       None \<Rightarrow> lookup_loop es key
     | Some b \<Rightarrow> do {
         d \<leftarrow> strcmp key b;
         if d = 0 then Some (Some e) else lookup_loop es key
       })"

text \<open>The value found, and the entry stored through \<open>dict_entry\<close>.\<close>

definition be_dict_lookup :: "be_node \<Rightarrow> u8 list \<Rightarrow> (be_node option \<times> (be_str \<times> be_node option) option) option" where
  "be_dict_lookup node key = (case node of
      BE_DICT es \<Rightarrow> map_option (\<lambda>e. (Option.bind e snd, e)) (lookup_loop es key)
    | _ \<Rightarrow> Some (None, None))"

definition be_dict_lookup_num :: "be_node \<Rightarrow> u8 list \<Rightarrow> int option" where
  "be_dict_lookup_num node key = do {
     (entry, _) \<leftarrow> be_dict_lookup node key;
     Some (case entry of Some (BE_NUM i) \<Rightarrow> i | _ \<Rightarrow> - 1)
   }"

definition be_dict_lookup_cstr :: "be_node \<Rightarrow> u8 list \<Rightarrow> u8 list option option" where
  "be_dict_lookup_cstr node key = do {
     (entry, _) \<leftarrow> be_dict_lookup node key;
     Some (case entry of Some (BE_STR s) \<Rightarrow> sbuf s | _ \<Rightarrow> None)
   }"

definition be_dict_lookup_cstr_len :: "be_node \<Rightarrow> u8 list \<Rightarrow> int option" where
  "be_dict_lookup_cstr_len node key = do {
     (entry, _) \<leftarrow> be_dict_lookup node key;
     Some (case entry of Some (BE_STR s) \<Rightarrow> slen s | _ \<Rightarrow> 0)
   }"

text \<open>The string and the new value of \<open>*size\<close>, when \<open>size\<close> is given and the entry is a string.\<close>

definition be_dict_lookup_cstr_size :: "be_node \<Rightarrow> u8 list \<Rightarrow> bool \<Rightarrow> (u8 list option \<times> int option) option" where
  "be_dict_lookup_cstr_size node key want = do {
     (entry, _) \<leftarrow> be_dict_lookup node key;
     Some (case entry of
         Some (BE_STR s) \<Rightarrow> (sbuf s, if want then Some (int32_of (slen s)) else None)
       | _ \<Rightarrow> (None, None))
   }"

definition strdup :: "outcomes \<Rightarrow> u8 list \<Rightarrow> heap \<Rightarrow> (u8 list option \<times> heap) option" where
  "strdup ok s h = do {
     n \<leftarrow> strlen s;
     let (got, h) = heap_alloc ok h in
     Some (if got then Some (take n s @ [0]) else None, h)
   }"

definition be_dict_entry_alloc :: "outcomes \<Rightarrow> heap \<Rightarrow> (be_str \<times> be_node option) option \<times> heap" where
  "be_dict_entry_alloc ok h = (case heap_alloc ok h of (got, h) \<Rightarrow>
     (if got then Some (no_str, None) else None, h))"

text \<open>Adding takes a pointer to the dictionary; NULL is only dereferenced when the entry is linked.\<close>

definition be_dict_add ::
  "outcomes \<Rightarrow> be_node option \<Rightarrow> u8 list \<Rightarrow> be_node option \<Rightarrow> heap \<Rightarrow> (int \<times> be_node option \<times> heap) option" where
  "be_dict_add ok dict keystr val h = (case be_dict_entry_alloc ok h of
      (None, h) \<Rightarrow> Some (- 1, dict, h)
    | (Some _, h) \<Rightarrow> do {
        (key, h) \<leftarrow> strdup ok keystr h;
        n \<leftarrow> strlen keystr;
        case key of
          None \<Rightarrow> Some (- 1, dict, heap_free h)
        | Some _ \<Rightarrow> (case dict of
              Some (BE_DICT es) \<Rightarrow> Some (0, Some (BE_DICT (es @ [(\<lparr>sbuf = key, slen = int n\<rparr>, val)])), h)
            | _ \<Rightarrow> None)
      })"

definition be_dict_add_str ::
  "outcomes \<Rightarrow> be_node option \<Rightarrow> u8 list \<Rightarrow> u8 list \<Rightarrow> heap \<Rightarrow> (int \<times> be_node option \<times> heap) option" where
  "be_dict_add_str ok dict keystr valstr h = (case be_alloc ok TSTR h of
      (None, h) \<Rightarrow> Some (- 1, dict, h)
    | (Some _, h) \<Rightarrow> do {
        (b, h) \<leftarrow> strdup ok valstr h;
        n \<leftarrow> strlen valstr;
        be_dict_add ok dict keystr (Some (BE_STR \<lparr>sbuf = b, slen = int n\<rparr>)) h
      })"

definition be_dict_add_str_with_len ::
  "outcomes \<Rightarrow> be_node option \<Rightarrow> u8 list \<Rightarrow> u8 list \<Rightarrow> int \<Rightarrow> heap \<Rightarrow> (int \<times> be_node option \<times> heap) option" where
  "be_dict_add_str_with_len ok dict keystr valstr len h = (case be_alloc ok TSTR h of
      (None, h) \<Rightarrow> Some (- 1, dict, h)
    | (Some _, h) \<Rightarrow> (case heap_alloc ok h of
          (False, h) \<Rightarrow> Some (- 1, dict, h)
        | (True, h) \<Rightarrow>
            if length valstr < size_t_of len then None
            else be_dict_add ok dict keystr
              (Some (BE_STR \<lparr>sbuf = Some (take (size_t_of len) valstr), slen = len\<rparr>)) h))"

definition be_dict_add_num ::
  "outcomes \<Rightarrow> be_node option \<Rightarrow> u8 list \<Rightarrow> int \<Rightarrow> heap \<Rightarrow> (int \<times> be_node option \<times> heap) option" where
  "be_dict_add_num ok dict keystr valnum h = (case be_alloc ok TNUM h of
      (None, h) \<Rightarrow> Some (- 1, dict, h)
    | (Some _, h) \<Rightarrow> be_dict_add ok dict keystr (Some (BE_NUM valnum)) h)"

subsection \<open>Every block is freed\<close>

fun be_blocks :: "be_node \<Rightarrow> int"
  and blocks_list :: "be_node list \<Rightarrow> int"
  and blocks_entries :: "(be_str \<times> be_node option) list \<Rightarrow> int" where
  "be_blocks (BE_STR s) = 1 + (if sbuf s = None then 0 else 1)"
| "be_blocks (BE_NUM i) = 1"
| "be_blocks (BE_LIST xs) = 1 + blocks_list xs"
| "be_blocks (BE_DICT es) = 1 + blocks_entries es"
| "blocks_list [] = 0"
| "blocks_list (x # xs) = be_blocks x + blocks_list xs"
| "blocks_entries [] = 0"
| "blocks_entries ((key, None) # es) = 1 + (if sbuf key = None then 0 else 1) + blocks_entries es"
| "blocks_entries ((key, Some val) # es) = 1 + (if sbuf key = None then 0 else 1) + be_blocks val + blocks_entries es"

lemma live_heap_free [simp]: "live (heap_free h) = live h - 1"
  by (simp add: heap_free_def)

lemma live_free_buf [simp]: "live (free_buf s h) = live h - (if sbuf s = None then 0 else 1)"
  by (simp add: free_buf_def)

lemma live_heap_alloc: "heap_alloc ok h = (got, h') \<Longrightarrow> live h' = live h + (if got then 1 else 0)"
  by (auto simp: heap_alloc_def)

lemma live_be_free [simp]:
  "live (be_free x h) = live h - be_blocks x"
  "live (be_free_list xs h) = live h - blocks_list xs"
  "live (be_free_entries es h) = live h - blocks_entries es"
  by (induction x h and xs h and es h rule: be_free_be_free_list_be_free_entries.induct) auto

lemma blocks_append [simp]:
  "blocks_list (xs @ ys) = blocks_list xs + blocks_list ys"
  "blocks_entries (es @ fs) = blocks_entries es + blocks_entries fs"
proof -
  show "blocks_list (xs @ ys) = blocks_list xs + blocks_list ys" by (induction xs) auto
  show "blocks_entries (es @ fs) = blocks_entries es + blocks_entries fs"
  proof (induction es)
    case (Cons e es)
    then show ?case by (cases e; cases "snd e") auto
  qed simp
qed

text \<open>The blocks a result owns.\<close>

definition owned :: "errno + be_node \<Rightarrow> int" where
  "owned r = (case r of Inl _ \<Rightarrow> 0 | Inr x \<Rightarrow> be_blocks x)"

lemma owned_simps [simp]: "owned (Inl e) = 0" "owned (Inr x) = be_blocks x"
  by (simp_all add: owned_def)

lemma be_decode_str_balanced:
  assumes run: "be_decode_str ok m p len h = Some (s, n, h')"
  shows "live h' = live h + (if sbuf s = None then 0 else 1)"
proof -
  from run obtain v rx where d: "be_decode_int m p len = Some (v, rx)"
    by (auto simp: be_decode_str_def in_set_bind_option)
  obtain got h1 where a: "heap_alloc ok h = (got, h1)" by force
  note l = live_heap_alloc [OF a]
  show ?thesis
  proof (cases "size_sub len rx = 0 \<or> v < 0 \<or> nat v > size_sub len rx - 1")
    case True
    with run d show ?thesis by (auto simp: be_decode_str_def Let_def no_str_def)
  next
    case False
    with run d obtain c where "byte_at m (p + rx) = Some c"
      by (cases "byte_at m (p + rx)") (simp_all add: be_decode_str_def Let_def)
    with run d a l False show ?thesis
      by (cases "c = ascii CHR '':''"; cases got)
        (simp_all add: be_decode_str_def Let_def no_str_def split: if_splits, auto)
  qed
qed

definition balanced :: "decoder \<Rightarrow> bool" where
  "balanced dec \<longleftrightarrow> (\<forall>p len h r n h'. dec p len h = Some (r, n, h') \<longrightarrow> live h' = live h + owned r)"

lemma balancedD: "balanced dec \<Longrightarrow> dec p len h = Some (r, n, h') \<Longrightarrow> live h' = live h + owned r"
  by (auto simp: balanced_def)

lemma list_loop_balanced:
  assumes dec: "balanced dec"
  shows "list_loop k dec m p len h xs = Some (r, n, h') \<Longrightarrow>
    live h' + be_blocks (BE_LIST xs) = live h + owned r"
proof (induction k arbitrary: p len h xs)
  case (Suc k)
  from Suc.prems obtain c where c: "byte_at m p = Some c" by (auto simp: in_set_bind_option)
  show ?case
  proof (cases "c = ascii CHR ''e''")
    case True
    with Suc.prems c show ?thesis by auto
  next
    case False
    with Suc.prems c obtain entry n1 h1 where d: "dec p len h = Some (entry, n1, h1)"
      by (auto simp: in_set_bind_option)
    from balancedD [OF dec d] have l: "live h1 = live h + owned entry" .
    show ?thesis
    proof (cases entry)
      case (Inl e)
      with Suc.prems c False d l show ?thesis by (auto simp: Let_def)
    next
      case (Inr x)
      with Suc.prems c False d l Suc.IH [of "p + n1" "size_sub len n1" h1 "xs @ [x]"]
      show ?thesis by (auto simp: Let_def split: if_splits)
    qed
  qed
qed simp

lemma dict_loop_balanced:
  assumes dec: "balanced dec"
  shows "dict_loop k ok dec m p len h es = Some (r, n, h') \<Longrightarrow>
    live h' + be_blocks (BE_DICT es) = live h + owned r"
proof (induction k arbitrary: p len h es)
  case (Suc k)
  from Suc.prems obtain c where c: "byte_at m p = Some c" by (auto simp: in_set_bind_option)
  show ?case
  proof (cases "c = ascii CHR ''e''")
    case True
    with Suc.prems c show ?thesis by auto
  next
    case False
    obtain got h1 where a: "heap_alloc ok h = (got, h1)" by force
    note l1 = live_heap_alloc [OF a]
    show ?thesis
    proof (cases got)
      case no: False
      with Suc.prems c False a l1 show ?thesis by auto
    next
      case True
      with Suc.prems c False a obtain key n2 h2 where s: "be_decode_str ok m p len h1 = Some (key, n2, h2)"
        by (auto simp: in_set_bind_option)
      note l2 = be_decode_str_balanced [OF s]
      show ?thesis
      proof (cases "sbuf key = None")
        case none: True
        with Suc.prems c False a True s l1 l2 show ?thesis by (auto simp: Let_def)
      next
        case some: False
        with Suc.prems c False a True s obtain val n3 h3 where
          d: "dec (p + n2) (size_sub len n2) h2 = Some (val, n3, h3)"
          by (auto simp: Let_def in_set_bind_option)
        note l3 = balancedD [OF dec d]
        show ?thesis
        proof (cases val)
          case (Inl e)
          with Suc.prems c False a True s some d l1 l2 l3 show ?thesis by (auto simp: Let_def)
        next
          case (Inr v)
          with Suc.prems c False a True s some d l1 l2 l3
            Suc.IH [of "p + n2 + n3" "size_sub (size_sub len n2) n3" h3 "es @ [(key, Some v)]"]
          show ?thesis by (auto simp: Let_def split: if_splits)
        qed
      qed
    qed
  qed
qed simp

lemma decode_num_balanced: "decode_num m p len h = Some (r, n, h') \<Longrightarrow> live h' + 1 = live h + owned r"
  unfolding decode_num_def Let_def by (auto simp: in_set_bind_option split: if_splits)

lemma be_blocks_empty [simp]: "be_blocks (be_empty type) = 1"
  by (cases type) (auto simp: be_empty_def)

lemma decode_node_balanced:
  assumes dec: "balanced dec" and run: "decode_node ok m dec type p len h = Some (r, n, h')"
  shows "live h' = live h + owned r"
proof -
  obtain got h1 where a: "heap_alloc ok h = (got, h1)" by force
  note l1 = live_heap_alloc [OF a]
  show ?thesis
  proof (cases got)
    case False
    with run a l1 show ?thesis by (auto simp: decode_node_def be_alloc_def)
  next
    case True
    show ?thesis
    proof (cases type)
      case TSTR
      with run a l1 True show ?thesis
        by (auto simp: decode_node_def be_alloc_def Let_def in_set_bind_option split: if_splits
            dest!: be_decode_str_balanced)
    next
      case TNUM
      with run a l1 True show ?thesis
        by (auto simp: decode_node_def be_alloc_def Let_def split: if_splits dest!: decode_num_balanced)
    next
      case TLIST
      with run a l1 True show ?thesis
        by (auto simp: decode_node_def be_alloc_def Let_def simp del: list_loop.simps split: if_splits
            dest!: list_loop_balanced [OF dec])
    next
      case TDICT
      with run a l1 True show ?thesis
        by (auto simp: decode_node_def be_alloc_def Let_def simp del: dict_loop.simps split: if_splits
            dest!: dict_loop_balanced [OF dec])
    qed
  qed
qed

lemma be_decode1_balanced: "balanced (be_decode1 d ok m)"
proof (induction d)
  case 0
  show ?case by (simp add: balanced_def)
next
  case (Suc d)
  show ?case unfolding balanced_def
    by (auto simp: in_set_bind_option split: if_splits option.splits dest: decode_node_balanced [OF Suc])
qed

subsection \<open>Progress\<close>

lemma size_sub_sub: "size_sub (size_sub len a) b = size_sub len (a + b)"
proof -
  have "int (size_t_of i) = i mod 2 ^ 64" for i
    by (simp add: size_t_of_def)
  then show ?thesis
    by (simp add: size_sub_def size_t_of_def mod_simps algebra_simps)
qed

lemma size_sub_bound [simp]: "size_sub a b < 18446744073709551616"
  using size_sub_less [of a b] by simp

lemma size_sub_size_sub: "a < 2 ^ 64 \<Longrightarrow> size_sub len (size_sub len a) = a"
proof -
  assume a: "a < 2 ^ 64"
  have "int (size_sub len (size_sub len a)) = int a mod 2 ^ 64"
    by (simp add: size_sub_def size_t_of_def mod_simps)
  with a show ?thesis by simp
qed

lemma byte_at_Some: "byte_at m p = Some c \<longleftrightarrow> p < length m \<and> c = m ! p"
  by (auto simp: byte_at_def)

lemma int_loop_progress:
  "int_loop len m p sign ret ov = Some (v, rest) \<Longrightarrow> p \<le> length m \<Longrightarrow>
   rest \<le> len \<and> p + (len - rest) \<le> length m"
proof (induction len arbitrary: p ret ov)
  case (Suc len)
  then obtain c where c: "byte_at m p = Some c" by (auto simp: in_set_bind_option)
  show ?case
  proof (cases "isdigit_byte c")
    case False
    with Suc.prems c show ?thesis by auto
  next
    case True
    with Suc.prems c obtain r o' where "int_loop len m (Suc p) sign r o' = Some (v, rest)"
      by (auto simp: in_set_bind_option split: if_splits)
    from Suc.IH [OF this] c show ?thesis by (auto simp: byte_at_Some)
  qed
qed simp

lemma be_decode_int_progress:
  assumes run: "be_decode_int m p len = Some (v, rx)" and m: "length m < 2 ^ 64" and len: "len < 2 ^ 64"
  shows "p + rx \<le> length m"
proof -
  from run obtain c where c: "byte_at m p = Some c" by (auto simp: be_decode_int_def in_set_bind_option)
  then have p: "p < length m" by (simp add: byte_at_Some)
  show ?thesis
  proof (cases "c = ascii CHR ''-''")
    case True
    with run c obtain rest where l: "int_loop (size_sub len 1) m (Suc p) (- 1) 0 False = Some (v, rest)"
      and rx: "rx = size_sub len rest"
      by (auto simp: be_decode_int_def in_set_bind_option)
    from int_loop_progress [OF l] p have r: "rest \<le> size_sub len 1" "Suc p + (size_sub len 1 - rest) \<le> length m"
      by auto
    define k where "k = size_sub len 1 - rest"
    have "rest = size_sub (size_sub len 1) k" using r(1) size_sub_less [of len 1] by (simp add: sizes k_def)
    then have "rest = size_sub len (Suc k)" by (simp add: size_sub_sub)
    moreover have "Suc k < 2 ^ 64" using r(2) m by (simp add: k_def)
    ultimately have "rx = Suc k" using rx size_sub_size_sub by simp
    with r(2) show ?thesis by (simp add: k_def)
  next
    case False
    with run c obtain rest where l: "int_loop len m p 1 0 False = Some (v, rest)"
      and rx: "rx = size_sub len rest"
      by (auto simp: be_decode_int_def in_set_bind_option)
    from int_loop_progress [OF l] p rx len show ?thesis by (auto simp: sizes)
  qed
qed

lemma be_decode_str_progress:
  assumes run: "be_decode_str ok m p len h = Some (s, n, h')" and m: "length m < 2 ^ 64" and len: "len < 2 ^ 64"
  shows "p + n \<le> length m \<and> (sbuf s \<noteq> None \<longrightarrow> 0 < n)"
proof -
  from run obtain v rx where d: "be_decode_int m p len = Some (v, rx)"
    by (auto simp: be_decode_str_def in_set_bind_option)
  from be_decode_int_progress [OF d m len] have rx: "p + rx \<le> length m" .
  then have "size_sub len (size_sub len rx) = rx" using m by (simp add: size_sub_size_sub)
  note stop = this
  obtain got h1 where a: "heap_alloc ok h = (got, h1)" by force
  show ?thesis
  proof (cases "size_sub len rx = 0 \<or> v < 0 \<or> nat v > size_sub len rx - 1")
    case True
    with run d rx stop show ?thesis by (auto simp: be_decode_str_def Let_def no_str_def)
  next
    case False
    with run d obtain c where c: "byte_at m (p + rx) = Some c"
      by (cases "byte_at m (p + rx)") (simp_all add: be_decode_str_def Let_def)
    show ?thesis
    proof (cases "c = ascii CHR '':'' \<and> got")
      case False': False
      with run d a False c rx stop show ?thesis
        by (cases "c = ascii CHR '':''") (auto simp: be_decode_str_def Let_def no_str_def split: if_splits)
    next
      case True
      then have le: "p + rx + 1 + nat v \<le> length m" and n: "n = size_sub len (size_sub len (rx + (nat v + 1)))"
        using run d a False c rx by (auto simp: be_decode_str_def Let_def size_sub_sub split: if_splits)
      from le m have "rx + (nat v + 1) < 2 ^ 64" by simp
      from size_sub_size_sub [OF this] n le show ?thesis by simp
    qed
  qed
qed

text \<open>A decoder that stays inside the memory and consumes something when it succeeds.\<close>

definition advances :: "mem \<Rightarrow> decoder \<Rightarrow> bool" where
  "advances m dec \<longleftrightarrow> (\<forall>p len h r n h'. p \<le> length m \<longrightarrow> len < 2 ^ 64 \<longrightarrow> dec p len h = Some (r, n, h') \<longrightarrow>
     p + n \<le> length m \<and> (isl r \<or> 0 < n))"

lemma advancesD:
  "advances m dec \<Longrightarrow> p \<le> length m \<Longrightarrow> len < 2 ^ 64 \<Longrightarrow> dec p len h = Some (r, n, h') \<Longrightarrow>
   p + n \<le> length m \<and> (isl r \<or> 0 < n)"
  unfolding advances_def by blast

text \<open>What the loops return: the remaining length after the bytes up to a position inside the memory.\<close>

definition stops_at :: "mem \<Rightarrow> nat \<Rightarrow> nat \<Rightarrow> errno + be_node \<Rightarrow> nat \<Rightarrow> bool" where
  "stops_at m p len r rest \<longleftrightarrow> (\<exists>n. rest = size_sub len n \<and> p + n \<le> length m \<and> (isl r \<or> 0 < n))"

lemma stops_atI: "rest = size_sub len n \<Longrightarrow> p + n \<le> length m \<Longrightarrow> isl r \<or> 0 < n \<Longrightarrow> stops_at m p len r rest"
  by (auto simp: stops_at_def)

lemma stops_at_later: "stops_at m (p + n) (size_sub len n) r rest \<Longrightarrow> stops_at m p len r rest"
  by (auto simp: stops_at_def size_sub_sub add.assoc intro: exI [of _ "n + _"])

lemma list_loop_progress:
  assumes dec: "advances m dec"
  shows "list_loop k dec m p len h xs = Some (r, rest, h') \<Longrightarrow> len < 2 ^ 64 \<Longrightarrow> stops_at m p len r rest"
proof (induction k arbitrary: p len h xs)
  case (Suc k)
  from Suc.prems obtain c where c: "byte_at m p = Some c" by (auto simp: in_set_bind_option)
  show ?case
  proof (cases "c = ascii CHR ''e''")
    case True
    with Suc.prems c show ?thesis by (auto simp: byte_at_Some intro!: stops_atI [of _ _ 1])
  next
    case False
    with Suc.prems c obtain entry n1 h1 where d: "dec p len h = Some (entry, n1, h1)"
      by (auto simp: in_set_bind_option)
    from advancesD [OF dec _ Suc.prems(2) d] c have n1: "p + n1 \<le> length m" by (simp add: byte_at_Some)
    show ?thesis
    proof (cases entry)
      case (Inl e)
      with Suc.prems c False d n1 show ?thesis by (auto simp: Let_def intro!: stops_atI [of _ _ n1])
    next
      case (Inr x)
      with Suc.prems c False d n1 Suc.IH [of "p + n1" "size_sub len n1" h1 "xs @ [x]"] size_sub_less [of len n1]
      show ?thesis by (auto simp: Let_def split: if_splits intro: stops_at_later stops_atI [of _ _ n1])
    qed
  qed
qed simp

lemma dict_loop_progress:
  assumes dec: "advances m dec" and m: "length m < 2 ^ 64"
  shows "dict_loop k ok dec m p len h es = Some (r, rest, h') \<Longrightarrow> len < 2 ^ 64 \<Longrightarrow> stops_at m p len r rest"
proof (induction k arbitrary: p len h es)
  case (Suc k)
  from Suc.prems obtain c where c: "byte_at m p = Some c" by (auto simp: in_set_bind_option)
  obtain got h1 where a: "heap_alloc ok h = (got, h1)" by force
  show ?case
  proof (cases "c = ascii CHR ''e'' \<or> \<not> got")
    case True
    with Suc.prems c a show ?thesis
      by (auto simp: byte_at_Some size_sub_def [of _ 0] sizes intro: stops_atI [of _ _ 1] stops_atI [of _ _ 0] split: if_splits)
  next
    case False
    with Suc.prems c a obtain key n2 h2 where s: "be_decode_str ok m p len h1 = Some (key, n2, h2)"
      by (auto simp: in_set_bind_option)
    from be_decode_str_progress [OF s m Suc.prems(2)] have n2: "p + n2 \<le> length m" by simp
    show ?thesis
    proof (cases "sbuf key = None")
      case True
      with Suc.prems c False a s n2 show ?thesis by (auto simp: Let_def intro!: stops_atI [of _ _ n2])
    next
      case some: False
      with Suc.prems c False a s obtain val n3 h3 where
        d: "dec (p + n2) (size_sub len n2) h2 = Some (val, n3, h3)"
        by (auto simp: Let_def in_set_bind_option)
      from advancesD [OF dec n2 size_sub_less d] have n3: "p + (n2 + n3) \<le> length m" by simp
      show ?thesis
      proof (cases val)
        case (Inl e)
        with Suc.prems c False a s some d n3 show ?thesis
          by (auto simp: Let_def size_sub_sub intro!: stops_atI [of _ _ "n2 + n3"])
      next
        case (Inr v)
        with Suc.prems c False a s some d n3
          Suc.IH [of "p + (n2 + n3)" "size_sub len (n2 + n3)" h3 "es @ [(key, Some v)]"]
          size_sub_less [of len "n2 + n3"]
        show ?thesis
          by (auto simp: Let_def size_sub_sub add.assoc split: if_splits
              intro: stops_at_later stops_atI [of _ _ "n2 + n3"])
      qed
    qed
  qed
qed simp

lemma decode_num_progress:
  assumes run: "decode_num m p len h = Some (r, rest, h')" and m: "length m < 2 ^ 64" and len: "len < 2 ^ 64"
  shows "stops_at m p len r rest"
proof -
  from run obtain i n where d: "be_decode_int m p len = Some (i, n)"
    by (auto simp: decode_num_def in_set_bind_option)
  from run d obtain c where c: "byte_at m (p + n) = Some c"
    by (auto simp: decode_num_def Let_def in_set_bind_option)
  show ?thesis
  proof (cases "c = ascii CHR ''e''")
    case True
    with run d c show ?thesis
      by (auto simp: decode_num_def Let_def byte_at_Some size_sub_sub intro!: stops_atI [of _ _ "Suc n"])
  next
    case False
    with run d c show ?thesis
      by (auto simp: decode_num_def Let_def byte_at_Some intro!: stops_atI [of _ _ n])
  qed
qed

lemma decode_node_progress:
  assumes dec: "advances m dec" and m: "length m < 2 ^ 64" and len: "0 < len" "len < 2 ^ 64" and p: "p < length m"
    and run: "decode_node ok m dec type p len h = Some (r, rest, h')"
  shows "stops_at m p len r rest"
proof -
  obtain got h1 where a: "heap_alloc ok h = (got, h1)" by force
  have one: "stops_at m p len r rest" if "stops_at m (Suc p) (size_sub len 1) r rest"
    using stops_at_later [of m p 1 len r rest] that by simp
  show ?thesis
  proof (cases got)
    case False
    with run a p len show ?thesis
      by (auto simp: decode_node_def be_alloc_def sizes intro!: stops_atI [of _ _ 0])
  next
    case True
    have empty: "stops_at m p len (Inl EINVAL) (size_sub len 1)" using p by (intro stops_atI [of _ _ 1]) auto
    show ?thesis
    proof (cases type)
      case TSTR
      with run a True obtain s n h2 where s: "be_decode_str ok m p len h1 = Some (s, n, h2)"
        by (auto simp: decode_node_def be_alloc_def in_set_bind_option)
      from be_decode_str_progress [OF s m len(2)] run a True TSTR s show ?thesis
        by (auto simp: decode_node_def be_alloc_def Let_def split: if_splits intro!: stops_atI [of _ _ n])
    next
      case TNUM
      with run a True empty one decode_num_progress [OF _ m size_sub_less, of "Suc p" len 1 h1 r rest h']
      show ?thesis by (auto simp: decode_node_def be_alloc_def Let_def split: if_splits)
    next
      case TLIST
      with run a True empty one list_loop_progress [OF dec _ size_sub_less, of "Suc (length m)" "Suc p" len 1 h1 "[]" r rest h']
      show ?thesis
        by (auto simp: decode_node_def be_alloc_def Let_def simp del: list_loop.simps split: if_splits)
    next
      case TDICT
      with run a True empty one
        dict_loop_progress [OF dec m _ size_sub_less, of "Suc (length m)" ok "Suc p" len 1 h1 "[]" r rest h']
      show ?thesis
        by (auto simp: decode_node_def be_alloc_def Let_def simp del: dict_loop.simps split: if_splits)
    qed
  qed
qed

lemma be_decode1_advances:
  assumes m: "length m < 2 ^ 64"
  shows "advances m (be_decode1 d ok m)"
proof (induction d)
  case 0
  show ?case by (auto simp: advances_def)
next
  case (Suc d)
  show ?case unfolding advances_def
  proof (intro allI impI)
    fix p len h r n h'
    assume p: "p \<le> length m" and len: "len < 2 ^ 64" and run: "be_decode1 (Suc d) ok m p len h = Some (r, n, h')"
    show "p + n \<le> length m \<and> (isl r \<or> 0 < n)"
    proof (cases "len = 0")
      case True
      with run p show ?thesis by auto
    next
      case False
      with run obtain c where c: "byte_at m p = Some c" by (auto simp: in_set_bind_option)
      show ?thesis
      proof (cases "node_type c")
        case None
        with run c False p show ?thesis by auto
      next
        case (Some type)
        with run c False obtain rest where
          dn: "decode_node ok m (be_decode1 d ok m) type p len h = Some (r, rest, h')" "n = size_sub len rest"
          by (auto simp: in_set_bind_option)
        from decode_node_progress [OF Suc m _ len _ dn(1)] False c obtain k where
          k: "rest = size_sub len k" "p + k \<le> length m" "isl r \<or> 0 < k"
          by (auto simp: stops_at_def byte_at_Some)
        then have "n = k" using dn(2) m by (simp add: size_sub_size_sub)
        with k show ?thesis by simp
      qed
    qed
  qed
qed

text \<open>The bound on the iterations is enough: a larger one gives the same result.\<close>

lemma list_loop_fuel:
  assumes dec: "advances m dec"
  shows "length m < p + k \<Longrightarrow> len < 2 ^ 64 \<Longrightarrow> list_loop (k + j) dec m p len h xs = list_loop k dec m p len h xs"
proof (induction k arbitrary: p len h xs)
  case 0
  then show ?case by (cases j) (auto simp: byte_at_def)
next
  case (Suc k)
  have "list_loop (k + j) dec m (p + n) (size_sub len n) h' (xs @ [x]) = list_loop k dec m (p + n) (size_sub len n) h' (xs @ [x])"
    if "dec p len h = Some (Inr x, n, h')" "p < length m" for x n h'
    using advancesD [OF dec _ Suc.prems(2) that(1)] that(2) Suc.prems
    by (intro Suc.IH) (auto simp: size_sub_less)
  then show ?case
    by (auto simp: Let_def byte_at_def intro!: Option.bind_cong split: sum.splits)
qed

lemma dict_loop_fuel:
  assumes dec: "advances m dec" and m: "length m < 2 ^ 64"
  shows "length m < p + k \<Longrightarrow> len < 2 ^ 64 \<Longrightarrow> dict_loop (k + j) ok dec m p len h es = dict_loop k ok dec m p len h es"
proof (induction k arbitrary: p len h es)
  case 0
  then show ?case by (cases j) (auto simp: byte_at_def)
next
  case (Suc k)
  have "dict_loop (k + j) ok dec m (p + n + n') (size_sub (size_sub len n) n') h3 es' =
      dict_loop k ok dec m (p + n + n') (size_sub (size_sub len n) n') h3 es'"
    if "be_decode_str ok m p len h1 = Some (key, n, h2)" "sbuf key \<noteq> None"
      "dec (p + n) (size_sub len n) h2 = Some (v, n', h3)" for key n h1 h2 v n' h3 es'
  proof -
    from be_decode_str_progress [OF that(1) m Suc.prems(2)] that(2) have "p + n \<le> length m" "0 < n" by auto
    with Suc.prems show ?thesis by (intro Suc.IH) (auto simp: size_sub_less)
  qed
  then show ?case
    by (auto simp: Let_def intro!: Option.bind_cong split: sum.splits prod.splits)
qed

end
