(* ===== verification/Uvg_BencodeCodec.thy ===== *)
theory Uvg_BencodeCodec
  imports Uvg_Bencode
begin

text \<open>
  The bencode format itself, and the reader and the writer related to it: \<open>benc\<close> is the encoding
  of a value, \<open>be_encode\<close> writes exactly it (or reports that the space is too small, without leaving
  it), and \<open>be_decode\<close> reads it back.
\<close>

subsection \<open>The format\<close>

definition str_bytes :: "be_str \<Rightarrow> u8 list" where
  "str_bytes s = (case sbuf s of None \<Rightarrow> [] | Some b \<Rightarrow> take (nat (slen s)) b)"

definition str_ok :: "be_str \<Rightarrow> bool" where
  "str_ok s \<longleftrightarrow> (case sbuf s of None \<Rightarrow> False | Some b \<Rightarrow> 0 \<le> slen s \<and> nat (slen s) \<le> length b)"

definition benc_str :: "be_str \<Rightarrow> u8 list" where
  "benc_str s = map ascii (dec_int (slen s) @ '':'') @ str_bytes s"

fun benc :: "be_node \<Rightarrow> u8 list"
  and benc_list :: "be_node list \<Rightarrow> u8 list"
  and benc_entries :: "(be_str \<times> be_node option) list \<Rightarrow> u8 list" where
  "benc (BE_STR s) = benc_str s"
| "benc (BE_NUM i) = map ascii (''i'' @ dec_int i @ ''e'')"
| "benc (BE_LIST xs) = ascii CHR ''l'' # benc_list xs @ [ascii CHR ''e'']"
| "benc (BE_DICT es) = ascii CHR ''d'' # benc_entries es @ [ascii CHR ''e'']"
| "benc_list [] = []"
| "benc_list (x # xs) = benc x @ benc_list xs"
| "benc_entries [] = []"
| "benc_entries ((key, None) # es) = benc_str key @ benc_entries es"
| "benc_entries ((key, Some v) # es) = benc_str key @ benc v @ benc_entries es"

text \<open>A value that can be written: strings with their bytes, dictionary entries with a value, and
  numbers in range.\<close>

fun node_ok :: "be_node \<Rightarrow> bool"
  and list_ok :: "be_node list \<Rightarrow> bool"
  and entries_ok :: "(be_str \<times> be_node option) list \<Rightarrow> bool" where
  "node_ok (BE_STR s) \<longleftrightarrow> str_ok s"
| "node_ok (BE_NUM i) \<longleftrightarrow> LLONG_MIN \<le> i \<and> i \<le> LLONG_MAX"
| "node_ok (BE_LIST xs) \<longleftrightarrow> list_ok xs"
| "node_ok (BE_DICT es) \<longleftrightarrow> entries_ok es"
| "list_ok [] \<longleftrightarrow> True"
| "list_ok (x # xs) \<longleftrightarrow> node_ok x \<and> list_ok xs"
| "entries_ok [] \<longleftrightarrow> True"
| "entries_ok ((key, None) # es) \<longleftrightarrow> False"
| "entries_ok ((key, Some v) # es) \<longleftrightarrow> str_ok key \<and> node_ok v \<and> entries_ok es"

fun be_depth :: "be_node \<Rightarrow> nat"
  and depth_list :: "be_node list \<Rightarrow> nat"
  and depth_entries :: "(be_str \<times> be_node option) list \<Rightarrow> nat" where
  "be_depth (BE_STR s) = 1"
| "be_depth (BE_NUM i) = 1"
| "be_depth (BE_LIST xs) = Suc (depth_list xs)"
| "be_depth (BE_DICT es) = Suc (depth_entries es)"
| "depth_list [] = 0"
| "depth_list (x # xs) = max (be_depth x) (depth_list xs)"
| "depth_entries [] = 0"
| "depth_entries ((key, None) # es) = depth_entries es"
| "depth_entries ((key, Some v) # es) = max (be_depth v) (depth_entries es)"

text \<open>What the reader makes of a string: the bytes and a NUL in a block of their own.\<close>

definition norm_str :: "be_str \<Rightarrow> be_str" where
  "norm_str s = \<lparr>sbuf = Some (str_bytes s @ [0]), slen = slen s\<rparr>"

fun be_norm :: "be_node \<Rightarrow> be_node"
  and norm_list :: "be_node list \<Rightarrow> be_node list"
  and norm_entries :: "(be_str \<times> be_node option) list \<Rightarrow> (be_str \<times> be_node option) list" where
  "be_norm (BE_STR s) = BE_STR (norm_str s)"
| "be_norm (BE_NUM i) = BE_NUM i"
| "be_norm (BE_LIST xs) = BE_LIST (norm_list xs)"
| "be_norm (BE_DICT es) = BE_DICT (norm_entries es)"
| "norm_list [] = []"
| "norm_list (x # xs) = be_norm x # norm_list xs"
| "norm_entries [] = []"
| "norm_entries ((key, None) # es) = (norm_str key, None) # norm_entries es"
| "norm_entries ((key, Some v) # es) = (norm_str key, Some (be_norm v)) # norm_entries es"

subsection \<open>Numbers\<close>

definition digits_value :: "int \<Rightarrow> u8 list \<Rightarrow> int" where
  "digits_value a ds = foldl (\<lambda>a c. 10 * a + (uint c - 48)) a ds"

lemma digits_value_simps [simp]:
  "digits_value a [] = a" "digits_value a (c # ds) = digits_value (10 * a + (uint c - 48)) ds"
  by (simp_all add: digits_value_def)

lemma isdigit_byte_range: "isdigit_byte c \<Longrightarrow> 48 \<le> uint c \<and> uint c \<le> 57"
  by (auto simp: isdigit_byte_def word_le_def)

lemma digits_value_ge: "0 \<le> a \<Longrightarrow> \<forall>c \<in> set ds. isdigit_byte c \<Longrightarrow> a \<le> digits_value a ds"
proof (induction ds arbitrary: a)
  case (Cons c ds)
  then have "10 * a + (uint c - 48) \<le> digits_value (10 * a + (uint c - 48)) ds"
    using isdigit_byte_range [of c] by (intro Cons.IH) auto
  with Cons.prems isdigit_byte_range [of c] show ?case by simp
qed simp

lemma drop_Cons_nth: "drop p m = c # rest \<Longrightarrow> p < length m \<and> m ! p = c \<and> drop (Suc p) m = rest"
  by (metis drop_eq_Nil2 list.discI list.inject not_le Cons_nth_drop_Suc)

lemma byte_at_drop: "drop p m = c # rest \<Longrightarrow> byte_at m p = Some c"
  using drop_Cons_nth [of p m c rest] by (simp add: byte_at_def)

lemma int_loop_digits:
  assumes "\<forall>c \<in> set ds. isdigit_byte c" "drop p m = ds @ tail"
    "length ds < len \<longrightarrow> (\<exists>c rest. tail = c # rest \<and> \<not> isdigit_byte c)"
    "length ds \<le> len" "sign = 1 \<or> sign = - 1" "0 \<le> a"
    "LLONG_MIN \<le> sign * digits_value a ds" "sign * digits_value a ds \<le> LLONG_MAX"
  shows "int_loop len m p sign (sign * a) False = Some (sign * digits_value a ds, len - length ds)"
  using assms
proof (induction ds arbitrary: p a len)
  case Nil
  then show ?case using byte_at_drop [of p m] by (cases len) auto
next
  case (Cons d ds)
  then obtain l where len: "len = Suc l" by (cases len) auto
  define a' where "a' = 10 * a + (uint d - 48)"
  have d: "48 \<le> uint d" "uint d \<le> 57" using isdigit_byte_range [of d] Cons.prems(1) by auto
  have a': "0 \<le> a'" "10 * a \<le> a'" using d Cons.prems(6) by (auto simp: a'_def)
  have ge: "a' \<le> digits_value a' ds" using digits_value_ge [OF a'(1)] Cons.prems(1) by simp
  have bnd: "LLONG_MIN \<le> sign * digits_value a' ds" "sign * digits_value a' ds \<le> LLONG_MAX"
    using Cons.prems(7,8) by (simp_all add: a'_def)
  have ll: "llong (sign * a * 10) = Some (sign * a * 10)" "llong (sign * a * 10 + (uint d - 48) * sign) = Some (sign * a')"
    using bnd ge a' Cons.prems(5,6) by (auto simp: llong_def a'_def algebra_simps)
  have "drop (Suc p) m = ds @ tail" using Cons.prems(2) drop_Cons_nth [of p m d] by simp
  from Cons.IH [OF _ this _ _ Cons.prems(5) a'(1) bnd, of l] len Cons.prems(1,3,4)
  have IH: "int_loop l m (Suc p) sign (sign * a') False = Some (sign * digits_value a' ds, l - length ds)" by simp
  have "\<not> (sign = 1 \<and> sign * a' < sign * a)" "\<not> (sign = - 1 \<and> sign * a < sign * a')"
    using a' Cons.prems(6) by auto
  moreover have "byte_at m p = Some d" using Cons.prems(2) byte_at_drop [of p m d] by simp
  ultimately show ?case using IH ll len Cons.prems(1) by (auto simp: a'_def [symmetric])
qed

lemma unat_ascii [simp]: "unat (ascii c) = (of_char c :: nat)"
proof -
  have "ascii c = word_of_nat (of_char c)" by (simp add: of_nat_of_char)
  then show ?thesis by (simp add: unat_of_nat)
qed

lemma uint_ascii [simp]: "uint (ascii c) = int (of_char c)"
  using unat_ascii [of c] by (simp only: uint_nat)

lemma isdigit_ascii [simp]: "isdigit_byte (ascii c) \<longleftrightarrow> is_digit c"
  by (simp add: isdigit_byte_def is_digit_def word_le_nat_alt)

lemma digits_value_digits:
  "\<forall>c \<in> set s. is_digit c \<Longrightarrow>
   digits_value (int a) (map ascii s) = int (foldl (\<lambda>a c. 10 * a + digit_value c) a s)"
proof (induction s arbitrary: a)
  case (Cons c s)
  from Cons.prems have "10 * int a + (int (of_char c) - 48) = int (10 * a + digit_value c)"
    by (simp add: digit_value_def is_digit_def of_nat_diff)
  with Cons.IH [of "10 * a + digit_value c"] Cons.prems show ?case by simp
qed simp

lemma digits_value_dec_nat: "digits_value 0 (map ascii (dec_nat n)) = int n"
  using digits_value_digits [of "dec_nat n" 0] dec_nat_digits dec_value_dec_nat [of n]
  by (simp add: dec_value_def)

lemma be_decode_int_dec_int:
  assumes mem: "drop p m = map ascii (dec_int i) @ c # rest" and c: "\<not> isdigit_byte c"
    and i: "LLONG_MIN \<le> i" "i \<le> LLONG_MAX" and len: "length (dec_int i) < len" "len < 2 ^ 64"
  shows "be_decode_int m p len = Some (i, length (dec_int i))"
proof (cases "i < 0")
  case True
  define ds where "ds = map ascii (dec_nat (nat (- i)))"
  have mem': "drop p m = ascii CHR ''-'' # ds @ c # rest" using mem True by (simp add: dec_int_def ds_def)
  have "int_loop (len - 1) m (Suc p) (- 1) (- 1 * 0) False = Some (- 1 * digits_value 0 ds, len - 1 - length ds)"
    by (rule int_loop_digits)
      (use drop_Cons_nth [OF mem'] c len i True dec_nat_digits in
        \<open>auto simp: ds_def digits_value_dec_nat dec_int_def\<close>)
  with byte_at_drop [OF mem'] True len show ?thesis
    by (simp add: be_decode_int_def sizes ds_def digits_value_dec_nat dec_int_def)
next
  case False
  define ds where "ds = map ascii (dec_nat (nat i))"
  have mem': "drop p m = ds @ c # rest" using mem False by (simp add: dec_int_def ds_def)
  have "int_loop len m p 1 (1 * 0) False = Some (1 * digits_value 0 ds, len - length ds)"
    by (rule int_loop_digits)
      (use mem' c len i False dec_nat_digits in \<open>auto simp: ds_def digits_value_dec_nat dec_int_def\<close>)
  then have loop: "int_loop len m p 1 0 False = Some (i, len - length (dec_int i))"
    using False by (simp add: ds_def digits_value_dec_nat dec_int_def)
  obtain d ds' where ds: "ds = d # ds'" by (cases ds) (auto simp: ds_def)
  then have "isdigit_byte d" using dec_nat_hd [of "nat i"] by (auto simp: ds_def)
  then have "d \<noteq> ascii CHR ''-''" by (auto simp: isdigit_byte_def)
  with byte_at_drop [of p m d] mem' ds loop False len show ?thesis
    by (simp add: be_decode_int_def sizes)
qed

subsection \<open>Reading an encoding\<close>

lemma length_str_bytes: "str_ok s \<Longrightarrow> length (str_bytes s) = nat (slen s) \<and> 0 \<le> slen s"
  by (auto simp: str_ok_def str_bytes_def split: option.splits)

lemma heap_alloc_ok: "(\<And>i. ok i) \<Longrightarrow> \<exists>h'. heap_alloc ok h = (True, h')"
  by (simp add: heap_alloc_def)

lemma drop_append_prefix: "drop p m = xs @ ys \<Longrightarrow> drop (p + length xs) m = ys"
  by (metis append_eq_conv_conj drop_drop add.commute)

lemma be_decode_str_benc:
  assumes mem: "drop p m = benc_str s @ rest" and s: "str_ok s" and len: "length (benc_str s) \<le> len" "len < 2 ^ 64"
    and m: "length m < 2 ^ 63" and ok: "\<And>i. ok i"
  shows "\<exists>h'. be_decode_str ok m p len h = Some (norm_str s, length (benc_str s), h')"
proof -
  let ?ds = "map ascii (dec_int (slen s))"
  from mem have mem': "drop p m = ?ds @ ascii CHR '':'' # str_bytes s @ rest" by (simp add: benc_str_def)
  note colon = drop_append_prefix [OF mem'] 
  then have colon': "drop (p + length (dec_int (slen s))) m = ascii CHR '':'' # str_bytes s @ rest" by simp
  note body = drop_Cons_nth [OF colon']
  from body have "length (str_bytes s) \<le> length m - Suc (p + length (dec_int (slen s)))"
    by (metis length_drop length_append le_add1)
  then have fits: "Suc (p + length (dec_int (slen s))) + nat (slen s) \<le> length m"
    using length_str_bytes [OF s] body by linarith
  have i: "be_decode_int m p len = Some (slen s, length (dec_int (slen s)))"
    by (rule be_decode_int_dec_int [OF mem'])
      (use s m fits len length_str_bytes [OF s] in \<open>auto simp: isdigit_byte_def benc_str_def\<close>)
  obtain h' where h': "heap_alloc ok h = (True, h')" using heap_alloc_ok [of ok h] ok by blast
  have "take (nat (slen s)) (drop (Suc (p + length (dec_int (slen s)))) m) = str_bytes s"
    using body length_str_bytes [OF s] by simp
  then show ?thesis
    using i h' byte_at_drop [OF colon'] fits len length_str_bytes [OF s]
    by (auto simp: be_decode_str_def Let_def sizes benc_str_def norm_str_def)
qed

definition reads_node :: "outcomes \<Rightarrow> mem \<Rightarrow> be_node \<Rightarrow> bool" where
  "reads_node ok m x \<longleftrightarrow> (\<forall>d p len h rest. be_depth x \<le> d \<longrightarrow> drop p m = benc x @ rest \<longrightarrow>
     length (benc x) \<le> len \<longrightarrow> len < 2 ^ 64 \<longrightarrow>
     (\<exists>h'. be_decode1 d ok m p len h = Some (Inr (be_norm x), length (benc x), h')))"

definition reads_list :: "outcomes \<Rightarrow> mem \<Rightarrow> be_node list \<Rightarrow> bool" where
  "reads_list ok m xs \<longleftrightarrow> (\<forall>d p len h rest acc k. depth_list xs \<le> d \<longrightarrow>
     drop p m = benc_list xs @ ascii CHR ''e'' # rest \<longrightarrow> length (benc_list xs) < len \<longrightarrow> len < 2 ^ 64 \<longrightarrow>
     length xs < k \<longrightarrow>
     (\<exists>h'. list_loop k (be_decode1 d ok m) m p len h acc =
        Some (Inr (BE_LIST (acc @ norm_list xs)), len - Suc (length (benc_list xs)), h')))"

definition reads_entries :: "outcomes \<Rightarrow> mem \<Rightarrow> (be_str \<times> be_node option) list \<Rightarrow> bool" where
  "reads_entries ok m es \<longleftrightarrow> (\<forall>d p len h rest acc k. depth_entries es \<le> d \<longrightarrow>
     drop p m = benc_entries es @ ascii CHR ''e'' # rest \<longrightarrow> length (benc_entries es) < len \<longrightarrow> len < 2 ^ 64 \<longrightarrow>
     length es < k \<longrightarrow>
     (\<exists>h'. dict_loop k ok (be_decode1 d ok m) m p len h acc =
        Some (Inr (BE_DICT (acc @ norm_entries es)), len - Suc (length (benc_entries es)), h')))"

lemma reads_nodeD:
  "reads_node ok m x \<Longrightarrow> drop p m = benc x @ rest \<Longrightarrow> be_depth x \<le> d \<Longrightarrow> length (benc x) \<le> len \<Longrightarrow> len < 2 ^ 64 \<Longrightarrow>
   \<exists>h'. be_decode1 d ok m p len h = Some (Inr (be_norm x), length (benc x), h')"
  unfolding reads_node_def by blast

lemma reads_listD:
  "reads_list ok m xs \<Longrightarrow> drop p m = benc_list xs @ ascii CHR ''e'' # rest \<Longrightarrow> depth_list xs \<le> d \<Longrightarrow>
   length (benc_list xs) < len \<Longrightarrow> len < 2 ^ 64 \<Longrightarrow> length xs < k \<Longrightarrow>
   \<exists>h'. list_loop k (be_decode1 d ok m) m p len h acc =
     Some (Inr (BE_LIST (acc @ norm_list xs)), len - Suc (length (benc_list xs)), h')"
  unfolding reads_list_def by blast

lemma reads_entriesD:
  "reads_entries ok m es \<Longrightarrow> drop p m = benc_entries es @ ascii CHR ''e'' # rest \<Longrightarrow> depth_entries es \<le> d \<Longrightarrow>
   length (benc_entries es) < len \<Longrightarrow> len < 2 ^ 64 \<Longrightarrow> length es < k \<Longrightarrow>
   \<exists>h'. dict_loop k ok (be_decode1 d ok m) m p len h acc =
     Some (Inr (BE_DICT (acc @ norm_entries es)), len - Suc (length (benc_entries es)), h')"
  unfolding reads_entries_def by blast

lemma benc_str_first: "str_ok s \<Longrightarrow> \<exists>c cs. benc_str s = c # cs \<and> isdigit_byte c"
  using length_str_bytes [of s] dec_nat_hd [of "nat (slen s)"]
  by (cases "dec_nat (nat (slen s))") (auto simp: benc_str_def dec_int_def)

lemma isdigit_byte_not:
  "isdigit_byte c \<Longrightarrow> c \<noteq> 100 \<and> c \<noteq> 101 \<and> c \<noteq> 105 \<and> c \<noteq> 108"
  by (auto simp: isdigit_byte_def)

lemma benc_first: "node_ok x \<Longrightarrow> \<exists>c cs. benc x = c # cs \<and> c \<noteq> ascii CHR ''e''"
  using benc_str_first isdigit_byte_not by (cases x) fastforce+

lemma benc_nonempty: "node_ok x \<Longrightarrow> 0 < length (benc x)"
  using benc_first [of x] by auto

lemma length_le_benc:
  shows "list_ok xs \<Longrightarrow> length xs \<le> length (benc_list xs)"
    and "entries_ok es \<Longrightarrow> length es \<le> length (benc_entries es)"
proof -
  show "list_ok xs \<Longrightarrow> length xs \<le> length (benc_list xs)"
  proof (induction xs)
    case (Cons x xs)
    with benc_first [of x] show ?case by auto
  qed simp
  show "entries_ok es \<Longrightarrow> length es \<le> length (benc_entries es)"
  proof (induction es)
    case (Cons e es)
    then obtain key v where "e = (key, Some v)" by (cases e; cases "snd e") auto
    with Cons benc_first [of v] show ?case by auto
  qed simp
qed

lemma reads_str:
  assumes "str_ok s" "length m < 2 ^ 63" "\<And>i. ok i"
  shows "reads_node ok m (BE_STR s)"
  unfolding reads_node_def
proof (intro allI impI)
  fix d p len h rest
  assume a: "be_depth (BE_STR s) \<le> d" "drop p m = benc (BE_STR s) @ rest" "length (benc (BE_STR s)) \<le> len" "len < 2 ^ 64"
  then obtain d' where d: "d = Suc d'" by (cases d) auto
  obtain c cs where c: "benc_str s = c # cs" "isdigit_byte c" using benc_str_first assms(1) by blast
  obtain h1 where h1: "heap_alloc ok h = (True, h1)" using heap_alloc_ok [of ok h] assms(3) by blast
  from be_decode_str_benc [of p m s rest len ok h1] a assms obtain h2 where
    h2: "be_decode_str ok m p len h1 = Some (norm_str s, length (benc_str s), h2)" by auto
  have "node_type c = Some TSTR" using isdigit_byte_not [OF c(2)] c(2) by (simp add: node_type_def)
  with a c d h1 h2 byte_at_drop [of p m c] show
    "\<exists>h'. be_decode1 d ok m p len h = Some (Inr (be_norm (BE_STR s)), length (benc (BE_STR s)), h')"
    by (auto simp: decode_node_def be_alloc_def Let_def sizes norm_str_def size_sub_size_sub)
qed

lemma reads_num:
  assumes "node_ok (BE_NUM i)" "length m < 2 ^ 63" "\<And>i. ok i"
  shows "reads_node ok m (BE_NUM i)"
  unfolding reads_node_def
proof (intro allI impI)
  fix d p len h rest
  assume a: "be_depth (BE_NUM i) \<le> d" "drop p m = benc (BE_NUM i) @ rest" "length (benc (BE_NUM i)) \<le> len" "len < 2 ^ 64"
  then obtain d' where d: "d = Suc d'" by (cases d) auto
  obtain h1 where h1: "heap_alloc ok h = (True, h1)" using heap_alloc_ok [of ok h] assms(3) by blast
  from a(2) have m: "drop p m = ascii CHR ''i'' # map ascii (dec_int i) @ ascii CHR ''e'' # rest" by simp
  from drop_Cons_nth [OF m] have m': "drop (Suc p) m = map ascii (dec_int i) @ ascii CHR ''e'' # rest" by simp
  have "be_decode_int m (Suc p) (len - 1) = Some (i, length (dec_int i))"
    by (rule be_decode_int_dec_int [OF m']) (use assms(1) a in \<open>auto simp: isdigit_byte_def\<close>)
  moreover have "byte_at m (Suc p + length (dec_int i)) = Some (ascii CHR ''e'')"
    using drop_append_prefix [OF m'] by (intro byte_at_drop) simp
  ultimately show "\<exists>h'. be_decode1 d ok m p len h = Some (Inr (be_norm (BE_NUM i)), length (benc (BE_NUM i)), h')"
    using a d h1 byte_at_drop [OF m]
    by (auto simp: decode_node_def be_alloc_def Let_def sizes node_type_def decode_num_def)
qed

lemma reads_composite:
  assumes ok: "\<And>i. ok i" and d: "d = Suc d'" and m: "drop p m = c # body" and len: "2 \<le> len" "len < 2 ^ 64"
  shows "c = ascii CHR ''l'' \<Longrightarrow> \<exists>h1. be_decode1 d ok m p len h = do {
      (ret, rest, h) \<leftarrow> list_loop (Suc (length m)) (be_decode1 d' ok m) m (Suc p) (len - 1) h1 [];
      Some (ret, size_sub len rest, h) }"
    and "c = ascii CHR ''d'' \<Longrightarrow> \<exists>h1. be_decode1 d ok m p len h = do {
      (ret, rest, h) \<leftarrow> dict_loop (Suc (length m)) ok (be_decode1 d' ok m) m (Suc p) (len - 1) h1 [];
      Some (ret, size_sub len rest, h) }"
proof -
  obtain h1 where h1: "heap_alloc ok h = (True, h1)" using heap_alloc_ok [of ok h] ok by blast
  show "\<exists>h1. be_decode1 d ok m p len h = do {
      (ret, rest, h) \<leftarrow> list_loop (Suc (length m)) (be_decode1 d' ok m) m (Suc p) (len - 1) h1 [];
      Some (ret, size_sub len rest, h) }" if "c = ascii CHR ''l''"
    using that h1 byte_at_drop [OF m] len
    by (intro exI [of _ h1]) (simp add: d node_type_def decode_node_def be_alloc_def Let_def sizes isdigit_byte_def
        del: list_loop.simps)
  show "\<exists>h1. be_decode1 d ok m p len h = do {
      (ret, rest, h) \<leftarrow> dict_loop (Suc (length m)) ok (be_decode1 d' ok m) m (Suc p) (len - 1) h1 [];
      Some (ret, size_sub len rest, h) }" if "c = ascii CHR ''d''"
    using that h1 byte_at_drop [OF m] len
    by (intro exI [of _ h1]) (simp add: d node_type_def decode_node_def be_alloc_def Let_def sizes isdigit_byte_def
        del: dict_loop.simps)
qed

lemma length_drop_bound: "drop p m = xs @ ys \<Longrightarrow> length xs \<le> length m"
  by (metis length_append length_drop le_add1 diff_le_self le_trans)

lemma reads_list_node:
  assumes xs: "reads_list ok m xs" and wf: "list_ok xs" and ok: "\<And>i. ok i"
  shows "reads_node ok m (BE_LIST xs)"
  unfolding reads_node_def
proof (intro allI impI)
  fix d p len h rest
  assume a: "be_depth (BE_LIST xs) \<le> d" "drop p m = benc (BE_LIST xs) @ rest" "length (benc (BE_LIST xs)) \<le> len" "len < 2 ^ 64"
  then obtain d' where d: "d = Suc d'" by (cases d) auto
  from a(2) have m: "drop p m = ascii CHR ''l'' # benc_list xs @ ascii CHR ''e'' # rest" by simp
  from drop_Cons_nth [OF m] have m': "drop (Suc p) m = benc_list xs @ ascii CHR ''e'' # rest" by simp
  from reads_composite(1) [OF ok d m _ a(4) refl] a(3) obtain h1 where
    run: "be_decode1 d ok m p len h = do {
      (ret, rest, h) \<leftarrow> list_loop (Suc (length m)) (be_decode1 d' ok m) m (Suc p) (len - 1) h1 [];
      Some (ret, size_sub len rest, h) }" by fastforce
  have "length xs < Suc (length m)" using length_le_benc(1) [OF wf] length_drop_bound [OF m'] by simp
  moreover have "length (benc_list xs) < len - 1" "len - 1 < 2 ^ 64" using a(3,4) by auto
  ultimately obtain h2 where
    "list_loop (Suc (length m)) (be_decode1 d' ok m) m (Suc p) (len - 1) h1 [] =
      Some (Inr (BE_LIST ([] @ norm_list xs)), len - 1 - Suc (length (benc_list xs)), h2)"
    using reads_listD [OF xs m', of d' "len - 1" "Suc (length m)" h1 "[]"] a(1) d by auto
  with run a show "\<exists>h'. be_decode1 d ok m p len h = Some (Inr (be_norm (BE_LIST xs)), length (benc (BE_LIST xs)), h')"
    by (auto simp: sizes simp del: list_loop.simps)
qed

lemma reads_entries_node:
  assumes es: "reads_entries ok m es" and wf: "entries_ok es" and ok: "\<And>i. ok i"
  shows "reads_node ok m (BE_DICT es)"
  unfolding reads_node_def
proof (intro allI impI)
  fix d p len h rest
  assume a: "be_depth (BE_DICT es) \<le> d" "drop p m = benc (BE_DICT es) @ rest" "length (benc (BE_DICT es)) \<le> len" "len < 2 ^ 64"
  then obtain d' where d: "d = Suc d'" by (cases d) auto
  from a(2) have m: "drop p m = ascii CHR ''d'' # benc_entries es @ ascii CHR ''e'' # rest" by simp
  from drop_Cons_nth [OF m] have m': "drop (Suc p) m = benc_entries es @ ascii CHR ''e'' # rest" by simp
  from reads_composite(2) [OF ok d m _ a(4) refl] a(3) obtain h1 where
    run: "be_decode1 d ok m p len h = do {
      (ret, rest, h) \<leftarrow> dict_loop (Suc (length m)) ok (be_decode1 d' ok m) m (Suc p) (len - 1) h1 [];
      Some (ret, size_sub len rest, h) }" by fastforce
  have "length es < Suc (length m)" using length_le_benc(2) [OF wf] length_drop_bound [OF m'] by simp
  moreover have "length (benc_entries es) < len - 1" "len - 1 < 2 ^ 64" using a(3,4) by auto
  ultimately obtain h2 where
    "dict_loop (Suc (length m)) ok (be_decode1 d' ok m) m (Suc p) (len - 1) h1 [] =
      Some (Inr (BE_DICT ([] @ norm_entries es)), len - 1 - Suc (length (benc_entries es)), h2)"
    using reads_entriesD [OF es m', of d' "len - 1" "Suc (length m)" h1 "[]"] a(1) d by auto
  with run a show "\<exists>h'. be_decode1 d ok m p len h = Some (Inr (be_norm (BE_DICT es)), length (benc (BE_DICT es)), h')"
    by (auto simp: sizes simp del: dict_loop.simps)
qed

lemma reads_list_Nil: "reads_list ok m []"
  unfolding reads_list_def
proof (intro allI impI)
  fix d p len h rest acc and k :: nat
  assume a: "drop p m = benc_list [] @ ascii CHR ''e'' # rest" "length (benc_list []) < len" "len < 2 ^ 64"
    "length ([] :: be_node list) < k"
  then obtain k' where "k = Suc k'" by (cases k) auto
  with a byte_at_drop [of p m] show "\<exists>h'. list_loop k (be_decode1 d ok m) m p len h acc =
      Some (Inr (BE_LIST (acc @ norm_list [])), len - Suc (length (benc_list [])), h')"
    by (auto simp: sizes)
qed

lemma reads_entries_Nil: "reads_entries ok m []"
  unfolding reads_entries_def
proof (intro allI impI)
  fix d p len h rest acc and k :: nat
  assume a: "drop p m = benc_entries [] @ ascii CHR ''e'' # rest" "length (benc_entries []) < len" "len < 2 ^ 64"
    "length ([] :: (be_str \<times> be_node option) list) < k"
  then obtain k' where "k = Suc k'" by (cases k) auto
  with a byte_at_drop [of p m] show "\<exists>h'. dict_loop k ok (be_decode1 d ok m) m p len h acc =
      Some (Inr (BE_DICT (acc @ norm_entries [])), len - Suc (length (benc_entries [])), h')"
    by (auto simp: sizes)
qed

lemma reads_list_Cons:
  assumes x: "reads_node ok m x" "node_ok x" and xs: "reads_list ok m xs"
  shows "reads_list ok m (x # xs)"
  unfolding reads_list_def
proof (intro allI impI)
  fix d p len h rest acc and k :: nat
  assume a: "depth_list (x # xs) \<le> d" "drop p m = benc_list (x # xs) @ ascii CHR ''e'' # rest"
    "length (benc_list (x # xs)) < len" "len < 2 ^ 64" "length (x # xs) < k"
  then obtain k' where k: "k = Suc k'" by (cases k) auto
  obtain c cs where c: "benc x = c # cs" "c \<noteq> ascii CHR ''e''" using benc_first x(2) by blast
  from a(2) have m: "drop p m = benc x @ benc_list xs @ ascii CHR ''e'' # rest" by simp
  from reads_nodeD [OF x(1) m, of d len h] a obtain h1 where
    h1: "be_decode1 d ok m p len h = Some (Inr (be_norm x), length (benc x), h1)" by auto
  have m': "drop (p + length (benc x)) m = benc_list xs @ ascii CHR ''e'' # rest"
    by (rule drop_append_prefix [OF m])
  have l: "length (benc_list xs) < len - length (benc x)" "len - length (benc x) < 2 ^ 64" using a(3,4) by auto
  from reads_listD [OF xs m' _ l, of d k' h1 "acc @ [be_norm x]"] a k obtain h2 where
    "list_loop k' (be_decode1 d ok m) m (p + length (benc x)) (len - length (benc x)) h1 (acc @ [be_norm x]) =
      Some (Inr (BE_LIST ((acc @ [be_norm x]) @ norm_list xs)), len - length (benc x) - Suc (length (benc_list xs)), h2)"
    by auto
  moreover have "size_sub len (length (benc x)) = len - length (benc x)" "len - length (benc x) \<noteq> 0"
    using a by (auto intro!: size_sub_id)
  moreover have "byte_at m p = Some c" using m c(1) byte_at_drop [of p m c] by simp
  ultimately show "\<exists>h'. list_loop k (be_decode1 d ok m) m p len h acc =
      Some (Inr (BE_LIST (acc @ norm_list (x # xs))), len - Suc (length (benc_list (x # xs))), h')"
    using h1 c(2) k by (simp add: Let_def)
qed

lemma reads_entries_Cons:
  assumes key: "str_ok key" and v: "reads_node ok m v" and es: "reads_entries ok m es"
    and m: "length m < 2 ^ 63" and ok: "\<And>i. ok i"
  shows "reads_entries ok m ((key, Some v) # es)"
  unfolding reads_entries_def
proof (intro allI impI)
  fix d p len h rest acc and k :: nat
  let ?e = "(key, Some v) # es"
  assume a: "depth_entries ?e \<le> d" "drop p m = benc_entries ?e @ ascii CHR ''e'' # rest"
    "length (benc_entries ?e) < len" "len < 2 ^ 64" "length ?e < k"
  then obtain k' where k: "k = Suc k'" by (cases k) auto
  obtain c cs where c: "benc_str key = c # cs" "c \<noteq> ascii CHR ''e''"
    using benc_str_first [OF key] isdigit_byte_not by fastforce
  obtain h1 where h1: "heap_alloc ok h = (True, h1)" using heap_alloc_ok [of ok h] ok by blast
  from a(2) have m1: "drop p m = benc_str key @ benc v @ benc_entries es @ ascii CHR ''e'' # rest" by simp
  note m2 = drop_append_prefix [OF m1]
  note m3 = drop_append_prefix [OF m2]
  from be_decode_str_benc [OF m1 key _ a(4) m, of ok h1] a(3) ok obtain h2 where
    h2: "be_decode_str ok m p len h1 = Some (norm_str key, length (benc_str key), h2)" by auto
  have l: "length (benc v) \<le> len - length (benc_str key)" "len - length (benc_str key) < 2 ^ 64"
    "length (benc_entries es) < len - length (benc_str key) - length (benc v)"
    "len - length (benc_str key) - length (benc v) < 2 ^ 64" using a(3,4) by auto
  from reads_nodeD [OF v m2 _ l(1,2), of d h2] a obtain h3 where
    h3: "be_decode1 d ok m (p + length (benc_str key)) (len - length (benc_str key)) h2 =
      Some (Inr (be_norm v), length (benc v), h3)" by auto
  from reads_entriesD [OF es m3 _ l(3,4), of d k' h3 "acc @ [(norm_str key, Some (be_norm v))]"]
    a k obtain h4 where
    h4: "dict_loop k' ok (be_decode1 d ok m) m (p + length (benc_str key) + length (benc v))
        (len - length (benc_str key) - length (benc v)) h3 (acc @ [(norm_str key, Some (be_norm v))]) =
      Some (Inr (BE_DICT ((acc @ [(norm_str key, Some (be_norm v))]) @ norm_entries es)),
        len - length (benc_str key) - length (benc v) - Suc (length (benc_entries es)), h4)"
    by auto
  have "size_sub len (length (benc_str key)) = len - length (benc_str key)"
    "size_sub (len - length (benc_str key)) (length (benc v)) = len - length (benc_str key) - length (benc v)"
    "len - length (benc_str key) - length (benc v) \<noteq> 0"
    using size_sub_id [OF l(1,2)] l(3) size_sub_id [OF _ a(4), of "length (benc_str key)"] a(3) by auto
  moreover have "byte_at m p = Some c" using m1 c(1) byte_at_drop [of p m c] by simp
  moreover have "sbuf (norm_str key) \<noteq> None" by (simp add: norm_str_def)
  ultimately show "\<exists>h'. dict_loop k ok (be_decode1 d ok m) m p len h acc =
      Some (Inr (BE_DICT (acc @ norm_entries ?e)), len - Suc (length (benc_entries ?e)), h')"
    using h1 h2 h3 h4 c(2) k by (simp add: Let_def)
qed

lemma be_decode1_benc:
  assumes m: "length m < 2 ^ 63" and ok: "\<And>i. ok i"
  shows "node_ok x \<Longrightarrow> reads_node ok m x"
    and "list_ok xs \<Longrightarrow> reads_list ok m xs"
    and "entries_ok es \<Longrightarrow> reads_entries ok m es"
proof (induction x and xs and es rule: benc_benc_list_benc_entries.induct)
  case (1 s)
  then show ?case using reads_str [OF _ m ok] by simp
next
  case (2 i)
  then show ?case using reads_num [OF _ m ok] by simp
next
  case (3 xs)
  then show ?case using reads_list_node [OF _ _ ok] by simp
next
  case (4 es)
  then show ?case using reads_entries_node [OF _ _ ok] by simp
next
  case 5
  show ?case by (rule reads_list_Nil)
next
  case (6 x xs)
  then show ?case using reads_list_Cons by simp
next
  case 7
  show ?case by (rule reads_entries_Nil)
next
  case (8 key es)
  then show ?case by simp
next
  case (9 key v es)
  then show ?case using reads_entries_Cons [OF _ _ _ m ok] by simp
qed

subsection \<open>Writing an encoding\<close>

text \<open>Two memories agree outside the \<open>n\<close> bytes from \<open>p\<close>.\<close>

definition same_outside :: "mem \<Rightarrow> mem \<Rightarrow> nat \<Rightarrow> nat \<Rightarrow> bool" where
  "same_outside m m' p n \<longleftrightarrow> length m' = length m \<and> take p m' = take p m \<and> drop (p + n) m' = drop (p + n) m"

text \<open>The two outcomes of writing \<open>enc\<close> into \<open>n\<close> bytes of \<open>m\<close> from \<open>p\<close>, after \<open>sz\<close> bytes.\<close>

definition written :: "mem \<Rightarrow> nat \<Rightarrow> nat \<Rightarrow> int \<Rightarrow> u8 list \<Rightarrow> (int \<times> mem option) option \<Rightarrow> bool" where
  "written m p n sz enc res \<longleftrightarrow>
     (if length enc \<le> n then res = Some (sz + int (length enc), Some (splice m p enc))
      else \<exists>m'. res = Some (- 1, Some m') \<and> same_outside m m' p n)"

lemma same_outside_refl [simp]: "same_outside m m p n"
  by (simp add: same_outside_def)

lemma splice_splice:
  "p + length xs + length ys \<le> length m \<Longrightarrow> splice (splice m p xs) (p + length xs) ys = splice m p (xs @ ys)"
  by (simp add: splice_def ac_simps)

lemma same_outside_splice:
  assumes "same_outside (splice m p xs) m' (p + length xs) (n - length xs)" "length xs \<le> n" "p + n \<le> length m"
  shows "same_outside m m' p n"
proof -
  from assms have l: "length m' = length m"
    and t: "take (p + length xs) m' = take (p + length xs) (splice m p xs)"
    and d: "drop (p + n) m' = drop (p + n) (splice m p xs)"
    by (auto simp: same_outside_def)
  have "take p m' = take p (take (p + length xs) m')" by simp
  also have "\<dots> = take p m" using assms(2,3) unfolding t by (simp add: splice_def)
  finally have "take p m' = take p m" .
  moreover have "drop (p + n) (splice m p xs) = drop (p + n) m"
    using assms(2,3) by (intro nth_equalityI) (auto simp: nth_splice)
  ultimately show ?thesis using l d by (simp add: same_outside_def)
qed

text \<open>Writing one encoding after another, through \<open>CHECK_AND_UPDATE\<close>.\<close>

lemma written_then:
  assumes first: "written m p n 0 xs res" and n: "p + n \<le> length m" "n < 2 ^ 64"
    and rest: "\<And>m'. length m' = length m \<Longrightarrow> length xs \<le> n \<Longrightarrow>
      written m' (p + length xs) (n - length xs) (sz + int (length xs)) ys (cont (Some m') (p + length xs) (n - length xs) (sz + int (length xs)))"
    and sz: "0 \<le> sz" "sz + int (length xs) < 2 ^ 31"
  shows "written m p n sz (xs @ ys) (Option.bind res (\<lambda>res. check_and_update res p n sz cont))"
proof (cases "length xs \<le> n")
  case True
  with first have res: "res = Some (int (length xs), Some (splice m p xs))" by (simp add: written_def)
  have len: "length (splice m p xs) = length m" using True n by simp
  have s: "size_sub n (length xs) = n - length xs" using True n by (simp add: sizes)
  have i: "int32_of (sz + int (length xs)) = sz + int (length xs)" using sz by (intro int32_of_id) auto
  note w = rest [OF len True]
  have fits: "splice (splice m p xs) (p + length xs) ys = splice m p (xs @ ys)" if "length ys \<le> n - length xs"
    using that True n by (intro splice_splice) auto
  show ?thesis
  proof (cases "length ys \<le> n - length xs")
    case True': True
    with w True fits show ?thesis by (auto simp: written_def res check_and_update_def s i)
  next
    case False
    with w obtain m' where "cont (Some (splice m p xs)) (p + length xs) (n - length xs) (sz + int (length xs)) = Some (- 1, Some m')"
      "same_outside (splice m p xs) m' (p + length xs) (n - length xs)"
      by (auto simp: written_def)
    with False True same_outside_splice [OF _ True n(1)] show ?thesis
      by (auto simp: written_def res check_and_update_def s i)
  qed
next
  case False
  with first show ?thesis by (auto simp: written_def check_and_update_def)
qed

lemma encode_str_length:
  "str_ok s \<Longrightarrow> int (length (map ascii (dec_int (slen s) @ '':''))) + slen s = int (length (benc_str s))"
  using length_str_bytes [of s] by (simp add: benc_str_def)

lemma be_encode_str_size: "str_ok s \<Longrightarrow> be_encode_str s None p n = Some (int (length (benc_str s)), None)"
  by (simp only: be_encode_str_def Let_def option.case encode_str_length)

lemma be_encode_str_written:
  assumes s: "str_ok s" and n: "p + n \<le> length m" and sz: "length (benc_str s) < 2 ^ 31"
  shows "written m p n 0 (benc_str s) (be_encode_str s (Some m) p n)"
proof -
  have st: "size_t_of (int (length (benc_str s))) = length (benc_str s)" using sz by (intro size_t_of_nat) auto
  obtain b where b: "sbuf s = Some b" "0 \<le> slen s" "nat (slen s) \<le> length b"
    using s by (auto simp: str_ok_def split: option.splits)
  then have tmp: "map ascii (dec_int (slen s) @ '':'') @ take (nat (slen s)) b = benc_str s"
    by (simp add: benc_str_def str_bytes_def)
  show ?thesis
    unfolding be_encode_str_def Let_def option.case encode_str_length [OF s] st tmp b(1)
    using b n by (auto simp: written_def memcpy_at_def)
qed

lemma put_end_written:
  assumes "0 \<le> sz" "sz + 1 < 2 ^ 31" "p + n \<le> length m"
  shows "written m p n sz [ascii CHR ''e''] (put_end (Some m) p n sz)"
  using assms by (auto simp: written_def put_end_def memcpy_at_def int32_of_id)

definition writes_node :: "be_node \<Rightarrow> bool" where
  "writes_node x \<longleftrightarrow> (\<forall>p n. be_encode x None p n = Some (int (length (benc x)), None)) \<and>
     (\<forall>m p n. p + n \<le> length m \<longrightarrow> length m < 2 ^ 64 \<longrightarrow> written m p n 0 (benc x) (be_encode x (Some m) p n))"

definition writes_tail :: "u8 list \<Rightarrow> encode_cont \<Rightarrow> bool" where
  "writes_tail enc f \<longleftrightarrow> (\<forall>p n sz. 0 \<le> sz \<longrightarrow> sz + int (length enc) < 2 ^ 31 \<longrightarrow>
       f None p n sz = Some (sz + int (length enc), None)) \<and>
     (\<forall>m p n sz. 0 \<le> sz \<longrightarrow> sz + int (length enc) < 2 ^ 31 \<longrightarrow> p + n \<le> length m \<longrightarrow> length m < 2 ^ 64 \<longrightarrow>
       written m p n sz enc (f (Some m) p n sz))"

lemma writes_str:
  assumes s: "str_ok s" and sz: "length (benc_str s) < 2 ^ 31"
  shows "writes_node (BE_STR s)"
  unfolding writes_node_def
proof (intro conjI allI impI)
  have i: "int32_of (int (length (benc_str s))) = int (length (benc_str s))" using sz by (intro int32_of_nat) auto
  show "be_encode (BE_STR s) None p n = Some (int (length (benc (BE_STR s))), None)" for p n
    using i be_encode_str_size [OF s] by simp
  fix m :: mem and p n
  assume n: "p + n \<le> length m" "length m < 2 ^ 64"
  have m1: "int32_of (- 1) = - 1" by (intro int32_of_id) auto
  have ne: "0 < length (benc_str s)" using benc_str_first [OF s] by auto
  note w = be_encode_str_written [OF s n(1) sz]
  show "written m p n 0 (benc (BE_STR s)) (be_encode (BE_STR s) (Some m) p n)"
  proof (cases "length (benc_str s) \<le> n")
    case True
    moreover from True ne have "n \<noteq> 0" by linarith
    ultimately show ?thesis using w i by (simp add: written_def)
  next
    case False
    with w obtain m' where "be_encode_str s (Some m) p n = Some (- 1, Some m')" "same_outside m m' p n"
      by (auto simp: written_def)
    with False m1 show ?thesis by (auto simp: written_def)
  qed
qed

lemma writes_tail_end: "writes_tail [ascii CHR ''e''] put_end"
  unfolding writes_tail_def using put_end_written by (auto simp: put_end_def int32_of_id)

lemma writes_tail_step:
  assumes f: "\<And>p n. f None p n = Some (int (length xs), None)"
    and w: "\<And>m p n. p + n \<le> length m \<Longrightarrow> length m < 2 ^ 64 \<Longrightarrow> written m p n 0 xs (f (Some m) p n)"
    and g: "writes_tail ys g"
  shows "writes_tail (xs @ ys) (\<lambda>out p n sz. Option.bind (f out p n) (\<lambda>res. check_and_update res p n sz g))"
  unfolding writes_tail_def
proof (intro conjI allI impI)
  fix p n and sz :: int
  assume sz: "0 \<le> sz" "sz + int (length (xs @ ys)) < 2 ^ 31"
  then have "int32_of (sz + int (length xs)) = sz + int (length xs)" by (intro int32_of_id) auto
  moreover have "g None p n (sz + int (length xs)) = Some (sz + int (length xs) + int (length ys), None)"
    using g sz unfolding writes_tail_def by auto
  ultimately show "Option.bind (f None p n) (\<lambda>res. check_and_update res p n sz g) = Some (sz + int (length (xs @ ys)), None)"
    by (simp add: f check_and_update_def)
next
  fix m :: mem and p n and sz :: int
  assume a: "0 \<le> sz" "sz + int (length (xs @ ys)) < 2 ^ 31" "p + n \<le> length m" "length m < 2 ^ 64"
  show "written m p n sz (xs @ ys) (Option.bind (f (Some m) p n) (\<lambda>res. check_and_update res p n sz g))"
    by (rule written_then [OF w]) (use a g in \<open>auto simp: writes_tail_def\<close>)
qed

lemma writes_composite:
  assumes tail: "writes_tail enc f" and sz: "1 + int (length enc) < 2 ^ 31"
    and enc: "\<And>out p n. g out p n = (if out \<noteq> None \<and> n = 0 then Some (- 1, out)
        else Option.bind (put_byte c out p n) (\<lambda>(out, p, n). f out p n 1))"
  shows "g None p n = Some (int (length (ascii c # enc)), None)"
    and "p + n \<le> length m \<Longrightarrow> length m < 2 ^ 64 \<Longrightarrow> written m p n 0 (ascii c # enc) (g (Some m) p n)"
proof -
  show "g None p n = Some (int (length (ascii c # enc)), None)"
    using tail sz unfolding writes_tail_def enc by (auto simp: put_byte_def)
  assume a: "p + n \<le> length m" "length m < 2 ^ 64"
  show "written m p n 0 (ascii c # enc) (g (Some m) p n)"
  proof (cases "n = 0")
    case True
    then show ?thesis by (auto simp: written_def enc)
  next
    case False
    define m1 where "m1 = splice m p [ascii c]"
    have len: "length m1 = length m" using False a by (simp add: m1_def)
    have run: "g (Some m) p n = f (Some m1) (p + 1) (n - 1) 1"
      using False a unfolding enc by (simp add: put_byte_def memcpy_at_def sizes m1_def)
    have "written m1 (p + 1) (n - 1) 1 enc (f (Some m1) (p + 1) (n - 1) 1)"
      using tail sz a len False unfolding writes_tail_def by auto
    note w = this [folded run]
    have sp: "splice m1 (p + 1) enc = splice m p (ascii c # enc)" if "length enc \<le> n - 1"
      using splice_splice [of p "[ascii c]" enc m] that False a by (simp add: m1_def)
    show ?thesis
    proof (cases "length enc \<le> n - 1")
      case True
      with w sp False show ?thesis by (auto simp: written_def)
    next
      case no: False
      with w obtain m' where "g (Some m) p n = Some (- 1, Some m')" "same_outside m1 m' (p + 1) (n - 1)"
        by (auto simp: written_def)
      with no False same_outside_splice [of m p "[ascii c]" m' n] a show ?thesis
        by (auto simp: written_def m1_def)
    qed
  qed
qed

lemma encode_entries_Cons:
  "encode_entries ((key, Some v) # es) = (\<lambda>out p n sz. Option.bind (be_encode_str key out p n) (\<lambda>res.
     check_and_update res p n sz (\<lambda>out p n sz. Option.bind (be_encode v out p n) (\<lambda>res.
       check_and_update res p n sz (encode_entries es)))))"
  by (intro ext) simp

lemma be_encode_writes:
  shows "node_ok x \<Longrightarrow> length (benc x) < 2 ^ 31 \<Longrightarrow> writes_node x"
    and "list_ok xs \<Longrightarrow> length (benc_list xs) + 1 < 2 ^ 31 \<Longrightarrow>
      writes_tail (benc_list xs @ [ascii CHR ''e'']) (encode_list xs)"
    and "entries_ok es \<Longrightarrow> length (benc_entries es) + 1 < 2 ^ 31 \<Longrightarrow>
      writes_tail (benc_entries es @ [ascii CHR ''e'']) (encode_entries es)"
proof (induction x and xs and es rule: benc_benc_list_benc_entries.induct)
  case (1 s)
  then show ?case using writes_str by simp
next
  case (2 i)
  then show ?case by (auto simp: writes_node_def written_def memcpy_at_def)
next
  case (3 xs)
  then have "writes_tail (benc_list xs @ [ascii CHR ''e'']) (encode_list xs)" by simp
  from writes_composite [OF this, of "be_encode (BE_LIST xs)" "CHR ''l''"] 3 show ?case
    by (auto simp: writes_node_def)
next
  case (4 es)
  then have "writes_tail (benc_entries es @ [ascii CHR ''e'']) (encode_entries es)" by simp
  from writes_composite [OF this, of "be_encode (BE_DICT es)" "CHR ''d''"] 4 show ?case
    by (auto simp: writes_node_def)
next
  case 5
  show ?case using writes_tail_end by simp
next
  case (6 x xs)
  then have x: "writes_node x" and xs: "writes_tail (benc_list xs @ [ascii CHR ''e'']) (encode_list xs)" by auto
  have "writes_tail (benc x @ (benc_list xs @ [ascii CHR ''e''])) (encode_list (x # xs))"
    unfolding encode_list.simps by (rule writes_tail_step [OF _ _ xs]) (use x in \<open>auto simp: writes_node_def\<close>)
  then show ?case by simp
next
  case 7
  show ?case using writes_tail_end by simp
next
  case (8 key es)
  then show ?case by simp
next
  case (9 key v es)
  then have v: "writes_node v" and es: "writes_tail (benc_entries es @ [ascii CHR ''e'']) (encode_entries es)" by auto
  have "writes_tail (benc v @ (benc_entries es @ [ascii CHR ''e'']))
      (\<lambda>out p n sz. Option.bind (be_encode v out p n) (\<lambda>res. check_and_update res p n sz (encode_entries es)))"
    by (rule writes_tail_step [OF _ _ es]) (use v in \<open>auto simp: writes_node_def\<close>)
  note v_es = this
  have "writes_tail (benc_str key @ (benc v @ (benc_entries es @ [ascii CHR ''e'']))) (encode_entries ((key, Some v) # es))"
    unfolding encode_entries_Cons
    by (rule writes_tail_step [OF _ _ v_es]) (use 9 in \<open>auto intro: be_encode_str_written simp: be_encode_str_size\<close>)
  then show ?case by simp
qed

subsection \<open>Errors\<close>

lemma loops_not_ELOOP:
  shows "list_loop k dec m p len h xs \<noteq> Some (Inl ELOOP, n, h')"
    and "dict_loop k ok dec m p len h es \<noteq> Some (Inl ELOOP, n, h')"
proof -
  show "list_loop k dec m p len h xs \<noteq> Some (Inl ELOOP, n, h')"
  proof (induction k arbitrary: p len h xs)
    case (Suc k)
    show ?case by (auto simp: Let_def Suc split: bind_splits if_splits sum.splits)
  qed simp
  show "dict_loop k ok dec m p len h es \<noteq> Some (Inl ELOOP, n, h')"
  proof (induction k arbitrary: p len h es)
    case (Suc k)
    obtain got h1 where a: "heap_alloc ok h = (got, h1)" by force
    show ?case by (auto simp: Let_def a Suc split: bind_splits if_splits sum.splits)
  qed simp
qed

lemma be_decode1_not_ELOOP: "be_decode1 (Suc d) ok m p len h \<noteq> Some (Inl ELOOP, n, h')"
proof -
  obtain got h1 where a: "heap_alloc ok h = (got, h1)" by force
  have "decode_node ok m dec type p len h \<noteq> Some (Inl ELOOP, n, h')" for dec type n
    by (cases type; cases got)
      (auto simp: decode_node_def be_alloc_def a Let_def decode_num_def loops_not_ELOOP
        simp del: list_loop.simps dict_loop.simps split: if_splits bind_splits)
  then show ?thesis by (auto split: if_splits option.splits bind_splits)
qed

subsection \<open>Properties\<close>

definition all_ok :: outcomes where
  "all_ok i = True"

definition demo_node :: be_node where
  "demo_node = BE_DICT [(\<lparr>sbuf = Some [109, 0], slen = 1\<rparr>, Some (BE_LIST [BE_NUM (- 7), BE_STR \<lparr>sbuf = Some [1, 2], slen = 2\<rparr>]))]"

text \<open>C1: Writing and reading bencode are inverse: for a value of at most ten levels the size query gives
  a size, writing into a buffer of that size succeeds and fills it, and reading the buffer back gives
  the value (each string in a NUL-terminated block of its own) and consumes it whole.\<close>

theorem bencode_roundtrip:
  assumes x: "node_ok x" "be_depth x \<le> BE_MAX_DEPTH" and size: "length (benc x) < 2 ^ 31"
    and buf: "length buf = length (benc x)" and ok: "\<forall>i. ok i"
  shows "be_encode x None 0 0 = Some (int (length buf), None)
    \<and> (\<exists>out h'. be_encode x (Some buf) 0 (length buf) = Some (int (length buf), Some out)
        \<and> be_decode ok out (length buf) h = Some (Inr (be_norm x), length buf, h'))"
proof -
  from be_encode_writes(1) [OF x(1) size] have w: "writes_node x" .
  then have "be_encode x None 0 0 = Some (int (length buf), None)" using buf by (simp add: writes_node_def)
  moreover have out: "be_encode x (Some buf) 0 (length buf) = Some (int (length buf), Some (benc x))"
    using w buf size by (auto simp: writes_node_def written_def splice_def)
  moreover have "reads_node ok (benc x) x" using ok size by (intro be_decode1_benc(1) [OF _ _ x(1)]) auto
  from reads_nodeD [OF this, of 0 "[]" BE_MAX_DEPTH "length buf" h] x buf size
  have "\<exists>h'. be_decode ok (benc x) (length buf) h = Some (Inr (be_norm x), length buf, h')"
    by (simp add: be_decode_def)
  ultimately show ?thesis by blast
qed

theorem bencode_roundtrip_witness:
  "\<exists>out h'. be_encode demo_node (Some (replicate 15 0)) 0 15 = Some (15, Some out)
     \<and> be_decode all_ok out 15 \<lparr>calls = 0, live = 0\<rparr> = Some (Inr (be_norm demo_node), 15, h')"
proof -
  have len: "length (benc demo_node) = 15"
    by (simp add: demo_node_def benc_str_def dec_int_def dec_nat.simps str_bytes_def)
  have "node_ok demo_node" "be_depth demo_node \<le> BE_MAX_DEPTH"
    by (simp_all add: demo_node_def str_ok_def BE_MAX_DEPTH_def)
  with bencode_roundtrip [of demo_node "replicate 15 0" all_ok "\<lparr>calls = 0, live = 0\<rparr>"] len show ?thesis
    by (simp add: all_ok_def)
qed

text \<open>C3: \<open>be_encode\<close> stays inside its buffer: with the space for the encoding it writes exactly the
  encoding, with less it returns \<open>-1\<close>, and in both cases every byte outside the given space keeps its
  value.\<close>

theorem be_encode_bounds:
  assumes x: "node_ok x" and size: "length (benc x) < 2 ^ 31" and n: "p + n \<le> length m" "length m < 2 ^ 64"
  shows "\<exists>r m'. be_encode x (Some m) p n = Some (r, Some m') \<and> same_outside m m' p n
    \<and> (if length (benc x) \<le> n then r = int (length (benc x)) \<and> take (nat r) (drop p m') = benc x else r = - 1)"
proof -
  from be_encode_writes(1) [OF x size] n have w: "written m p n 0 (benc x) (be_encode x (Some m) p n)"
    by (simp add: writes_node_def)
  show ?thesis
  proof (cases "length (benc x) \<le> n")
    case True
    then have "same_outside m (splice m p (benc x)) p n"
      using same_outside_splice [of m p "benc x" "splice m p (benc x)" n] n by simp
    with True w n show ?thesis by (auto simp: written_def take_drop_splice)
  next
    case False
    with w show ?thesis by (auto simp: written_def)
  qed
qed

theorem be_encode_bounds_witness:
  "\<exists>m'. be_encode (BE_LIST [BE_NUM 5]) (Some [9, 9, 9, 9, 9, 9]) 1 4 = Some (- 1, Some m')
     \<and> same_outside [9, 9, 9, 9, 9, 9] m' 1 4"
  using be_encode_bounds [of "BE_LIST [BE_NUM 5]" 1 4 "[9, 9, 9, 9, 9, 9]"]
  by (auto simp: dec_int_def dec_nat.simps split: if_splits)

text \<open>C2: No block is lost: whatever the input and whichever allocations fail, after \<open>be_decode\<close> exactly the
  blocks of the returned value are live in addition to those before, none when an error is
  returned, and \<open>be_free\<close> of the value releases them all.\<close>

theorem be_decode_no_leak:
  assumes "be_decode ok m len h = Some (r, n, h')"
  shows "live h' = live h + owned r \<and> (\<forall>x. r = Inr x \<longrightarrow> live (be_free x h') = live h)"
  using balancedD [OF be_decode1_balanced assms [unfolded be_decode_def]] by auto

theorem be_decode_no_leak_witness:
  "be_decode (\<lambda>i. i \<noteq> 2) (map ascii ''li1ei2ee'') 8 \<lparr>calls = 0, live = 5\<rparr> = Some (Inl EINVAL, 4, \<lparr>calls = 3, live = 5\<rparr>)
   \<and> live \<lparr>calls = 3, live = 5\<rparr> = 5 + owned (Inl EINVAL)"
proof -
  have "be_decode (\<lambda>i. i \<noteq> 2) (map ascii ''li1ei2ee'') 8 \<lparr>calls = 0, live = 5\<rparr> = Some (Inl EINVAL, 4, \<lparr>calls = 3, live = 5\<rparr>)"
    by code_simp
  from this be_decode_no_leak [OF this] show ?thesis by simp
qed

text \<open>The documented error \<open>ELOOP\<close> is never reported by \<open>be_decode\<close>: a value that is nested too deeply
  ends in \<open>EINVAL\<close>, because every enclosing level overwrites the error of the level below.\<close>

theorem be_decode_never_ELOOP:
  "be_decode ok m len h \<noteq> Some (Inl ELOOP, n, h')"
  using be_decode1_not_ELOOP [of 9] by (simp add: be_decode_def BE_MAX_DEPTH_def)

text \<open>An integer without its final \<open>e\<close> at the end of the input makes \<open>be_decode\<close> read past the buffer: with
  memory for the input only, the behaviour is undefined.\<close>

theorem unterminated_integer_reads_past_end:
  assumes n: "int n \<le> LLONG_MAX" and ok: "ok (calls h)"
  shows "be_decode ok (map ascii (''i'' @ dec_nat n)) (length (''i'' @ dec_nat n)) h = None"
proof -
  let ?ds = "map ascii (dec_nat n)" and ?m = "map ascii (''i'' @ dec_nat n)"
  have len: "length (dec_nat n) < 2 ^ 63" using dec_nat_length [of n 19] n by simp
  have "int_loop (length (dec_nat n)) ?m 1 1 (1 * 0) False = Some (1 * digits_value 0 ?ds, length (dec_nat n) - length ?ds)"
    by (rule int_loop_digits [where tail = "[]"])
      (use n dec_nat_digits in \<open>auto simp: digits_value_dec_nat\<close>)
  then have "int_loop (length (dec_nat n)) ?m 1 1 0 False = Some (int n, 0)" by (simp add: digits_value_dec_nat)
  moreover obtain c cs where c: "dec_nat n = c # cs" by (cases "dec_nat n") auto
  moreover have "is_digit c" using dec_nat_hd [of n] c by simp
  then have "ascii c \<noteq> ascii CHR ''-''" using minus_not_digit by (metis isdigit_ascii)
  ultimately have "be_decode_int ?m 1 (length (dec_nat n)) = Some (int n, length (dec_nat n))"
    using len by (simp add: be_decode_int_def byte_at_def sizes)
  then have "decode_num ?m 1 (length (dec_nat n)) h' = None" for h'
    by (simp add: decode_num_def byte_at_def)
  then have "decode_node ok ?m dec TNUM 0 (Suc (length (dec_nat n))) h = None" for dec
    using ok len c by (simp add: decode_node_def be_alloc_def heap_alloc_def Let_def sizes)
  then have "be_decode1 (Suc 9) ok ?m 0 (Suc (length (dec_nat n))) h = None"
    unfolding be_decode1.simps by (simp add: byte_at_def node_type_def)
  then show ?thesis by (simp add: be_decode_def BE_MAX_DEPTH_def del: be_decode1.simps)
qed

theorem unterminated_integer_reads_past_end_witness:
  "be_decode all_ok (map ascii ''i42'') 3 \<lparr>calls = 0, live = 0\<rparr> = None"
proof -
  have "dec_nat 42 = ''42''" by code_simp
  with unterminated_integer_reads_past_end [of 42 all_ok "\<lparr>calls = 0, live = 0\<rparr>"] show ?thesis
    by (simp add: all_ok_def numeral_3_eq_3)
qed

text \<open>An entry added to a dictionary is found: when the allocations succeed, \<open>be_dict_add\<close> appends it, and
  a lookup of any key finds the first entry with that key, so the new entry exactly when the key was
  not there before.\<close>

theorem be_dict_add_lookup:
  assumes keys: "0 \<notin> set key" "0 \<notin> set key'"
    and es: "\<forall>e \<in> set es. \<exists>k. 0 \<notin> set k \<and> sbuf (fst e) = Some (cstring k)" and ok: "\<forall>i. ok i"
  shows "\<exists>d h'. be_dict_add ok (Some (BE_DICT es)) (cstring key) val h = Some (0, Some d, h')
    \<and> (\<exists>old entry. lookup_loop es (cstring key') = Some old
        \<and> be_dict_lookup d (cstring key') = Some (entry)
        \<and> snd entry = (case old of Some e \<Rightarrow> Some e
            | None \<Rightarrow> if key' = key then Some (\<lparr>sbuf = Some (cstring key), slen = int (length key)\<rparr>, val) else None)
        \<and> fst entry = Option.bind (snd entry) snd)"
proof -
  let ?new = "(\<lparr>sbuf = Some (cstring key), slen = int (length key)\<rparr>, val)"
  have take: "take (length key) (cstring key) @ [0] = cstring key" by (simp add: cstring_def)
  obtain h1 where h1: "heap_alloc ok h = (True, h1)" using heap_alloc_ok [of ok h] ok by blast
  obtain h2 where h2: "heap_alloc ok h1 = (True, h2)" using heap_alloc_ok [of ok h1] ok by blast
  have add: "be_dict_add ok (Some (BE_DICT es)) (cstring key) val h = Some (0, Some (BE_DICT (es @ [?new])), h2)"
    using h1 h2 keys take by (simp add: be_dict_add_def be_dict_entry_alloc_def strdup_def)
  have found: "\<exists>d. strcmp (cstring key') (cstring k) = Some d \<and> (d = 0 \<longleftrightarrow> key' = k)" if "0 \<notin> set k" for k
    by (rule strcmp_cstring [OF keys(2) that])
  have "\<exists>old. lookup_loop es (cstring key') = Some old
    \<and> lookup_loop (es @ [?new]) (cstring key') = Some (case old of Some e \<Rightarrow> Some e
        | None \<Rightarrow> if key' = key then Some ?new else None)"
    using es
  proof (induction es)
    case Nil
    from found [OF keys(1)] show ?case by auto
  next
    case (Cons e es)
    then obtain k where k: "0 \<notin> set k" "sbuf (fst e) = Some (cstring k)" by auto
    with found [OF k(1)] Cons show ?case by auto
  qed
  with add show ?thesis by (auto simp: be_dict_lookup_def)
qed

theorem be_dict_add_lookup_witness:
  "\<exists>d h'. be_dict_add all_ok (Some (BE_DICT [])) (cstring [109]) (Some (BE_NUM 3)) \<lparr>calls = 0, live = 0\<rparr> = Some (0, Some d, h')
     \<and> map_option fst (be_dict_lookup d (cstring [109])) = Some (Some (BE_NUM 3))"
  using be_dict_add_lookup [of "[109]" "[109]" "[]" all_ok "Some (BE_NUM 3)" "\<lparr>calls = 0, live = 0\<rparr>"]
  by (auto simp: all_ok_def)

end
