(* ===== verification/Uvg_Peer.thy ===== *)
theory Uvg_Peer
  imports Uvg_NetUtils Uvg_BufferedSocket Uvg_TorrentData Uvg_Bencode
begin

text \<open>
  A connection to a peer (\<^verbatim>\<open>src/src/peer/peer.c\<close> and \<^verbatim>\<open>peer_connect.c\<close>): its state, how it is
  connected, reset and disconnected, the handling of the network buffers and the handshake.

  \<open>le\<close> is the byte order of the host (\<open>True\<close>: little endian). What the system decides is an argument:
  \<open>write_io\<close> for one buffered write, \<open>disconnect_io\<close> for the clock readings (and the bound of the
  freeing loop) of a disconnect, and so on. A call through a NULL pointer is undefined (\<open>None\<close>).
  Only the address and port of the peer are kept of its \<open>sockaddr_in\<close>.
\<close>

subsection \<open>State\<close>

datatype peer_status =
    PEER_UNCONNECTED
  | PEER_CONNECTING
  | PEER_CONNECTED
  | PEER_HANDSHAKE_SENT
  | PEER_HANDSHAKE_COMPLETE

text \<open>The order of the enumeration, which the code compares with.\<close>

primrec peer_status_rank :: "peer_status \<Rightarrow> nat" where
  "peer_status_rank PEER_UNCONNECTED = 0"
| "peer_status_rank PEER_CONNECTING = 1"
| "peer_status_rank PEER_CONNECTED = 2"
| "peer_status_rank PEER_HANDSHAKE_SENT = 3"
| "peer_status_rank PEER_HANDSHAKE_COMPLETE = 4"

lemma peer_status_rank_inject: "peer_status_rank s = peer_status_rank t \<Longrightarrow> s = t"
  by (cases s; cases t) simp_all

instantiation peer_status :: linorder
begin

definition less_eq_peer_status :: "peer_status \<Rightarrow> peer_status \<Rightarrow> bool" where
  "less_eq_peer_status s t \<longleftrightarrow> peer_status_rank s \<le> peer_status_rank t"

definition less_peer_status :: "peer_status \<Rightarrow> peer_status \<Rightarrow> bool" where
  "less_peer_status s t \<longleftrightarrow> peer_status_rank s < peer_status_rank t"

instance
  by standard (auto simp: less_eq_peer_status_def less_peer_status_def intro: peer_status_rank_inject)

end

lemmas peer_status_order = less_eq_peer_status_def less_peer_status_def

record peer =
  sin_port :: u16
  s_addr :: u32
  str_ip :: string
  port :: u16
  psocket :: "buffered_socket option"
  ut_metadata :: int
  ut_metadata_requested :: "bitfield option"
  ut_metadata_size :: int
  running :: int
  am_choking :: int
  am_interested :: int
  peer_choking :: int
  peer_interested :: int
  peer_bitfield :: "bitfield option"
  progress_queue :: "int queue"
  peer_state :: peer_status
  reconnect_deadline :: nat
  network_ordered_msg_length :: u32
  network_ordered_msg_length_loaded :: int
  msg_id :: u8
  msg_id_loaded :: int
  uploader :: int
  msg_bitfield_sent :: int
  pending_request_count :: int

abbreviation (input) METADATA_PIECE_SIZE :: nat where "METADATA_PIECE_SIZE \<equiv> 262144"
abbreviation (input) METADATA_CHUNK_SIZE :: nat where "METADATA_CHUNK_SIZE \<equiv> 16384"
abbreviation (input) UT_METADATA_ID :: int where "UT_METADATA_ID \<equiv> 3"

definition peer_reset :: "int \<Rightarrow> peer \<Rightarrow> peer" where
  "peer_reset now p = p\<lparr>ut_metadata := 0, ut_metadata_size := 0,
     running := 0, am_choking := 1, am_interested := 0, peer_choking := 1, peer_interested := 0,
     peer_state := PEER_UNCONNECTED, reconnect_deadline := size_t_of now,
     network_ordered_msg_length := 0, network_ordered_msg_length_loaded := 0, msg_id := 0, msg_id_loaded := 0,
     uploader := 0, msg_bitfield_sent := 0, pending_request_count := 0\<rparr>"

text \<open>\<open>inet_ntoa\<close> prints the four bytes of an address in network order.\<close>

definition inet_ntoa :: "u32 \<Rightarrow> string" where
  "inet_ntoa ip = (case map (\<lambda>b. dec_nat (unat b)) (be32 ip) of
      [a, b, c, d] \<Rightarrow> a @ ''.'' @ b @ ''.'' @ c @ ''.'' @ d
    | _ \<Rightarrow> [])"

text \<open>\<open>peer_new\<close>: the flags are the results of the allocations of the peer, its queue and its
  address text. A failed first allocation calls \<open>peer_free\<close> with NULL, which returns NULL. When the copy
  of the address text fails, \<open>peer_free\<close> runs on a peer whose status is indeterminate: undefined.\<close>

definition peer_new :: "bool \<Rightarrow> bool \<Rightarrow> bool \<Rightarrow> bool \<Rightarrow> int \<Rightarrow> u32 \<Rightarrow> u16 \<Rightarrow> peer option option" where
  "peer_new le malloc_ok queue_ok strndup_ok now ip pt =
     (if \<not> malloc_ok then Some None
      else do {
        q \<leftarrow> queue_new queue_ok;
        q \<leftarrow> q;
        if \<not> strndup_ok then None
        else Some (Some (peer_reset now
          \<lparr>sin_port = htons_util le pt, s_addr = htonl_util le ip, str_ip = inet_ntoa ip, port = pt, psocket = None,
           ut_metadata = 0, ut_metadata_requested = None, ut_metadata_size = 0, running = 0, am_choking = 1,
           am_interested = 0, peer_choking = 1, peer_interested = 0, peer_bitfield = None, progress_queue = q,
           peer_state = PEER_UNCONNECTED, reconnect_deadline = 0, network_ordered_msg_length = 0,
           network_ordered_msg_length_loaded = 0, msg_id = 0, msg_id_loaded = 0, uploader = 0,
           msg_bitfield_sent = 0, pending_request_count = 0\<rparr>))
      })"

subsection \<open>Connecting\<close>

definition peer_set_socket :: "buffered_socket option \<Rightarrow> peer \<Rightarrow> peer" where
  "peer_set_socket s p = p\<lparr>psocket := s, peer_state := PEER_CONNECTED\<rparr>"

definition peer_should_connect :: "int \<Rightarrow> peer \<Rightarrow> bool" where
  "peer_should_connect now p \<longleftrightarrow> peer_state p = PEER_UNCONNECTED \<and> reconnect_deadline p < size_t_of now"

record connect_io =
  c_malloc :: bool
  c_now1 :: int
  c_now2 :: int
  c_fd :: int
  c_flags :: int
  c_setfl :: int
  c_conn :: int
  c_einprogress :: bool

text \<open>The result of \<open>buffered_socket_connect\<close> is compared with \<open>-1\<close>, which it never returns.\<close>

definition peer_connect :: "connect_io \<Rightarrow> peer \<Rightarrow> (status \<times> peer) option" where
  "peer_connect io p = (case buffered_socket_new (c_malloc io) (c_now1 io) (c_now2 io) of
      None \<Rightarrow> None
    | Some s \<Rightarrow>
        let (r, s) = buffered_socket_connect s (c_fd io) (c_flags io) (c_setfl io) (c_conn io) (c_einprogress io);
            p = p\<lparr>psocket := Some s\<rparr>
        in if r = - 1 then Some (EXIT_FAILURE, p\<lparr>peer_state := PEER_UNCONNECTED\<rparr>)
           else Some (EXIT_SUCCESS, p\<lparr>peer_state := PEER_CONNECTED\<rparr>))"

record disconnect_io =
  free_steps :: nat
  reset_now :: int
  deadline_now :: int

definition peer_disconnect :: "disconnect_io \<Rightarrow> peer \<Rightarrow> peer option" where
  "peer_disconnect io p = do {
     (_, s) \<leftarrow> buffered_socket_free (free_steps io) (psocket p);
     Some ((peer_reset (reset_now io) (p\<lparr>psocket := s\<rparr>))\<lparr>reconnect_deadline := size_t_of (deadline_now io + 30 * 1000)\<rparr>)
   }"

text \<open>\<open>peer_free\<close>: the peer is disconnected and its queue is drained; the result is NULL.\<close>

definition peer_free :: "disconnect_io \<Rightarrow> peer option \<Rightarrow> peer option option" where
  "peer_free io p = (case p of
      None \<Rightarrow> Some None
    | Some p \<Rightarrow> do {
        p \<leftarrow> peer_disconnect io p;
        (_, q) \<leftarrow> queue_drain (progress_queue p);
        _ \<leftarrow> queue_free (Some q);
        Some None
      })"

subsection \<open>Network buffers\<close>

record network_io =
  poll_in :: bool
  poll_hup :: bool
  write_results :: "write_result list"
  write_hard_error :: bool
  write_now :: int
  read_outcome :: read_result
  read_malloc :: bool
  read_hard_error :: bool
  read_now :: int

definition peer_should_handle_network_buffers :: "network_io \<Rightarrow> peer \<Rightarrow> bool" where
  "peer_should_handle_network_buffers io p = (case psocket p of
      None \<Rightarrow> False
    | Some b \<Rightarrow> socket b \<noteq> - 1 \<and>
        (buffered_socket_can_network_write (psocket p) \<noteq> 0
         \<or> buffered_socket_can_network_read (psocket p) (poll_in io) \<noteq> 0
         \<or> (PEER_CONNECTED \<le> peer_state p \<and> buffered_socket_has_hungup (psocket p) (poll_hup io) \<noteq> 0)))"

text \<open>\<open>write_hard_error\<close> and \<open>read_hard_error\<close> say that \<open>errno\<close> is none of the values for "try again".
  The result carries the bytes handed to the network.\<close>

definition peer_handle_network_buffers ::
  "network_io \<Rightarrow> disconnect_io \<Rightarrow> peer \<Rightarrow> (status \<times> peer \<times> u8 list) option" where
  "peer_handle_network_buffers io d p =
     (if buffered_socket_has_hungup (psocket p) (poll_hup io) = 1
      then map_option (\<lambda>p. (EXIT_FAILURE, p, [])) (peer_disconnect d p)
      else do {
        (w, p, out) \<leftarrow>
          (if buffered_socket_can_network_write (psocket p) \<noteq> 0
           then map_option (\<lambda>(r, s, out). (r, p\<lparr>psocket := s\<rparr>, out))
             (buffered_socket_network_write (psocket p) (write_results io) (write_now io))
           else Some (1, p, []));
        if w = - 1 \<and> write_hard_error io then map_option (\<lambda>p. (EXIT_FAILURE, p, out)) (peer_disconnect d p)
        else do {
          (r, p) \<leftarrow>
            (if buffered_socket_can_network_read (psocket p) (poll_in io) \<noteq> 0
             then map_option (\<lambda>(r, s). (r, p\<lparr>psocket := s\<rparr>))
               (buffered_socket_network_read (psocket p) (read_outcome io) (read_malloc io) (read_now io))
             else Some (1, p));
          if r = - 1 \<and> read_hard_error io then map_option (\<lambda>p. (EXIT_FAILURE, p, out)) (peer_disconnect d p)
          else Some (EXIT_SUCCESS, p, out)
        }
      })"

subsection \<open>Writing a message\<close>

type_synonym write_io = "addr option \<times> bool"

text \<open>One buffered write of the whole message; the flag says that all of it was taken.\<close>

definition peer_write :: "write_io \<Rightarrow> u8 list \<Rightarrow> peer \<Rightarrow> (bool \<times> peer) option" where
  "peer_write w msg p = map_option (\<lambda>(r, s). (r = int (length msg), p\<lparr>psocket := s\<rparr>))
     (buffered_socket_write (psocket p) (fst w) (snd w) msg)"

subsection \<open>Handshake\<close>

definition peer_should_send_handshake :: "bool \<Rightarrow> peer \<Rightarrow> bool" where
  "peer_should_send_handshake pollout p \<longleftrightarrow>
     peer_state p = PEER_CONNECTED \<and> buffered_socket_can_write (psocket p) pollout = 1"

definition peer_should_handle_handshake :: "peer \<Rightarrow> bool" where
  "peer_should_handle_handshake p \<longleftrightarrow>
     peer_state p = PEER_HANDSHAKE_SENT \<and> buffered_socket_can_read (psocket p) = 1"

text \<open>The packed struct \<open>PEER_HANDSHAKE\<close>, field by field.\<close>

record PEER_HANDSHAKE =
  pstrlen :: u8
  pstr :: "u8 list"
  reserved :: "u8 list"
  hs_info_hash :: "u8 list"
  hs_peer_id :: "u8 list"

definition handshake_bytes :: "PEER_HANDSHAKE \<Rightarrow> u8 list" where
  "handshake_bytes h = pstrlen h # pstr h @ reserved h @ hs_info_hash h @ hs_peer_id h"

definition handshake_of_bytes :: "u8 list \<Rightarrow> PEER_HANDSHAKE" where
  "handshake_of_bytes bs = \<lparr>pstrlen = bs ! 0, pstr = take 19 (drop 1 bs), reserved = take 8 (drop 20 bs),
     hs_info_hash = take 20 (drop 28 bs), hs_peer_id = take 20 (drop 48 bs)\<rparr>"

abbreviation text_bytes :: "string \<Rightarrow> u8 list" where "text_bytes s \<equiv> map of_char s"

definition handshake_sent :: "u8 list \<Rightarrow> PEER_HANDSHAKE" where
  "handshake_sent info_hash = \<lparr>pstrlen = 19, pstr = text_bytes ''BitTorrent protocol'',
     reserved = (replicate 8 0)[5 := 0x10], hs_info_hash = info_hash, hs_peer_id = text_bytes ''UVG11234567891234567''\<rparr>"

definition peer_send_handshake :: "write_io \<Rightarrow> u8 list \<Rightarrow> peer \<Rightarrow> (status \<times> peer) option" where
  "peer_send_handshake w info_hash p = do {
     (taken, p) \<leftarrow> peer_write w (handshake_bytes (handshake_sent info_hash)) p;
     if taken then Some (EXIT_SUCCESS, p\<lparr>peer_state := PEER_HANDSHAKE_SENT\<rparr>) else Some (EXIT_FAILURE, p)
   }"

abbreviation new_heap :: heap where "new_heap \<equiv> \<lparr>calls = 0, live = 0\<rparr>"

text \<open>The dictionary of the extended handshake, encoded into an array of 1000 zero bytes. The memory
  outcomes \<open>ok\<close> are those of the bencode calls. The result is the encoded message.\<close>

definition encode_1000 :: "be_node option \<Rightarrow> u8 list option" where
  "encode_1000 d = do {
     d \<leftarrow> d;
     (r, out) \<leftarrow> be_encode d (Some (replicate 1000 0)) 0 1000;
     out \<leftarrow> out;
     if r < 0 then None else Some (take (nat r) out)
   }"

definition extended_handshake :: "outcomes \<Rightarrow> nat \<Rightarrow> u8 list option" where
  "extended_handshake ok metadata_size = do {
     let (d, h) = be_alloc ok TDICT new_heap;
     let (m, h) = be_alloc ok TDICT h;
     (_, m, h) \<leftarrow> be_dict_add_num ok m (cstring (text_bytes ''ut_metadata'')) UT_METADATA_ID h;
     (_, d, h) \<leftarrow> be_dict_add ok d (cstring (text_bytes ''m'')) m h;
     (_, d, h) \<leftarrow> be_dict_add_num ok d (cstring (text_bytes ''metadata_size'')) (int32_of (int metadata_size)) h;
     encode_1000 d
   }"

text \<open>The packed struct \<open>PEER_MSG_EXTENSION\<close> with its message; the length field counts what follows it.\<close>

definition extension_msg :: "bool \<Rightarrow> u8 \<Rightarrow> u8 list \<Rightarrow> u8 list" where
  "extension_msg le ext_id msg =
     mem32 le (htonl_util le (of_nat (2 + length msg))) @ [20, ext_id] @ msg"

definition peer_handle_handshake ::
  "bool \<Rightarrow> bool \<Rightarrow> outcomes \<Rightarrow> bool \<Rightarrow> write_io \<Rightarrow> u8 list \<Rightarrow> nat \<Rightarrow> peer \<Rightarrow> (status \<times> peer) option" where
  "peer_handle_handshake le read_ok ok ext_malloc w info_hash metadata_size p =
     (case buffered_socket_read (psocket p) read_ok 68 of (r, bs, s) \<Rightarrow>
        let p = p\<lparr>psocket := s\<rparr> in
        if r \<noteq> 68 then Some (EXIT_FAILURE, p)
        else let hs = handshake_of_bytes bs in
          if take 8 (hs_info_hash hs) \<noteq> take 8 info_hash then Some (EXIT_FAILURE, p)
          else if reserved hs ! 5 = 0x10 then do {
            msg \<leftarrow> extended_handshake ok metadata_size;
            if \<not> ext_malloc then None
            else do {
              (taken, p) \<leftarrow> peer_write w (extension_msg le 0 msg) p;
              if taken then Some (EXIT_SUCCESS, p\<lparr>peer_state := PEER_HANDSHAKE_COMPLETE\<rparr>) else Some (EXIT_FAILURE, p)
            }
          }
          else Some (EXIT_SUCCESS, p\<lparr>peer_state := PEER_HANDSHAKE_COMPLETE\<rparr>))"

end
