(* ===== verification/Uvg_PeerMessages.thy ===== *)
theory Uvg_PeerMessages
  imports Uvg_Peer
begin

text \<open>
  The peer wire protocol of \<^verbatim>\<open>src/src/peer/peer_messages.c\<close> after the handshake: reading one message
  from the buffered socket with its state kept across partial reads, and sending and handling every
  kind of message. A message buffer is the list of its bytes; its fields are read at the offsets of
  the packed structs, and an access outside the buffer is undefined.
\<close>

subsection \<open>Reading one message\<close>

definition VALID_MSG_IDS :: "u8 list" where
  "VALID_MSG_IDS = [0, 1, 2, 3, 4, 5, 6, 7, 8, 9, 20]"

definition is_valid_msg_id :: "u8 \<Rightarrow> status" where
  "is_valid_msg_id i = (if i \<in> set VALID_MSG_IDS then EXIT_SUCCESS else EXIT_FAILURE)"

definition peer_should_read_message :: "peer \<Rightarrow> bool" where
  "peer_should_read_message p \<longleftrightarrow>
     peer_state p = PEER_HANDSHAKE_COMPLETE \<and> buffered_socket_can_read (psocket p) \<noteq> 0"

text \<open>What the allocations of one call do: the buffer that is kept after each of the three reads, and
  the message buffer.\<close>

record read_io =
  keep1 :: bool
  keep2 :: bool
  msg_malloc :: bool
  keep3 :: bool

definition disconnect_null :: "disconnect_io \<Rightarrow> peer \<Rightarrow> (u8 list option \<times> peer) option" where
  "disconnect_null d p = map_option (\<lambda>p. (None, p)) (peer_disconnect d p)"

text \<open>The two prefixes; \<open>cont\<close> is the rest of the function, run once the prefix is loaded.\<close>

definition load_msg_length ::
  "bool \<Rightarrow> read_io \<Rightarrow> disconnect_io \<Rightarrow> (peer \<Rightarrow> (u8 list option \<times> peer) option) \<Rightarrow> peer \<Rightarrow> (u8 list option \<times> peer) option" where
  "load_msg_length le io d cont p =
     (if network_ordered_msg_length_loaded p = 0 then
        (case buffered_socket_read (psocket p) (keep1 io) 4 of (r, bs, s) \<Rightarrow>
           let p = p\<lparr>psocket := s\<rparr> in
           if r = 4 then cont (p\<lparr>network_ordered_msg_length := load32 le bs, network_ordered_msg_length_loaded := 1\<rparr>)
           else if r = - 1 then disconnect_null d p
           else Some (None, p))
      else cont p)"

definition load_msg_id ::
  "read_io \<Rightarrow> disconnect_io \<Rightarrow> (peer \<Rightarrow> (u8 list option \<times> peer) option) \<Rightarrow> peer \<Rightarrow> (u8 list option \<times> peer) option" where
  "load_msg_id io d cont p =
     (if msg_id_loaded p = 0 then
        (case buffered_socket_read (psocket p) (keep2 io) 1 of (r, bs, s) \<Rightarrow>
           let p = p\<lparr>psocket := s\<rparr> in
           if r = 1 then cont (p\<lparr>msg_id := hd bs, msg_id_loaded := 1\<rparr>)
           else if r = - 1 then disconnect_null d p
           else Some (None, p))
      else cont p)"

text \<open>The rest of the message, which is only taken when all of it has arrived.\<close>

definition load_msg_body :: "bool \<Rightarrow> read_io \<Rightarrow> disconnect_io \<Rightarrow> peer \<Rightarrow> (u8 list option \<times> peer) option" where
  "load_msg_body le io d p =
     (if is_valid_msg_id (msg_id p) = EXIT_FAILURE then disconnect_null d p
      else let msg_length = unat (ntohl_util le (network_ordered_msg_length p)) in
        if msg_length = 0 then Some (None, p)
        else if \<not> msg_malloc io then disconnect_null d p
        else
          let head = mem32 le (network_ordered_msg_length p) @ [msg_id p];
              expected = 4 + msg_length - 5;
              (r, bs, s) = (if expected > 0 then buffered_socket_read (psocket p) (keep3 io) expected
                            else (1, [], psocket p));
              p = p\<lparr>psocket := s\<rparr>
          in if r = - 1 then disconnect_null d p
             else if r = 0 then Some (None, p)
             else Some (Some (head @ bs),
               p\<lparr>network_ordered_msg_length := 0, network_ordered_msg_length_loaded := 0, msg_id := 0, msg_id_loaded := 0\<rparr>))"

definition peer_read_message :: "bool \<Rightarrow> read_io \<Rightarrow> disconnect_io \<Rightarrow> peer \<Rightarrow> (u8 list option \<times> peer) option" where
  "peer_read_message le io d p = load_msg_length le io d (load_msg_id io d (load_msg_body le io d)) p"

subsection \<open>Fields of a message buffer\<close>

definition field32 :: "u8 list \<Rightarrow> nat \<Rightarrow> u8 list option" where
  "field32 m off = (if off + 4 \<le> length m then Some (take 4 (drop off m)) else None)"

definition get_msg_length :: "bool \<Rightarrow> u8 list \<Rightarrow> u32 option" where
  "get_msg_length le m = map_option (\<lambda>bs. ntohl_util le (load32 le bs)) (field32 m 0)"

definition get_msg_id :: "u8 list \<Rightarrow> u8 option" where
  "get_msg_id m = byte_at m 4"

definition get_msg_buffer_size :: "bool \<Rightarrow> u8 list \<Rightarrow> nat option" where
  "get_msg_buffer_size le m = map_option (\<lambda>n. 4 + unat n) (get_msg_length le m)"

subsection \<open>Keep-alive and timeouts\<close>

text \<open>The times are \<open>uint64_t\<close> and \<open>int64_t\<close>; the comparison is between \<open>uint64_t\<close> values.\<close>

definition peer_should_send_keepalive :: "int \<Rightarrow> peer \<Rightarrow> bool" where
  "peer_should_send_keepalive now p = (case psocket p of
      None \<Rightarrow> False
    | Some b \<Rightarrow> peer_state p = PEER_HANDSHAKE_COMPLETE
        \<and> size_t_of (last_download_rate_update b) < size_t_of (now - (60 * 1000) * 2))"

definition peer_send_keepalive :: "bool \<Rightarrow> write_io \<Rightarrow> peer \<Rightarrow> (status \<times> peer) option" where
  "peer_send_keepalive le w p = do {
     (taken, p) \<leftarrow> peer_write w (mem32 le 0) p;
     Some (if taken then EXIT_SUCCESS else EXIT_FAILURE, p)
   }"

definition peer_should_timeout :: "int \<Rightarrow> peer \<Rightarrow> bool" where
  "peer_should_timeout now p = (case psocket p of
      None \<Rightarrow> False
    | Some b \<Rightarrow>
        if peer_state p = PEER_HANDSHAKE_COMPLETE
        then size_t_of (last_download_rate_update b) < size_t_of (now - (60 * 1000) * 2 + 500)
        else if peer_state p < PEER_HANDSHAKE_COMPLETE
        then size_t_of (last_download_rate_update b) < size_t_of (now - 10 * 1000)
        else False)"

subsection \<open>Messages without payload\<close>

definition basic_msg :: "bool \<Rightarrow> u8 \<Rightarrow> u8 list" where
  "basic_msg le i = mem32 le (htonl_util le 1) @ [i]"

definition send_basic :: "bool \<Rightarrow> write_io \<Rightarrow> u8 \<Rightarrow> peer \<Rightarrow> (status \<times> peer) option" where
  "send_basic le w i p = do {
     (taken, p) \<leftarrow> peer_write w (basic_msg le i) p;
     Some (if taken then EXIT_SUCCESS else EXIT_FAILURE, p)
   }"

definition peer_send_msg_choke :: "bool \<Rightarrow> write_io \<Rightarrow> peer \<Rightarrow> (status \<times> peer) option" where
  "peer_send_msg_choke le w p = send_basic le w 0 (p\<lparr>am_choking := 1\<rparr>)"

definition peer_send_msg_unchoke :: "bool \<Rightarrow> write_io \<Rightarrow> peer \<Rightarrow> (status \<times> peer) option" where
  "peer_send_msg_unchoke le w p = send_basic le w 1 (p\<lparr>am_choking := 0\<rparr>)"

definition peer_send_msg_interested :: "bool \<Rightarrow> write_io \<Rightarrow> peer \<Rightarrow> (status \<times> peer) option" where
  "peer_send_msg_interested le w p = send_basic le w 2 (p\<lparr>am_interested := 1\<rparr>)"

definition peer_send_msg_not_interested :: "bool \<Rightarrow> write_io \<Rightarrow> peer \<Rightarrow> (status \<times> peer) option" where
  "peer_send_msg_not_interested le w p = send_basic le w 3 (p\<lparr>am_interested := 0\<rparr>)"

definition peer_handle_msg_choke :: "peer \<Rightarrow> peer" where
  "peer_handle_msg_choke p = p\<lparr>peer_choking := 1\<rparr>"

definition peer_handle_msg_unchoke :: "peer \<Rightarrow> peer" where
  "peer_handle_msg_unchoke p = p\<lparr>peer_choking := 0\<rparr>"

definition peer_handle_msg_interested :: "peer \<Rightarrow> peer" where
  "peer_handle_msg_interested p = p\<lparr>peer_interested := 1\<rparr>"

definition peer_handle_msg_not_interested :: "peer \<Rightarrow> peer" where
  "peer_handle_msg_not_interested p = p\<lparr>peer_interested := 0\<rparr>"

subsection \<open>Interest\<close>

text \<open>The scan for a piece that the peer has and we do not.\<close>

primrec interesting_scan :: "torrent_data \<Rightarrow> bitfield \<Rightarrow> nat list \<Rightarrow> bool option" where
  "interesting_scan td b [] = Some False"
| "interesting_scan td b (i # is) = do {
     have \<leftarrow> (if torrent_data_is_complete td = 1 then Some 1
              else if needed td = 1 then torrent_data_is_piece_complete td (int i)
              else Some 0);
     v \<leftarrow> (if have = 0 then bitfield_get_bit b (int i) else Some 0);
     if have = 0 \<and> v = 1 then Some True else interesting_scan td b is
   }"

definition peer_update_interested :: "bool \<Rightarrow> write_io \<Rightarrow> torrent_data \<Rightarrow> peer \<Rightarrow> peer option" where
  "peer_update_interested le w td p = (case peer_bitfield p of
      None \<Rightarrow> Some p
    | Some b \<Rightarrow> do {
        found \<leftarrow> interesting_scan td b [0..<bit_count b];
        if am_interested p = 0 \<and> found then map_option snd (peer_send_msg_interested le w p)
        else if am_interested p = 1 \<and> \<not> found then map_option snd (peer_send_msg_not_interested le w p)
        else Some p
      })"

subsection \<open>Have\<close>

definition peer_should_send_msg_have :: "peer \<Rightarrow> bool" where
  "peer_should_send_msg_have p \<longleftrightarrow>
     queue_get_count (progress_queue p) > 0 \<and> peer_state p = PEER_HANDSHAKE_COMPLETE"

definition have_msg :: "bool \<Rightarrow> int \<Rightarrow> u8 list" where
  "have_msg le i = mem32 le (htonl_util le 5) @ [4] @ mem32 le (htonl_util le (of_int i))"

text \<open>The loop over the queue of finished pieces, one outcome of a write for each; the list of outcomes
  bounds the loop, which needs as many as there are entries.\<close>

primrec send_have_loop :: "bool \<Rightarrow> write_io list \<Rightarrow> peer \<Rightarrow> (bool \<times> peer) option" where
  "send_have_loop le [] p = (if queue_get_count (progress_queue p) > 0 then None else Some (True, p))"
| "send_have_loop le (w # ws) p =
     (if queue_get_count (progress_queue p) > 0 then do {
        (i, q) \<leftarrow> queue_pop (progress_queue p);
        i \<leftarrow> i;
        (taken, p) \<leftarrow> peer_write w (have_msg le i) (p\<lparr>progress_queue := q\<rparr>);
        if taken then send_have_loop le ws p else Some (False, p)
      }
      else Some (True, p))"

definition peer_send_msg_have ::
  "bool \<Rightarrow> write_io list \<Rightarrow> write_io \<Rightarrow> torrent_data \<Rightarrow> peer \<Rightarrow> (status \<times> peer) option" where
  "peer_send_msg_have le ws w td p = do {
     (all, p) \<leftarrow> send_have_loop le ws p;
     if all then map_option (\<lambda>p. (EXIT_SUCCESS, p)) (peer_update_interested le w td p) else Some (EXIT_FAILURE, p)
   }"

definition peer_handle_msg_have ::
  "bool \<Rightarrow> bool \<Rightarrow> write_io \<Rightarrow> u8 list \<Rightarrow> torrent_data \<Rightarrow> peer \<Rightarrow> peer option" where
  "peer_handle_msg_have le bf_malloc w m td p = do {
     b \<leftarrow> (case peer_bitfield p of
         Some b \<Rightarrow> Some b
       | None \<Rightarrow> Option.bind (bitfield_new bf_malloc (size_t_of (piece_count td)) 0 0) (\<lambda>b. b));
     i \<leftarrow> field32 m 5;
     b \<leftarrow> bitfield_set_bit b (int32_of (uint (ntohl_util le (load32 le i)))) 1;
     peer_update_interested le w td (p\<lparr>peer_bitfield := Some b\<rparr>)
   }"

subsection \<open>Bitfield\<close>

definition peer_should_send_msg_bitfield :: "torrent_data \<Rightarrow> peer \<Rightarrow> bool" where
  "peer_should_send_msg_bitfield td p \<longleftrightarrow>
     peer_state p = PEER_HANDSHAKE_COMPLETE \<and> msg_bitfield_sent p = 0 \<and> needed td = 1"

definition bitfield_msg :: "bool \<Rightarrow> u8 list \<Rightarrow> u8 list" where
  "bitfield_msg le bs = mem32 le (htonl_util le (of_nat (1 + length bs))) @ [5] @ bs"

text \<open>A bitfield that a peer sent before the number of pieces was known is grown to the right size.\<close>

definition resize_peer_bitfield :: "bool \<Rightarrow> torrent_data \<Rightarrow> bitfield \<Rightarrow> peer \<Rightarrow> peer option" where
  "resize_peer_bitfield new_malloc td msg_bf p = (case peer_bitfield p of
      None \<Rightarrow> Some p
    | Some old \<Rightarrow>
        if bytes_count old < bytes_count msg_bf then do {
          new \<leftarrow> bitfield_new new_malloc (size_t_of (piece_count td)) 0 0;
          new \<leftarrow> new;
          if length (bytes old) < bytes_count old then None
          else do {
            bs \<leftarrow> memcpy_at (bytes new) 0 (take (bytes_count old) (bytes old));
            Some (p\<lparr>peer_bitfield := Some (new\<lparr>bytes := bs\<rparr>)\<rparr>)
          }
        }
        else Some p)"

definition peer_send_msg_bitfield ::
  "bool \<Rightarrow> bool \<Rightarrow> bool \<Rightarrow> bool \<Rightarrow> write_io \<Rightarrow> torrent_data \<Rightarrow> peer \<Rightarrow> (status \<times> peer) option" where
  "peer_send_msg_bitfield le bf_malloc new_malloc msg_ok w td p = do {
     let p = p\<lparr>msg_bitfield_sent := 1\<rparr>;
     msg_bf \<leftarrow> bitfield_new bf_malloc (size_t_of (piece_count td)) 0 0;
     msg_bf \<leftarrow> msg_bf;
     p \<leftarrow> resize_peer_bitfield new_malloc td msg_bf p;
     msg_bf \<leftarrow> foldM (\<lambda>i b. Option.bind (torrent_data_is_piece_complete td (int i)) (bitfield_set_bit b (int i)))
       [0..<nat (piece_count td)] msg_bf;
     if \<not> msg_ok then Some (EXIT_FAILURE, p)
     else if length (bytes msg_bf) < bytes_count msg_bf then None
     else do {
       (taken, p) \<leftarrow> peer_write w (bitfield_msg le (take (bytes_count msg_bf) (bytes msg_bf))) p;
       Some (if taken then EXIT_SUCCESS else EXIT_FAILURE, p)
     }
   }"

text \<open>The size test compares the number of pieces with itself, so it never rejects.\<close>

definition peer_handle_msg_bitfield ::
  "bool \<Rightarrow> bool \<Rightarrow> write_io \<Rightarrow> u8 list \<Rightarrow> torrent_data \<Rightarrow> peer \<Rightarrow> (status \<times> peer) option" where
  "peer_handle_msg_bitfield le bf_malloc w m td p = do {
     buffer_size \<leftarrow> get_msg_buffer_size le m;
     let bitfield_size = size_sub buffer_size 5;
     let n = (if needed td = 1 then piece_count td else int32_of (int bitfield_size * 8));
     b \<leftarrow> (case peer_bitfield p of
         Some b \<Rightarrow> Some b
       | None \<Rightarrow> Option.bind (bitfield_new bf_malloc (size_t_of n) 0 0) (\<lambda>b. b));
     if length m < 5 + bitfield_size then None
     else do {
       bs \<leftarrow> memcpy_at (bytes b) 0 (take bitfield_size (drop 5 m));
       p \<leftarrow> peer_update_interested le w td (p\<lparr>peer_bitfield := Some (b\<lparr>bytes := bs\<rparr>)\<rparr>);
       Some (EXIT_SUCCESS, p)
     }
   }"

subsection \<open>Requests\<close>

abbreviation (input) REQUEST_MSG_QUEUE_LENGTH :: int where "REQUEST_MSG_QUEUE_LENGTH \<equiv> 10"

definition peer_should_send_msg_request :: "torrent_data \<Rightarrow> peer \<Rightarrow> bool" where
  "peer_should_send_msg_request td p \<longleftrightarrow> peer_state p = PEER_HANDSHAKE_COMPLETE \<and> needed td = 1
     \<and> pending_request_count p < REQUEST_MSG_QUEUE_LENGTH \<and> peer_choking p = 0 \<and> am_interested p = 1"

text \<open>The inner loop over the bytes of one piece in the bitfield of wanted chunks.\<close>

definition mark_piece :: "torrent_data \<Rightarrow> bitfield \<Rightarrow> nat \<Rightarrow> bitfield \<Rightarrow> bitfield option" where
  "mark_piece td peer_bf i interested = do {
     v \<leftarrow> bitfield_get_bit peer_bf (int i);
     if chunk_size td = 0 then None
     else
       let chunks_per_piece = int32_of (int (piece_size td div chunk_size td));
           uints_per_piece = chunks_per_piece div 8
       in foldM (\<lambda>x b.
            let index = int i * uints_per_piece + int x in
            if int32_of index \<noteq> index then None
            else if size_t_of index < bytes_count b then
              if index < 0 \<or> length (bytes b) \<le> nat index then None
              else Some (if v = 0 then b\<lparr>bytes := (bytes b)[nat index := 0x00]\<rparr>
                         else if v = 1 then b\<lparr>bytes := (bytes b)[nat index := 0xFF]\<rparr> else b)
            else Some b) [0..<nat uints_per_piece] interested
   }"

definition request_msg :: "bool \<Rightarrow> piece_info \<Rightarrow> chunk_info \<Rightarrow> u8 list" where
  "request_msg le pi ci = mem32 le (htonl_util le 13) @ [6]
     @ mem32 le (htonl_util le (of_int (piece_id pi)))
     @ mem32 le (htonl_util le (of_nat (size_sub (chunk_offset ci) (piece_offset pi))))
     @ mem32 le (htonl_util le (of_nat (info_chunk_size ci)))"

text \<open>The loop over the claimed chunks, which ends at the first entry \<open>-1\<close> or at a failed write; the
  \<open>k\<close>-th write has the outcome \<open>ws k\<close>.\<close>

primrec request_loop ::
  "bool \<Rightarrow> (nat \<Rightarrow> write_io) \<Rightarrow> torrent_data \<Rightarrow> int list \<Rightarrow> nat \<Rightarrow> peer \<Rightarrow> (bool \<times> peer) option" where
  "request_loop le ws td [] k p = Some (True, p)"
| "request_loop le ws td (cid # cids) k p =
     (if cid = - 1 then Some (True, p)
      else do {
        (_, ci) \<leftarrow> torrent_data_get_chunk_info td cid;
        ci \<leftarrow> ci;
        pi \<leftarrow> snd (torrent_data_get_piece_info td (chunk_piece_id ci));
        (taken, p) \<leftarrow> peer_write (ws k) (request_msg le pi ci) p;
        if taken then request_loop le ws td cids (Suc k) (p\<lparr>pending_request_count := pending_request_count p + 1\<rparr>)
        else Some (False, p)
      })"

record request_io =
  bf_malloc :: bool
  claim_malloc :: bool
  claim_clock :: "nat \<Rightarrow> int"
  request_writes :: "nat \<Rightarrow> write_io"

definition peer_send_msg_request ::
  "bool \<Rightarrow> request_io \<Rightarrow> torrent_data \<Rightarrow> peer \<Rightarrow> (status \<times> peer \<times> torrent_data) option" where
  "peer_send_msg_request le io td p = do {
     interested \<leftarrow> bitfield_new (bf_malloc io) (size_t_of (chunk_count td)) 0 0xFF;
     interested \<leftarrow> interested;
     interested \<leftarrow> foldM (\<lambda>i b. Option.bind (peer_bitfield p) (\<lambda>pb. mark_piece td pb i b))
       [0..<nat (piece_count td)] interested;
     if pending_request_count p < REQUEST_MSG_QUEUE_LENGTH then do {
       let needed_chunks = REQUEST_MSG_QUEUE_LENGTH - pending_request_count p;
       (r, td, cids) \<leftarrow> torrent_data_claim_chunk (claim_malloc io) (claim_clock io) td interested 10 needed_chunks
         (replicate (nat needed_chunks) (- 1));
       if r = EXIT_SUCCESS then do {
         (sent, p) \<leftarrow> request_loop le (request_writes io) td cids 0 p;
         Some (if sent then EXIT_SUCCESS else EXIT_FAILURE, p, td)
       }
       else Some (EXIT_SUCCESS, p, td)
     }
     else Some (EXIT_SUCCESS, p, td)
   }"

definition piece_msg :: "bool \<Rightarrow> u8 list \<Rightarrow> u8 list \<Rightarrow> u8 list \<Rightarrow> u8 list" where
  "piece_msg le index begin block =
     mem32 le (htonl_util le (of_nat (9 + length block))) @ [7] @ index @ begin @ block"

record answer_io =
  answer_malloc :: bool
  answer_fuel :: nat
  answer_env :: disk_env
  answer_write :: write_io

text \<open>Answering a request. The status of the read is ignored: what could not be read stays zero.\<close>

definition peer_handle_msg_request ::
  "bool \<Rightarrow> answer_io \<Rightarrow> u8 list \<Rightarrow> torrent_data \<Rightarrow> disk \<Rightarrow> peer \<Rightarrow> (status \<times> peer) option" where
  "peer_handle_msg_request le io m td disk p = do {
     index \<leftarrow> field32 m 5;
     pi \<leftarrow> snd (torrent_data_get_piece_info td (int32_of (uint (ntohl_util le (load32 le index)))));
     begin \<leftarrow> field32 m 9;
     len \<leftarrow> field32 m 13;
     let offset = (piece_offset pi + unat (ntohl_util le (load32 le begin))) mod 2 ^ 64;
     let size = unat (ntohl_util le (load32 le len));
     if \<not> answer_malloc io then None
     else do {
       (_, got) \<leftarrow> torrent_data_read_data (answer_fuel io) (answer_env io) td disk offset size;
       block \<leftarrow> memcpy_at (replicate size 0) 0 got;
       (_, p) \<leftarrow> peer_write (answer_write io) (piece_msg le index begin block) p;
       Some (EXIT_SUCCESS, p)
     }
   }"

subsection \<open>Piece, cancel and port\<close>

text \<open>A piece message goes to the queue of the torrent; cancel and port messages are dropped.\<close>

definition peer_handle_msg_piece ::
  "addr option \<Rightarrow> u8 list \<Rightarrow> u8 list queue \<Rightarrow> peer \<Rightarrow> (peer \<times> u8 list queue) option" where
  "peer_handle_msg_piece node m data_queue p = do {
     (_, q) \<leftarrow> queue_push data_queue node m;
     Some (p\<lparr>pending_request_count := pending_request_count p - 1\<rparr>, q)
   }"

definition peer_handle_msg_cancel :: "peer \<Rightarrow> peer" where
  "peer_handle_msg_cancel p = p"

definition peer_handle_msg_port :: "peer \<Rightarrow> peer" where
  "peer_handle_msg_port p = p"

end
