(* ===== verification/Uvg_PeerFraming.thy ===== *)
theory Uvg_PeerFraming
  imports Uvg_PeerMessages "HOL-Library.Sublist"
begin

text \<open>
  Reading messages from a stream: \<open>peer_read_message\<close> keeps the state of a partial message across calls.
  The bytes of the stream are those already loaded into the peer and those of the read buffer; the
  proofs rest on the laws of the byte stream (the interpretation \<open>stream\<close> of \<open>Uvg_BufferedSocket\<close>).
\<close>

subsection \<open>Framing\<close>

text \<open>A complete message: four bytes of length, which count everything behind them, a valid id and the
  payload.\<close>

definition is_frame :: "u8 list \<Rightarrow> bool" where
  "is_frame f \<longleftrightarrow> 5 \<le> length f \<and> unat (load_be32 (take 4 f)) = length f - 4 \<and> is_valid_msg_id (f ! 4) = EXIT_SUCCESS"

definition all_kept :: read_io where
  "all_kept = \<lparr>keep1 = True, keep2 = True, msg_malloc = True, keep3 = True\<rparr>"

text \<open>\<open>reading le k p ys\<close>: \<open>k\<close> of the two prefixes are loaded, and \<open>ys\<close> are the bytes of the stream from the
  start of the current message on, loaded or still in the read buffer.\<close>

definition reading :: "bool \<Rightarrow> nat \<Rightarrow> peer \<Rightarrow> u8 list \<Rightarrow> bool" where
  "reading le k p ys \<longleftrightarrow> (\<exists>xs. socket_content (psocket p) = Some xs
     \<and> (k = 0 \<and> network_ordered_msg_length_loaded p = 0 \<and> msg_id_loaded p = 0 \<and> ys = xs
      \<or> k = 1 \<and> network_ordered_msg_length_loaded p = 1 \<and> msg_id_loaded p = 0
          \<and> ys = mem32 le (network_ordered_msg_length p) @ xs
      \<or> k = 2 \<and> network_ordered_msg_length_loaded p = 1 \<and> msg_id_loaded p = 1
          \<and> ys = mem32 le (network_ordered_msg_length p) @ [msg_id p] @ xs))"

lemma length_mem32 [simp]: "length (mem32 le w) = 4"
  by (simp add: mem32_def)

lemma mem32_load32 [simp]: "length bs = 4 \<Longrightarrow> mem32 le (load32 le bs) = bs"
  by (simp add: mem32_def load32_def be32_load_be32)

lemma load_be32_mem32: "load_be32 (mem32 le w) = ntohl_util le w"
  by (simp add: mem32_def ntohl_util_def little_endianess_correct libc_ntohl_def flip: be32_bswap32)

lemma mem32_zero: "mem32 le w = be32 0 \<longleftrightarrow> w = 0"
proof -
  have "mem32 le w = mem32 le 0 \<longleftrightarrow> w = 0" by (simp add: mem32_def be32_inject)
  moreover have "mem32 le 0 = be32 0" by (simp add: mem32_def be32_def)
  ultimately show ?thesis by simp
qed

lemma read_bytes_all_kept: "buffered_socket_read s True n = socket_read_n s n"
  by (simp add: socket_read_n_def)

text \<open>The three stages, on enough bytes and on too few; the reads are those of the byte stream.\<close>

lemma stage_length:
  assumes "reading le 0 p ys"
  shows "4 \<le> length ys \<Longrightarrow> \<exists>p'. load_msg_length le all_kept d cont p = cont p' \<and> reading le 1 p' ys"
    and "length ys < 4 \<Longrightarrow> load_msg_length le all_kept d cont p = Some (None, p)"
proof -
  from assms have c: "socket_content (psocket p) = Some ys" "network_ordered_msg_length_loaded p = 0" "msg_id_loaded p = 0"
    by (auto simp: reading_def)
  show "\<exists>p'. load_msg_length le all_kept d cont p = cont p' \<and> reading le 1 p' ys" if "4 \<le> length ys"
  proof -
    from stream.read_enough [OF c(1) that] obtain s' where
      s': "socket_read_n (psocket p) 4 = (int 4, take 4 ys, s')" "socket_content s' = Some (drop 4 ys)" by blast
    let ?p = "p\<lparr>psocket := s', network_ordered_msg_length := load32 le (take 4 ys), network_ordered_msg_length_loaded := 1\<rparr>"
    have "reading le 1 ?p ys" using s'(2) c(3) that by (simp add: reading_def)
    moreover have "load_msg_length le all_kept d cont p = cont ?p"
      using c(2) s'(1) by (simp add: load_msg_length_def all_kept_def read_bytes_all_kept)
    ultimately show ?thesis by blast
  qed
  show "load_msg_length le all_kept d cont p = Some (None, p)" if "length ys < 4"
    using stream.read_short [OF c(1) that] c(2)
    by (simp add: load_msg_length_def all_kept_def read_bytes_all_kept)
qed

lemma stage_length_skip: "reading le k p ys \<Longrightarrow> k \<noteq> 0 \<Longrightarrow> load_msg_length le io d cont p = cont p"
  by (auto simp: reading_def load_msg_length_def)

lemma stage_id:
  assumes "reading le 1 p ys"
  shows "5 \<le> length ys \<Longrightarrow> \<exists>p'. load_msg_id all_kept d cont p = cont p' \<and> reading le 2 p' ys"
    and "length ys < 5 \<Longrightarrow> load_msg_id all_kept d cont p = Some (None, p)"
proof -
  from assms obtain xs where c: "socket_content (psocket p) = Some xs" "msg_id_loaded p = 0"
    "network_ordered_msg_length_loaded p = 1" "ys = mem32 le (network_ordered_msg_length p) @ xs"
    by (auto simp: reading_def)
  show "\<exists>p'. load_msg_id all_kept d cont p = cont p' \<and> reading le 2 p' ys" if "5 \<le> length ys"
  proof -
    from that c(4) obtain x zs where xs: "xs = x # zs" by (cases xs) auto
    from stream.read_enough [OF c(1), of 1] xs obtain s' where
      s': "socket_read_n (psocket p) 1 = (1, [x], s')" "socket_content s' = Some zs" by auto
    let ?p = "p\<lparr>psocket := s', msg_id := x, msg_id_loaded := 1\<rparr>"
    have "reading le 2 ?p ys" using s'(2) c xs by (simp add: reading_def)
    moreover have "load_msg_id all_kept d cont p = cont ?p"
      using c(2) s'(1) by (simp add: load_msg_id_def all_kept_def read_bytes_all_kept)
    ultimately show ?thesis by blast
  qed
  show "load_msg_id all_kept d cont p = Some (None, p)" if "length ys < 5"
    using stream.read_short [OF c(1), of 1] c(2,4) that
    by (simp add: load_msg_id_def all_kept_def read_bytes_all_kept)
qed

lemma stage_id_skip: "reading le 2 p ys \<Longrightarrow> load_msg_id io d cont p = cont p"
  by (auto simp: reading_def load_msg_id_def)

lemma stage_body:
  assumes r: "reading le 2 p ys" and f: "is_frame f"
  shows "ys = f @ zs \<Longrightarrow> \<exists>p'. load_msg_body le all_kept d p = Some (Some f, p') \<and> reading le 0 p' zs"
    and "strict_prefix ys f \<Longrightarrow> load_msg_body le all_kept d p = Some (None, p)"
proof -
  from r obtain xs where c: "socket_content (psocket p) = Some xs"
    and ys: "ys = mem32 le (network_ordered_msg_length p) @ [msg_id p] @ xs"
    by (auto simp: reading_def)
  let ?head = "mem32 le (network_ordered_msg_length p) @ [msg_id p]"
  let ?n = "unat (ntohl_util le (network_ordered_msg_length p))"
  have head: "f = ?head @ drop 5 f" and n: "?n = length f - 4" and valid: "is_valid_msg_id (msg_id p) = EXIT_SUCCESS"
    if pre: "take 5 f = ?head"
  proof -
    show h: "f = ?head @ drop 5 f" using append_take_drop_id [of 5 f] unfolding pre by simp
    have "take 4 f = mem32 le (network_ordered_msg_length p)" by (subst h) simp
    then show "?n = length f - 4" using f by (simp add: is_frame_def load_be32_mem32)
    have "f ! 4 = msg_id p" by (subst h) (simp add: nth_append)
    then show "is_valid_msg_id (msg_id p) = EXIT_SUCCESS" using f by (simp add: is_frame_def)
  qed
  have len: "5 \<le> length f" using f by (simp add: is_frame_def)
  show "\<exists>p'. load_msg_body le all_kept d p = Some (Some f, p') \<and> reading le 0 p' zs" if "ys = f @ zs"
  proof -
    have "take 5 f = take 5 ys" using that len by simp
    then have pre: "take 5 f = ?head" using ys by simp
    note hd = head [OF pre] and nn = n [OF pre] and v = valid [OF pre]
    have xs: "xs = drop 5 f @ zs"
    proof -
      have "?head @ xs = ?head @ (drop 5 f @ zs)" using ys that hd by (metis append.assoc)
      then show ?thesis by simp
    qed
    show ?thesis
    proof (cases "drop 5 f = []")
      case True
      then have "length f = 5" using len by simp
      with nn v c xs True show ?thesis
        by (simp add: load_msg_body_def all_kept_def Let_def reading_def) (use hd True in simp)
    next
      case False
      then have l: "0 < length f - 5" by simp
      from stream.read_enough [OF c, of "length f - 5"] xs obtain s' where
        s': "socket_read_n (psocket p) (length f - 5) = (int (length f - 5), drop 5 f, s')" "socket_content s' = Some zs"
        by auto
      have "load_msg_body le all_kept d p = Some (Some (?head @ drop 5 f),
          p\<lparr>psocket := s', network_ordered_msg_length := 0, network_ordered_msg_length_loaded := 0, msg_id := 0, msg_id_loaded := 0\<rparr>)"
        using v nn l s'(1) len by (simp add: load_msg_body_def all_kept_def Let_def read_bytes_all_kept)
      with hd s'(2) show ?thesis by (simp add: reading_def)
    qed
  qed
  show "load_msg_body le all_kept d p = Some (None, p)" if "strict_prefix ys f"
  proof -
    from that obtain u us where f': "f = ys @ u # us" by (auto elim: strict_prefixE')
    then have pre: "take 5 f = ?head" using ys by simp
    note nn = n [OF pre] and v = valid [OF pre]
    have "length xs < length f - 5" using f' ys by simp
    from stream.read_short [OF c this] this v nn len show ?thesis
      by (simp add: load_msg_body_def all_kept_def Let_def read_bytes_all_kept)
  qed
qed

lemma peer_read_message_frame:
  assumes r: "reading le k p (f @ zs)" and f: "is_frame f"
  shows "\<exists>p'. peer_read_message le all_kept d p = Some (Some f, p') \<and> reading le 0 p' zs"
proof -
  have len: "5 \<le> length (f @ zs)" using f by (simp add: is_frame_def)
  have two: "\<exists>p'. load_msg_body le all_kept d q = Some (Some f, p') \<and> reading le 0 p' zs" if "reading le 2 q (f @ zs)" for q
    using stage_body(1) [OF that f refl] .
  have one: "\<exists>p'. load_msg_id all_kept d (load_msg_body le all_kept d) q = Some (Some f, p') \<and> reading le 0 p' zs"
    if "reading le 1 q (f @ zs)" for q
    using stage_id(1) [OF that len, of d "load_msg_body le all_kept d"] two by force
  from r have "k = 0 \<or> k = 1 \<or> k = 2" by (auto simp: reading_def)
  then show ?thesis
  proof (elim disjE)
    assume "k = 0"
    with r len stage_length(1) [of le p "f @ zs" d "load_msg_id all_kept d (load_msg_body le all_kept d)"] obtain q where
      "peer_read_message le all_kept d p = load_msg_id all_kept d (load_msg_body le all_kept d) q" "reading le 1 q (f @ zs)"
      unfolding peer_read_message_def by auto
    with one [of q] show ?thesis by simp
  next
    assume "k = 1"
    with r one [of p] show ?thesis
      unfolding peer_read_message_def by (simp add: stage_length_skip [of le 1 p "f @ zs"])
  next
    assume "k = 2"
    with r two [of p] show ?thesis
      unfolding peer_read_message_def by (simp add: stage_length_skip [of le 2 p "f @ zs"] stage_id_skip [of le p "f @ zs"])
  qed
qed

lemma peer_read_message_partial:
  assumes r: "reading le k p ys" and f: "is_frame f" "strict_prefix ys f"
  shows "\<exists>k' p'. peer_read_message le all_kept d p = Some (None, p') \<and> reading le k' p' ys"
proof -
  have two: "\<exists>k' p'. load_msg_body le all_kept d q = Some (None, p') \<and> reading le k' p' ys" if "reading le 2 q ys" for q
    using stage_body(2) [OF that f] that by blast
  have one: "\<exists>k' p'. load_msg_id all_kept d (load_msg_body le all_kept d) q = Some (None, p') \<and> reading le k' p' ys"
    if "reading le 1 q ys" for q
  proof (cases "5 \<le> length ys")
    case True
    with stage_id(1) [OF that True, of d "load_msg_body le all_kept d"] two show ?thesis by force
  next
    case False
    with stage_id(2) [OF that, of d "load_msg_body le all_kept d"] that show ?thesis by auto
  qed
  from r have "k = 0 \<or> k = 1 \<or> k = 2" by (auto simp: reading_def)
  then show ?thesis
  proof (elim disjE)
    assume k: "k = 0"
    show ?thesis
    proof (cases "4 \<le> length ys")
      case True
      with k r stage_length(1) [of le p ys d "load_msg_id all_kept d (load_msg_body le all_kept d)"] obtain q where
        "peer_read_message le all_kept d p = load_msg_id all_kept d (load_msg_body le all_kept d) q" "reading le 1 q ys"
        unfolding peer_read_message_def by auto
      with one [of q] show ?thesis by simp
    next
      case False
      with k r stage_length(2) [of le p ys d "load_msg_id all_kept d (load_msg_body le all_kept d)"]
      show ?thesis unfolding peer_read_message_def by auto
    qed
  next
    assume "k = 1"
    with r one [of p] show ?thesis
      unfolding peer_read_message_def by (simp add: stage_length_skip [of le 1 p ys])
  next
    assume "k = 2"
    with r two [of p] show ?thesis
      unfolding peer_read_message_def by (simp add: stage_length_skip [of le 2 p ys] stage_id_skip [of le p ys])
  qed
qed

subsection \<open>A stream of messages\<close>

text \<open>Bytes arrive in pieces of any size (\<open>Arrive\<close>) while the peer asks for a message (\<open>ReadMsg\<close>); the
  messages it got are collected.\<close>

datatype msg_op = Arrive read_result int | ReadMsg

fun msg_arrivals :: "msg_op list \<Rightarrow> u8 list" where
  "msg_arrivals [] = []"
| "msg_arrivals (Arrive (ReadBytes bs) t # ops) = bs @ msg_arrivals ops"
| "msg_arrivals (_ # ops) = msg_arrivals ops"

primrec msg_run :: "bool \<Rightarrow> read_io \<Rightarrow> disconnect_io \<Rightarrow> msg_op list \<Rightarrow> peer \<Rightarrow> (u8 list list \<times> peer) option" where
  "msg_run le io d [] p = Some ([], p)"
| "msg_run le io d (x # ops) p = (case x of
      Arrive r t \<Rightarrow> do {
        (_, s) \<leftarrow> buffered_socket_network_read (psocket p) r True t;
        msg_run le io d ops (p\<lparr>psocket := s\<rparr>)
      }
    | ReadMsg \<Rightarrow> do {
        (m, p) \<leftarrow> peer_read_message le io d p;
        (ms, p) \<leftarrow> msg_run le io d ops p;
        Some (case m of None \<Rightarrow> ms | Some f \<Rightarrow> f # ms, p)
      })"

lemma msg_run_append:
  "msg_run le io d (xs @ ys) p = do {
     (ms, p) \<leftarrow> msg_run le io d xs p;
     (ns, p) \<leftarrow> msg_run le io d ys p;
     Some (ms @ ns, p) }"
proof (induction xs arbitrary: p)
  case (Cons x xs)
  then show ?case
    by (auto split: msg_op.splits option.splits bind_splits)
qed (auto split: bind_splits)

lemma reading_receive:
  assumes "reading le k p ys"
  shows "\<exists>r' s. buffered_socket_network_read (psocket p) r True t = Some (r', s)
    \<and> reading le k (p\<lparr>psocket := s\<rparr>) (ys @ (case r of ReadError \<Rightarrow> [] | ReadBytes bs \<Rightarrow> bs))"
proof -
  from assms obtain xs where xs: "socket_content (psocket p) = Some xs" by (auto simp: reading_def)
  from stream.receive_law [OF xs, of r t] obtain r' s where
    "buffered_socket_network_read (psocket p) r True t = Some (r', s)"
    "socket_content s = Some (xs @ (case r of ReadError \<Rightarrow> [] | ReadBytes bs \<Rightarrow> bs))"
    by (auto simp: socket_receive_def)
  with assms xs show ?thesis by (auto simp: reading_def)
qed

lemma frame_or_partial:
  assumes "zs @ us = concat fs @ rest" "\<forall>f \<in> set fs. is_frame f" "is_frame g" "strict_prefix rest g"
  obtains (frame) f fs' zs' where "fs = f # fs'" "zs = f @ zs'" "zs' @ us = concat fs' @ rest"
    | (partial) f where "is_frame f" "strict_prefix zs f"
proof (cases fs)
  case Nil
  with assms have "prefix zs rest" by (auto simp: prefix_def)
  with assms partial [of g] show ?thesis by (meson prefix_order.le_less_trans)
next
  case (Cons f fs')
  with assms(1) have e: "zs @ us = f @ (concat fs' @ rest)" by simp
  then consider (long) v where "zs = f @ v" "v @ us = concat fs' @ rest" | (short) v where "f = zs @ v" "v \<noteq> []"
    by (fastforce simp: append_eq_append_conv2)
  then show ?thesis
  proof cases
    case long
    with frame [of f fs' v] Cons show ?thesis by simp
  next
    case short
    then have "strict_prefix zs f" by (auto simp: strict_prefix_def)
    with partial [of f] assms(2) Cons show ?thesis by simp
  qed
qed

lemma msg_run_frames:
  assumes "reading le k p zs" "zs @ msg_arrivals ops = concat fs @ rest" "\<forall>f \<in> set fs. is_frame f"
    "is_frame g" "strict_prefix rest g"
  shows "\<exists>n k' p' zs'. msg_run le all_kept d ops p = Some (take n fs, p') \<and> n \<le> length fs
    \<and> reading le k' p' zs' \<and> zs' = concat (drop n fs) @ rest"
  using assms
proof (induction ops arbitrary: k p zs fs)
  case Nil
  then show ?case by (intro exI [of _ "0 :: nat"] exI [of _ k]) auto
next
  case (Cons x ops)
  show ?case
  proof (cases x)
    case (Arrive r t)
    from reading_receive [OF Cons.prems(1), of r t] obtain r' s where
      s: "buffered_socket_network_read (psocket p) r True t = Some (r', s)"
        "reading le k (p\<lparr>psocket := s\<rparr>) (zs @ (case r of ReadError \<Rightarrow> [] | ReadBytes bs \<Rightarrow> bs))" by blast
    have "(zs @ (case r of ReadError \<Rightarrow> [] | ReadBytes bs \<Rightarrow> bs)) @ msg_arrivals ops = concat fs @ rest"
      using Cons.prems(2) Arrive by (cases r) auto
    from Cons.IH [OF s(2) this Cons.prems(3-5)] s(1) Arrive show ?thesis by simp
  next
    case ReadMsg
    from Cons.prems(2) ReadMsg have e: "zs @ msg_arrivals ops = concat fs @ rest" by simp
    from e Cons.prems(3-5) show ?thesis
    proof (cases rule: frame_or_partial)
      case (frame f fs' zs')
      with Cons.prems(1,3) have f: "reading le k p (f @ zs')" "is_frame f" by auto
      from peer_read_message_frame [OF f, of d] obtain p1 where
        p1: "peer_read_message le all_kept d p = Some (Some f, p1)" "reading le 0 p1 zs'" by blast
      have fr: "\<forall>f \<in> set fs'. is_frame f" using Cons.prems(3) frame(1) by simp
      from Cons.IH [OF p1(2) frame(3) fr Cons.prems(4,5)] obtain n k' p' zs'' where
        "msg_run le all_kept d ops p1 = Some (take n fs', p')" "n \<le> length fs'" "reading le k' p' zs''"
        "zs'' = concat (drop n fs') @ rest" by blast
      with p1(1) frame(1) ReadMsg show ?thesis by (intro exI [of _ "Suc n"] exI [of _ k']) auto
    next
      case (partial f)
      from peer_read_message_partial [OF Cons.prems(1) partial, of d] obtain k1 p1 where
        p1: "peer_read_message le all_kept d p = Some (None, p1)" "reading le k1 p1 zs" by blast
      from Cons.IH [OF p1(2) e Cons.prems(3-5)] p1(1) ReadMsg show ?thesis by simp
    qed
  qed
qed

lemma msg_run_complete:
  assumes "reading le k p (concat fs @ rest)" "\<forall>f \<in> set fs. is_frame f" "is_frame g" "strict_prefix rest g" "length fs \<le> n"
  shows "\<exists>p'. msg_run le all_kept d (replicate n ReadMsg) p = Some (fs, p')"
  using assms
proof (induction n arbitrary: k p fs)
  case (Suc n)
  show ?case
  proof (cases fs)
    case Nil
    with peer_read_message_partial [OF _ Suc.prems(3,4), of le k p d] Suc.prems(1) obtain k1 p1 where
      p1: "peer_read_message le all_kept d p = Some (None, p1)" "reading le k1 p1 rest" by auto
    from Suc.IH [of k1 p1 "[]"] p1 Nil Suc.prems(3,4) show ?thesis by auto
  next
    case (Cons f fs')
    with Suc.prems have f: "reading le k p (f @ (concat fs' @ rest))" "is_frame f" by auto
    from peer_read_message_frame [OF f, of d] obtain p1 where
      p1: "peer_read_message le all_kept d p = Some (Some f, p1)" "reading le 0 p1 (concat fs' @ rest)" by blast
    from Suc.IH [OF p1(2)] Suc.prems(2-5) p1(1) Cons show ?thesis by auto
  qed
qed simp

text \<open>C4: Messages are reassembled. Let a peer stand at the start of a message, and let the bytes that have
  arrived and will arrive be complete messages, each with a length of at least 1 and one of the ids the
  program knows, followed by less than such a message. Then, however the network cuts these bytes into pieces and
  whenever the peer tries to read, and as long as the reads get their memory, the calls of \<open>peer_read_message\<close> return
  exactly these messages, in order, once as many further calls have been made as there are messages. Streams with a
  keep-alive, whose length is 0, are excluded, since it blocks the stream, and so are unknown ids, at
  which the peer is disconnected.\<close>

theorem peer_messages_reassembled:
  assumes start: "socket_content (psocket p) = Some xs" "network_ordered_msg_length_loaded p = 0" "msg_id_loaded p = 0"
    and bytes: "xs @ msg_arrivals ops = concat fs @ rest" "\<forall>f \<in> set fs. is_frame f" "is_frame g" "strict_prefix rest g"
  shows "\<exists>p'. msg_run le all_kept d (ops @ replicate (length fs) ReadMsg) p = Some (fs, p')"
proof -
  from start have "reading le 0 p xs" by (simp add: reading_def)
  from msg_run_frames [OF this bytes] obtain n k' p1 where
    run: "msg_run le all_kept d ops p = Some (take n fs, p1)" "n \<le> length fs"
      "reading le k' p1 (concat (drop n fs) @ rest)" by blast
  from msg_run_complete [OF run(3) _ bytes(3,4), of "length fs"] bytes(2) obtain p2 where
    "msg_run le all_kept d (replicate (length fs) ReadMsg) p1 = Some (drop n fs, p2)"
    by (auto dest: in_set_dropD)
  with run(1) show ?thesis by (simp add: msg_run_append)
qed

definition demo_peer :: peer where
  "demo_peer = \<lparr>sin_port = 0, s_addr = 0, str_ip = [], port = 0, psocket = Some demo_socket,
     ut_metadata = 0, ut_metadata_requested = None, ut_metadata_size = 0, running = 1, am_choking = 1,
     am_interested = 0, peer_choking = 1, peer_interested = 0, peer_bitfield = None,
     progress_queue = \<lparr>nodes = Map.empty, count = 0, head = None, tail = None\<rparr>,
     peer_state = PEER_HANDSHAKE_COMPLETE, reconnect_deadline = 0, network_ordered_msg_length = 0,
     network_ordered_msg_length_loaded = 0, msg_id = 0, msg_id_loaded = 0, uploader = 0,
     msg_bitfield_sent = 0, pending_request_count = 0\<rparr>"

definition demo_disconnect :: disconnect_io where
  "demo_disconnect = \<lparr>free_steps = 9, reset_now = 0, deadline_now = 0\<rparr>"

theorem peer_messages_reassembled_witness:
  "\<exists>p'. msg_run True all_kept demo_disconnect
     ([ReadMsg, Arrive (ReadBytes [0, 0, 0]) 1, ReadMsg, Arrive (ReadBytes [1, 1, 0, 0, 0, 5, 4, 0]) 2, ReadMsg,
       Arrive (ReadBytes [0, 0, 9, 0, 0]) 3] @ replicate 2 ReadMsg) demo_peer
     = Some ([[0, 0, 0, 1, 1], [0, 0, 0, 5, 4, 0, 0, 0, 9]], p')"
proof -
  have frames: "is_frame [0, 0, 0, 1, 1]" "is_frame [0, 0, 0, 5, 4, 0, 0, 0, 9]" by code_simp+
  have "strict_prefix [0, 0] [0, 0, 0, 1, 1 :: u8]" by (simp add: strict_prefix_def)
  moreover have "socket_content (psocket demo_peer) = Some []" "network_ordered_msg_length_loaded demo_peer = 0"
    "msg_id_loaded demo_peer = 0"
    by (simp_all add: demo_peer_def demo_socket_def socket_content_def)
  ultimately have "\<exists>p'. msg_run True all_kept demo_disconnect
     ([ReadMsg, Arrive (ReadBytes [0, 0, 0]) 1, ReadMsg, Arrive (ReadBytes [1, 1, 0, 0, 0, 5, 4, 0]) 2, ReadMsg,
       Arrive (ReadBytes [0, 0, 9, 0, 0]) 3] @ replicate (length [[0, 0, 0, 1, 1], [0, 0, 0, 5, 4, 0, 0, 0, 9 :: u8]]) ReadMsg)
     demo_peer = Some ([[0, 0, 0, 1, 1], [0, 0, 0, 5, 4, 0, 0, 0, 9]], p')"
    using frames by (intro peer_messages_reassembled [where xs = "[]" and rest = "[0, 0]" and g = "[0, 0, 0, 1, 1]"]) auto
  then show ?thesis by (simp add: numeral_2_eq_2)
qed

subsection \<open>Keep-alives\<close>

lemma peer_read_message_stuck:
  assumes "network_ordered_msg_length_loaded p = 1" "network_ordered_msg_length p = 0" "msg_id_loaded p = 1"
    "is_valid_msg_id (msg_id p) = EXIT_SUCCESS"
  shows "peer_read_message le io d p = Some (None, p)"
  using assms
  by (simp add: peer_read_message_def load_msg_length_def load_msg_id_def load_msg_body_def ntohl_util_def
      libc_ntohl_def bswap32_def)

lemma msg_run_stuck:
  assumes "network_ordered_msg_length_loaded p = 1" "network_ordered_msg_length p = 0" "msg_id_loaded p = 1"
    "is_valid_msg_id (msg_id p) = EXIT_SUCCESS" "socket_content (psocket p) = Some xs"
  shows "\<exists>p'. msg_run le io d ops p = Some ([], p') \<and> socket_content (psocket p') = Some (xs @ msg_arrivals ops)"
  using assms
proof (induction ops arbitrary: p xs)
  case (Cons x ops)
  show ?case
  proof (cases x)
    case (Arrive r t)
    from stream.receive_law [OF Cons.prems(5), of r t] obtain r' s where
      s: "buffered_socket_network_read (psocket p) r True t = Some (r', s)"
        "socket_content s = Some (xs @ (case r of ReadError \<Rightarrow> [] | ReadBytes bs \<Rightarrow> bs))"
      by (auto simp: socket_receive_def)
    have "\<exists>p'. msg_run le io d ops (p\<lparr>psocket := s\<rparr>) = Some ([], p')
        \<and> socket_content (psocket p') = Some ((xs @ (case r of ReadError \<Rightarrow> [] | ReadBytes bs \<Rightarrow> bs)) @ msg_arrivals ops)"
      by (rule Cons.IH) (use Cons.prems s(2) in auto)
    with s(1) Arrive show ?thesis by (cases r) auto
  next
    case ReadMsg
    with Cons.IH [OF Cons.prems] peer_read_message_stuck [OF Cons.prems(1-4)] show ?thesis by simp
  qed
qed simp

text \<open>C30: A keep-alive blocks the connection: when a message of length zero arrives, the next byte of
  the stream is taken for its message id, and if that is a valid id (as the leading zero of the next
  length is) no message is ever returned again: everything that arrives later stays in the buffer.\<close>

theorem keepalive_blocks_stream:
  assumes start: "socket_content (psocket p) = Some (be32 0 @ i # xs)"
      "network_ordered_msg_length_loaded p = 0" "msg_id_loaded p = 0"
    and i: "is_valid_msg_id i = EXIT_SUCCESS"
  shows "\<exists>p'. msg_run le all_kept d (ReadMsg # ops) p = Some ([], p')
    \<and> socket_content (psocket p') = Some (xs @ msg_arrivals ops)"
proof -
  let ?ys = "be32 0 @ i # xs"
  from start have r: "reading le 0 p ?ys" by (simp add: reading_def)
  from stage_length(1) [OF r, of d "load_msg_id all_kept d (load_msg_body le all_kept d)"] obtain p1 where
    p1: "peer_read_message le all_kept d p = load_msg_id all_kept d (load_msg_body le all_kept d) p1" "reading le 1 p1 ?ys"
    by (auto simp: peer_read_message_def)
  from stage_id(1) [OF p1(2), of d "load_msg_body le all_kept d"] obtain p2 where
    p2: "peer_read_message le all_kept d p = load_msg_body le all_kept d p2" "reading le 2 p2 ?ys" using p1(1) by auto
  from p2(2) obtain zs where z: "socket_content (psocket p2) = Some zs"
    "be32 0 @ i # xs = mem32 le (network_ordered_msg_length p2) @ [msg_id p2] @ zs"
    "network_ordered_msg_length_loaded p2 = 1" "msg_id_loaded p2 = 1"
    by (auto simp: reading_def)
  then have m: "mem32 le (network_ordered_msg_length p2) = be32 0" "msg_id p2 = i" "zs = xs"
    by (auto simp: append_eq_append_conv)
  from m(1) have "network_ordered_msg_length p2 = 0" by (simp add: mem32_zero)
  with p2(1) m z i have stuck: "peer_read_message le all_kept d p = Some (None, p2)"
    by (simp add: load_msg_body_def ntohl_util_def libc_ntohl_def bswap32_def)
  from msg_run_stuck [of p2 xs le all_kept d ops] \<open>network_ordered_msg_length p2 = 0\<close> z m i stuck show ?thesis
    by auto
qed

theorem keepalive_blocks_stream_witness:
  "\<exists>p'. msg_run True all_kept demo_disconnect [ReadMsg, Arrive (ReadBytes [0, 0, 1, 1]) 1, ReadMsg]
     (demo_peer\<lparr>psocket := Some (demo_socket\<lparr>read_buffer := [0, 0, 0, 0, 0], read_buffer_size := 5\<rparr>)\<rparr>) = Some ([], p')
     \<and> socket_content (psocket p') = Some [0, 0, 1, 1]"
  using keepalive_blocks_stream [of "demo_peer\<lparr>psocket := Some (demo_socket\<lparr>read_buffer := [0, 0, 0, 0, 0], read_buffer_size := 5\<rparr>)\<rparr>"
      0 "[]" True demo_disconnect "[Arrive (ReadBytes [0, 0, 1, 1]) 1, ReadMsg]"]
  by (simp add: demo_peer_def demo_socket_def socket_content_def be32_def is_valid_msg_id_def VALID_MSG_IDS_def)

end
