(* ===== verification/Uvg_PeerRun.thy ===== *)
theory Uvg_PeerRun
  imports Uvg_PeerMessages "HOL-Library.Signed_Division"
begin

text \<open>
  The metadata extension (\<^verbatim>\<open>src/src/peer/peer_ut_metadata.c\<close>) and the job that runs a peer
  (\<open>peer_run\<close> in \<^verbatim>\<open>peer.c\<close>). The job works on the peer and on what it shares with the torrent: the
  two \<open>TorrentData\<close>, the disk and the two queues. One record holds what the system decides during one
  run.
\<close>

subsection \<open>ut_metadata\<close>

abbreviation keystr :: "string \<Rightarrow> u8 list" where "keystr s \<equiv> cstring (text_bytes s)"

definition peer_supports_ut_metadata :: "peer \<Rightarrow> bool" where
  "peer_supports_ut_metadata p \<longleftrightarrow> ut_metadata p > 0 \<and> peer_state p = PEER_HANDSHAKE_COMPLETE"

definition peer_handle_ut_metadata_handshake ::
  "bool \<Rightarrow> outcomes \<Rightarrow> u8 list \<Rightarrow> peer \<Rightarrow> (status \<times> peer) option" where
  "peer_handle_ut_metadata_handshake le ok m p = do {
     _ \<leftarrow> get_msg_id m;
     buffer_size \<leftarrow> get_msg_buffer_size le m;
     (r, _, _) \<leftarrow> be_decode ok (drop 6 m) (size_sub buffer_size 6) new_heap;
     case r of
       Inl _ \<Rightarrow> Some (EXIT_FAILURE, p)
     | Inr d \<Rightarrow> do {
         (md, _) \<leftarrow> be_dict_lookup d (keystr ''m'');
         case md of
           None \<Rightarrow> Some (EXIT_FAILURE, p)
         | Some md \<Rightarrow> do {
             i \<leftarrow> be_dict_lookup_num md (keystr ''ut_metadata'');
             n \<leftarrow> be_dict_lookup_num d (keystr ''metadata_size'');
             Some (EXIT_SUCCESS, p\<lparr>ut_metadata := int32_of i, ut_metadata_size := int32_of n\<rparr>)
           }
       }
   }"

text \<open>A dictionary of numbers, as the three messages of the extension have it.\<close>

primrec num_dict :: "outcomes \<Rightarrow> (string \<times> int) list \<Rightarrow> be_node option \<Rightarrow> heap \<Rightarrow> (be_node option \<times> heap) option" where
  "num_dict ok [] d h = Some (d, h)"
| "num_dict ok (kv # kvs) d h = do {
     (_, d, h) \<leftarrow> be_dict_add_num ok d (keystr (fst kv)) (snd kv) h;
     num_dict ok kvs d h
   }"

definition new_num_dict :: "outcomes \<Rightarrow> (string \<times> int) list \<Rightarrow> be_node option option" where
  "new_num_dict ok kvs = (case be_alloc ok TDICT new_heap of (d, h) \<Rightarrow> map_option fst (num_dict ok kvs d h))"

record metadata_io =
  meta_ok :: outcomes
  meta_fuel :: nat
  meta_env :: disk_env
  meta_malloc :: bool
  meta_write :: write_io

text \<open>Answering a request for metadata: the dictionary and the chunk behind it in one buffer of 65535
  bytes.\<close>

definition peer_handle_ut_metadata_request ::
  "bool \<Rightarrow> metadata_io \<Rightarrow> nat \<Rightarrow> torrent_data \<Rightarrow> disk \<Rightarrow> peer \<Rightarrow> (status \<times> peer) option" where
  "peer_handle_ut_metadata_request le io cid td disk p =
     (if torrent_data_is_complete td = 1 then do {
        (_, ci) \<leftarrow> torrent_data_get_chunk_info td (int32_of (int cid));
        ci \<leftarrow> ci;
        d \<leftarrow> new_num_dict (meta_ok io)
          [(''msg_type'', 1), (''piece'', int64_of (int cid)), (''total_size'', int32_of (int (torrent_data.data_size td)))];
        d \<leftarrow> d;
        (r, out) \<leftarrow> be_encode d (Some (replicate 65535 0)) 0 65535;
        buffer \<leftarrow> out;
        if r < 0 then None
        else do {
          (_, got) \<leftarrow> torrent_data_read_data (meta_fuel io) (meta_env io) td disk (chunk_offset ci) (info_chunk_size ci);
          buffer \<leftarrow> memcpy_at buffer (nat r) got;
          let msg_size = nat r + info_chunk_size ci;
          if \<not> meta_malloc io \<or> 65535 < msg_size then None
          else do {
            (taken, p) \<leftarrow> peer_write (meta_write io) (extension_msg le (of_int (ut_metadata p)) (take msg_size buffer)) p;
            Some (if taken then EXIT_SUCCESS else EXIT_FAILURE, p)
          }
        }
      }
      else Some (EXIT_SUCCESS, p))"

definition peer_handle_ut_metadata_data :: "addr option \<Rightarrow> u8 list \<Rightarrow> u8 list queue \<Rightarrow> u8 list queue option" where
  "peer_handle_ut_metadata_data node m metadata_queue = map_option snd (queue_push metadata_queue node m)"

definition peer_handle_ut_metadata_reject :: "peer \<Rightarrow> peer" where
  "peer_handle_ut_metadata_reject p = p\<lparr>ut_metadata := 0\<rparr>"

definition peer_should_send_ut_metadata_request :: "torrent_data \<Rightarrow> peer \<Rightarrow> bool" where
  "peer_should_send_ut_metadata_request td p \<longleftrightarrow>
     needed td = 1 \<and> peer_supports_ut_metadata p \<and> peer_state p = PEER_HANDSHAKE_COMPLETE"

record metadata_request_io =
  req_malloc :: bool
  file_malloc :: bool
  file_strndup :: bool
  size_malloc1 :: bool
  size_malloc2 :: bool
  size_malloc3 :: bool
  chunk_clock :: "nat \<Rightarrow> int"
  req_ok :: outcomes
  send_malloc :: bool
  send_write :: write_io

text \<open>The bitfield of the metadata chunks not yet requested from this peer.\<close>

definition requested_bitfield :: "metadata_request_io \<Rightarrow> peer \<Rightarrow> bitfield option option" where
  "requested_bitfield io p = (case ut_metadata_requested p of
      Some b \<Rightarrow> Some (Some b)
    | None \<Rightarrow>
        let n = ut_metadata_size p + (int METADATA_CHUNK_SIZE - 1) in
        if int32_of n \<noteq> n then None
        else bitfield_new (req_malloc io) (size_t_of (int32_of (n sdiv int METADATA_CHUNK_SIZE))) 1 0xFF)"

definition init_metadata :: "metadata_request_io \<Rightarrow> peer \<Rightarrow> torrent_data \<Rightarrow> torrent_data option" where
  "init_metadata io p td =
     (if initialized td = 0 then do {
        let td = torrent_data_set_chunk_size (torrent_data_set_piece_size td METADATA_PIECE_SIZE) METADATA_CHUNK_SIZE;
        (_, td) \<leftarrow> torrent_data_add_file (file_malloc io) (file_strndup io) td ''/metadata.bencode'' (size_t_of (ut_metadata_size p));
        (_, td) \<leftarrow> torrent_data_set_data_size (size_malloc1 io) (size_malloc2 io) (size_malloc3 io) td (size_t_of (ut_metadata_size p));
        Some td
      }
      else Some td)"

definition peer_send_ut_metadata_request ::
  "bool \<Rightarrow> metadata_request_io \<Rightarrow> torrent_data \<Rightarrow> peer \<Rightarrow> (status \<times> peer \<times> torrent_data) option" where
  "peer_send_ut_metadata_request le io td p = do {
     req \<leftarrow> requested_bitfield io p;
     let p = p\<lparr>ut_metadata_requested := req\<rparr>;
     td \<leftarrow> init_metadata io p td;
     (r, td, cids) \<leftarrow>
       (if initialized td = 1 then Option.bind req (\<lambda>b. torrent_data_claim_chunk True (chunk_clock io) td b 0 1 [0])
        else Some (EXIT_FAILURE, td, [0]));
     if r \<noteq> EXIT_SUCCESS then Some (EXIT_FAILURE, p, td)
     else do {
       b \<leftarrow> req;
       b \<leftarrow> bitfield_set_bit b (cids ! 0) 0;
       let p = p\<lparr>ut_metadata_requested := Some b\<rparr>;
       d \<leftarrow> new_num_dict (req_ok io) [(''msg_type'', 0), (''piece'', cids ! 0)];
       msg \<leftarrow> encode_1000 d;
       if \<not> send_malloc io then None
       else do {
         (taken, p) \<leftarrow> peer_write (send_write io) (extension_msg le (of_int (ut_metadata p)) msg) p;
         Some (if taken then EXIT_SUCCESS else EXIT_FAILURE, p, td)
       }
     }
   }"

subsection \<open>What a peer shares with the torrent\<close>

record shared =
  metadata :: torrent_data
  content :: torrent_data
  sdisk :: disk
  metadata_queue :: "u8 list queue"
  data_queue :: "u8 list queue"

definition peer_handle_msg_extension ::
  "bool \<Rightarrow> outcomes \<Rightarrow> metadata_io \<Rightarrow> addr option \<Rightarrow> disconnect_io \<Rightarrow> u8 list \<Rightarrow> shared \<Rightarrow> peer
    \<Rightarrow> (status \<times> peer \<times> shared) option" where
  "peer_handle_msg_extension le ok io node d m sh p = do {
     _ \<leftarrow> get_msg_id m;
     buffer_size \<leftarrow> get_msg_buffer_size le m;
     ext \<leftarrow> byte_at m 5;
     if ext = 0 then do {
       (r, p) \<leftarrow> peer_handle_ut_metadata_handshake le ok m p;
       if r = EXIT_FAILURE then map_option (\<lambda>p. (EXIT_FAILURE, p, sh)) (peer_disconnect d p)
       else Some (EXIT_SUCCESS, p, sh)
     }
     else if uint ext = UT_METADATA_ID then do {
       (r, _, _) \<leftarrow> be_decode ok (drop 6 m) (size_sub buffer_size 6) new_heap;
       case r of
         Inl _ \<Rightarrow> map_option (\<lambda>p. (EXIT_FAILURE, p, sh)) (peer_disconnect d p)
       | Inr x \<Rightarrow> do {
           msg_type \<leftarrow> be_dict_lookup_num x (keystr ''msg_type'');
           cid \<leftarrow> be_dict_lookup_num x (keystr ''piece'');
           if msg_type = 0 then
             map_option (\<lambda>(_, p). (EXIT_SUCCESS, p, sh))
               (peer_handle_ut_metadata_request le io (size_t_of cid) (metadata sh) (sdisk sh) p)
           else if msg_type = 1 then
             map_option (\<lambda>q. (EXIT_SUCCESS, p, sh\<lparr>metadata_queue := q\<rparr>))
               (peer_handle_ut_metadata_data node m (metadata_queue sh))
           else if msg_type = 2 then Some (EXIT_SUCCESS, peer_handle_ut_metadata_reject p, sh)
           else Some (EXIT_SUCCESS, p, sh)
         }
     }
     else Some (EXIT_SUCCESS, p, sh)
   }"

subsection \<open>The job\<close>

record run_io =
  connect_time :: int
  connect_calls_io :: connect_io
  connect_disconnect :: disconnect_io
  network1 :: network_io
  network1_act :: network_io
  network1_disconnect :: disconnect_io
  handshake_pollout :: bool
  handshake_write :: write_io
  handshake_disconnect :: disconnect_io
  hs_read_ok :: bool
  hs_ok :: outcomes
  hs_malloc :: bool
  hs_write :: write_io
  hs_disconnect :: disconnect_io
  have_writes :: "write_io list"
  have_interest :: write_io
  bits_malloc1 :: bool
  bits_malloc2 :: bool
  bits_malloc3 :: bool
  bits_write :: write_io
  metadata_request :: metadata_request_io
  requests :: request_io
  choke_write :: write_io
  msg_read :: read_io
  msg_disconnect :: disconnect_io
  handle_malloc :: bool
  handle_write :: write_io
  handle_answer :: answer_io
  handle_node :: "addr option"
  handle_ok :: outcomes
  handle_metadata :: metadata_io
  handle_disconnect :: disconnect_io
  keepalive_time :: int
  keepalive_write :: write_io
  timeout_time :: int
  timeout_disconnect :: disconnect_io
  network2 :: network_io
  network2_act :: network_io
  network2_disconnect :: disconnect_io

text \<open>A step of the job returns whether the job goes on (\<open>False\<close>: \<open>goto error\<close>), the new state, and
  the bytes handed to the network.\<close>

type_synonym run_state = "peer \<times> shared \<times> u8 list"
type_synonym run_step = "run_state \<Rightarrow> (bool \<times> run_state) option"

definition run_connect :: "run_io \<Rightarrow> run_step" where
  "run_connect io = (\<lambda>(p, sh, out).
     if peer_should_connect (connect_time io) p then do {
       (r, p) \<leftarrow> peer_connect (connect_calls_io io) p;
       if r = EXIT_FAILURE then map_option (\<lambda>p. (False, p, sh, out)) (peer_disconnect (connect_disconnect io) p)
       else Some (True, p, sh, out)
     }
     else Some (True, p, sh, out))"

definition run_network :: "network_io \<Rightarrow> network_io \<Rightarrow> disconnect_io \<Rightarrow> run_step" where
  "run_network test act d = (\<lambda>(p, sh, out).
     if peer_should_handle_network_buffers test p then do {
       (r, p, sent) \<leftarrow> peer_handle_network_buffers act d p;
       Some (r \<noteq> EXIT_FAILURE, p, sh, out @ sent)
     }
     else Some (True, p, sh, out))"

definition run_send_handshake :: "run_io \<Rightarrow> u8 list \<Rightarrow> run_step" where
  "run_send_handshake io info_hash = (\<lambda>(p, sh, out).
     if peer_should_send_handshake (handshake_pollout io) p then do {
       (r, p) \<leftarrow> peer_send_handshake (handshake_write io) info_hash p;
       if r = EXIT_FAILURE then map_option (\<lambda>p. (False, p, sh, out)) (peer_disconnect (handshake_disconnect io) p)
       else Some (True, p, sh, out)
     }
     else Some (True, p, sh, out))"

definition run_handle_handshake :: "bool \<Rightarrow> run_io \<Rightarrow> u8 list \<Rightarrow> run_step" where
  "run_handle_handshake le io info_hash = (\<lambda>(p, sh, out).
     if peer_should_handle_handshake p then do {
       (r, p) \<leftarrow> peer_handle_handshake le (hs_read_ok io) (hs_ok io) (hs_malloc io) (hs_write io) info_hash
         (torrent_data.data_size (metadata sh)) p;
       if r = EXIT_FAILURE then map_option (\<lambda>p. (False, p, sh, out)) (peer_disconnect (hs_disconnect io) p)
       else Some (True, p, sh, out)
     }
     else Some (True, p, sh, out))"

text \<open>The messages the peer sends on its own; their results are ignored.\<close>

definition run_send_have :: "bool \<Rightarrow> run_io \<Rightarrow> run_step" where
  "run_send_have le io = (\<lambda>(p, sh, out).
     if peer_should_send_msg_have p
     then map_option (\<lambda>(_, p). (True, p, sh, out))
       (peer_send_msg_have le (have_writes io) (have_interest io) (content sh) p)
     else Some (True, p, sh, out))"

definition run_send_bitfield :: "bool \<Rightarrow> run_io \<Rightarrow> run_step" where
  "run_send_bitfield le io = (\<lambda>(p, sh, out).
     if peer_should_send_msg_bitfield (content sh) p
     then map_option (\<lambda>(_, p). (True, p, sh, out))
       (peer_send_msg_bitfield le (bits_malloc1 io) (bits_malloc2 io) (bits_malloc3 io) (bits_write io) (content sh) p)
     else Some (True, p, sh, out))"

definition run_metadata_request :: "bool \<Rightarrow> run_io \<Rightarrow> run_step" where
  "run_metadata_request le io = (\<lambda>(p, sh, out).
     if peer_should_send_ut_metadata_request (metadata sh) p
     then map_option (\<lambda>(_, p, td). (True, p, sh\<lparr>metadata := td\<rparr>, out))
       (peer_send_ut_metadata_request le (metadata_request io) (metadata sh) p)
     else Some (True, p, sh, out))"

definition run_request :: "bool \<Rightarrow> run_io \<Rightarrow> run_step" where
  "run_request le io = (\<lambda>(p, sh, out).
     if peer_should_send_msg_request (content sh) p
     then map_option (\<lambda>(_, p, td). (True, p, sh\<lparr>content := td\<rparr>, out))
       (peer_send_msg_request le (requests io) (content sh) p)
     else Some (True, p, sh, out))"

definition run_choke :: "bool \<Rightarrow> run_io \<Rightarrow> run_step" where
  "run_choke le io = (\<lambda>(p, sh, out).
     if peer_state p = PEER_HANDSHAKE_COMPLETE \<and> uploader p = 1 \<and> am_choking p = 1
     then map_option (\<lambda>(_, p). (True, p, sh, out)) (peer_send_msg_unchoke le (choke_write io) p)
     else if peer_state p = PEER_HANDSHAKE_COMPLETE \<and> uploader p = 0 \<and> am_choking p = 0
     then map_option (\<lambda>(_, p). (True, p, sh, out)) (peer_send_msg_choke le (choke_write io) p)
     else Some (True, p, sh, out))"

text \<open>The dispatch on the message id.\<close>

definition dispatch_message :: "bool \<Rightarrow> run_io \<Rightarrow> u8 list \<Rightarrow> shared \<Rightarrow> peer \<Rightarrow> (peer \<times> shared) option" where
  "dispatch_message le io m sh p = do {
     _ \<leftarrow> get_msg_length le m;
     i \<leftarrow> get_msg_id m;
     if i = 0 then Some (peer_handle_msg_choke p, sh)
     else if i = 1 then Some (peer_handle_msg_unchoke p, sh)
     else if i = 2 then Some (peer_handle_msg_interested p, sh)
     else if i = 3 then Some (peer_handle_msg_not_interested p, sh)
     else if i = 4 then
       map_option (\<lambda>p. (p, sh)) (peer_handle_msg_have le (handle_malloc io) (handle_write io) m (content sh) p)
     else if i = 5 then
       map_option (\<lambda>(_, p). (p, sh)) (peer_handle_msg_bitfield le (handle_malloc io) (handle_write io) m (content sh) p)
     else if i = 6 then
       map_option (\<lambda>(_, p). (p, sh)) (peer_handle_msg_request le (handle_answer io) m (content sh) (sdisk sh) p)
     else if i = 7 then
       map_option (\<lambda>(p, q). (p, sh\<lparr>data_queue := q\<rparr>)) (peer_handle_msg_piece (handle_node io) m (data_queue sh) p)
     else if i = 8 then Some (peer_handle_msg_cancel p, sh)
     else if i = 9 then Some (peer_handle_msg_port p, sh)
     else if i = 20 then
       map_option (\<lambda>(_, p, sh). (p, sh))
         (peer_handle_msg_extension le (handle_ok io) (handle_metadata io) (handle_node io) (handle_disconnect io) m sh p)
     else Some (p, sh)
   }"

definition run_read_message :: "bool \<Rightarrow> run_io \<Rightarrow> run_step" where
  "run_read_message le io = (\<lambda>(p, sh, out).
     if peer_should_read_message p then do {
       (m, p) \<leftarrow> peer_read_message le (msg_read io) (msg_disconnect io) p;
       case m of
         None \<Rightarrow> Some (True, p, sh, out)
       | Some m \<Rightarrow> map_option (\<lambda>(p, sh). (True, p, sh, out)) (dispatch_message le io m sh p)
     }
     else Some (True, p, sh, out))"

definition run_keepalive :: "bool \<Rightarrow> run_io \<Rightarrow> run_step" where
  "run_keepalive le io = (\<lambda>(p, sh, out).
     if peer_should_send_keepalive (keepalive_time io) p
     then map_option (\<lambda>(_, p). (True, p, sh, out)) (peer_send_keepalive le (keepalive_write io) p)
     else Some (True, p, sh, out))"

definition run_timeout :: "run_io \<Rightarrow> run_step" where
  "run_timeout io = (\<lambda>(p, sh, out).
     if peer_should_timeout (timeout_time io) p
     then map_option (\<lambda>p. (True, p, sh, out)) (peer_disconnect (timeout_disconnect io) p)
     else Some (True, p, sh, out))"

primrec run_steps :: "run_step list \<Rightarrow> run_step" where
  "run_steps [] st = Some (True, st)"
| "run_steps (f # fs) st = do {
     (go, st) \<leftarrow> f st;
     if go then run_steps fs st else Some (False, st)
   }"

definition peer_run_steps :: "bool \<Rightarrow> run_io \<Rightarrow> u8 list \<Rightarrow> run_step list" where
  "peer_run_steps le io info_hash =
     [run_connect io,
      run_network (network1 io) (network1_act io) (network1_disconnect io),
      run_send_handshake io info_hash,
      run_handle_handshake le io info_hash,
      run_send_have le io,
      run_send_bitfield le io,
      run_metadata_request le io,
      run_request le io,
      run_choke le io,
      run_read_message le io,
      run_keepalive le io,
      run_timeout io,
      run_network (network2 io) (network2_act io) (network2_disconnect io)]"

definition peer_run ::
  "bool \<Rightarrow> run_io \<Rightarrow> u8 list \<Rightarrow> shared \<Rightarrow> peer \<Rightarrow> (status \<times> peer \<times> shared \<times> u8 list) option" where
  "peer_run le io info_hash sh p = do {
     (ok, p, sh, out) \<leftarrow> run_steps (peer_run_steps le io info_hash) (p, sh, []);
     Some (if ok then EXIT_SUCCESS else EXIT_FAILURE, p\<lparr>running := 0\<rparr>, sh, out)
   }"

end
