(* ===== verification/Uvg_PeerInvariant.thy ===== *)
theory Uvg_PeerInvariant
  imports Uvg_PeerRun Uvg_PeerFraming
begin

text \<open>
  The invariant of a peer: it has a socket exactly when it is not unconnected, at most ten requests
  are pending, its flags are flags, and it is interested only in a peer whose bitfield it knows (so
  that the bitfield is there when requests are built). Every operation keeps it, and so does a whole
  run of the job, when it returns.
\<close>

named_theorems keeps \<open>operations that keep the invariant of a peer\<close>

definition flag :: "int \<Rightarrow> bool" where
  "flag i \<longleftrightarrow> i = 0 \<or> i = 1"

definition peer_ok :: "peer \<Rightarrow> bool" where
  "peer_ok p \<longleftrightarrow> (psocket p = None \<longleftrightarrow> peer_state p = PEER_UNCONNECTED)
     \<and> pending_request_count p \<le> 10
     \<and> flag (am_choking p) \<and> flag (am_interested p) \<and> flag (peer_choking p) \<and> flag (peer_interested p)
     \<and> flag (network_ordered_msg_length_loaded p) \<and> flag (msg_id_loaded p) \<and> flag (msg_bitfield_sent p)
     \<and> (am_interested p = 1 \<longrightarrow> peer_bitfield p \<noteq> None)"

lemma flag_simps [simp]: "flag 0" "flag 1"
  by (simp_all add: flag_def)

lemma peer_ok_socket: "peer_ok p \<Longrightarrow> (s = None \<longleftrightarrow> psocket p = None) \<Longrightarrow> peer_ok (p\<lparr>psocket := s\<rparr>)"
  by (simp add: peer_ok_def)

subsection \<open>Sockets stay\<close>

lemma write_keeps_socket:
  "buffered_socket_write s a ok m = Some (r, s') \<Longrightarrow> s' = None \<longleftrightarrow> s = None"
  by (auto simp: buffered_socket_write_def Let_def in_set_bind_option split: option.splits if_splits)

lemma read_keeps_socket: "buffered_socket_read s ok n = (r, bs, s') \<Longrightarrow> s' = None \<longleftrightarrow> s = None"
  by (auto simp: buffered_socket_read_def Let_def split: option.splits if_splits)

lemma network_write_keeps_socket:
  "buffered_socket_network_write s rs now = Some (r, s', out) \<Longrightarrow> s' = None \<longleftrightarrow> s = None"
  by (auto simp: buffered_socket_network_write_def split: option.splits if_splits loop_exit.splits)

lemma network_read_keeps_socket:
  "buffered_socket_network_read s rr ok now = Some (r, s') \<Longrightarrow> s' = None \<longleftrightarrow> s = None"
  by (auto simp: buffered_socket_network_read_def Let_def split: option.splits if_splits read_result.splits)

lemma free_gives_null: "buffered_socket_free k s = Some (as, s') \<Longrightarrow> s' = None"
  by (auto simp: buffered_socket_free_def split: option.splits)

lemma peer_writeD:
  assumes "peer_write w m p = Some (taken, p')"
  obtains s where "p' = p\<lparr>psocket := s\<rparr>" "s = None \<longleftrightarrow> psocket p = None"
  using assms write_keeps_socket by (fastforce simp: peer_write_def)

lemma peer_write_ok [keeps]: "peer_write w m p = Some (taken, p') \<Longrightarrow> peer_ok p \<Longrightarrow> peer_ok p'"
  by (auto elim!: peer_writeD intro: peer_ok_socket)

lemma peer_write_pending: "peer_write w m p = Some (taken, p') \<Longrightarrow> pending_request_count p' = pending_request_count p"
  by (auto elim!: peer_writeD)

subsection \<open>Connecting, the handshake and the buffers\<close>

lemma peer_disconnect_ok [keeps]:
  assumes "peer_disconnect d p = Some p'" "peer_ok p"
  shows "peer_ok p'"
  using assms by (auto simp: peer_disconnect_def in_set_bind_option peer_reset_def peer_ok_def dest: free_gives_null)

lemma buffered_socket_connect_status: "fst (buffered_socket_connect s fd fl sf c e) \<noteq> - 1"
  by (simp add: buffered_socket_connect_def Let_def)

lemma peer_connect_ok [keeps]:
  assumes "peer_connect io p = Some (r, p')" "peer_ok p"
  shows "peer_ok p'"
proof -
  from assms(1) obtain s0 where s0: "buffered_socket_new (c_malloc io) (c_now1 io) (c_now2 io) = Some s0"
    by (auto simp: peer_connect_def split: option.splits)
  obtain r1 s1 where c: "buffered_socket_connect s0 (c_fd io) (c_flags io) (c_setfl io) (c_conn io) (c_einprogress io) = (r1, s1)"
    by force
  have "r1 \<noteq> - 1" using buffered_socket_connect_status [of s0] c by (metis fst_conv)
  with assms(1) s0 c have "p' = p\<lparr>psocket := Some s1, peer_state := PEER_CONNECTED\<rparr>"
    by (simp add: peer_connect_def)
  with assms(2) show ?thesis by (simp add: peer_ok_def)
qed

lemma peer_ok_state:
  "peer_ok p \<Longrightarrow> peer_state p \<noteq> PEER_UNCONNECTED \<Longrightarrow> t \<noteq> PEER_UNCONNECTED \<Longrightarrow> peer_ok (p\<lparr>peer_state := t\<rparr>)"
  by (simp add: peer_ok_def)

lemma peer_write_state: "peer_write w m p = Some (taken, p') \<Longrightarrow> peer_state p' = peer_state p"
  by (auto elim!: peer_writeD)

lemma peer_send_handshake_ok [keeps]:
  assumes run: "peer_send_handshake w ih p = Some (r, p')" and ok: "peer_ok p" "peer_should_send_handshake po p"
  shows "peer_ok p'"
proof -
  from run obtain t p1 where w: "peer_write w (handshake_bytes (handshake_sent ih)) p = Some (t, p1)"
    and p': "(if t then Some (EXIT_SUCCESS, p1\<lparr>peer_state := PEER_HANDSHAKE_SENT\<rparr>) else Some (EXIT_FAILURE, p1)) = Some (r, p')"
    by (auto simp: peer_send_handshake_def in_set_bind_option)
  have "peer_state p1 = PEER_CONNECTED"
    using peer_write_state [OF w] ok(2) by (simp add: peer_should_send_handshake_def)
  with peer_write_ok [OF w ok(1)] p' peer_ok_state [of p1 PEER_HANDSHAKE_SENT] show ?thesis by (cases t) auto
qed

lemma peer_handle_handshake_ok [keeps]:
  assumes "peer_handle_handshake le rok ok em w ih n p = Some (r, p')" "peer_ok p" "peer_should_handle_handshake p"
  shows "peer_ok p'"
proof -
  obtain r1 bs s where rd: "buffered_socket_read (psocket p) rok 68 = (r1, bs, s)" by (metis prod_cases3)
  note keep = read_keeps_socket [OF rd]
  let ?q = "p\<lparr>psocket := s\<rparr>"
  have q: "peer_ok ?q" using assms(2) keep by (rule peer_ok_socket)
  have sent: "peer_state ?q \<noteq> PEER_UNCONNECTED" using assms(3) by (simp add: peer_should_handle_handshake_def)
  show ?thesis
    using assms(1) rd q sent
    by (auto simp: peer_handle_handshake_def Let_def in_set_bind_option split: if_splits
        dest: peer_write_state peer_write_ok intro!: peer_ok_state)
qed

lemma peer_handle_network_buffers_ok [keeps]:
  assumes run: "peer_handle_network_buffers io d p = Some (r, p', out)" and ok: "peer_ok p"
  shows "peer_ok p'"
proof (cases "buffered_socket_has_hungup (psocket p) (poll_hup io) = 1")
  case True
  with run ok show ?thesis by (auto simp: peer_handle_network_buffers_def dest: peer_disconnect_ok)
next
  case False
  with run obtain w p1 out1 where
    w: "(if buffered_socket_can_network_write (psocket p) \<noteq> 0
         then map_option (\<lambda>(r, s, out). (r, p\<lparr>psocket := s\<rparr>, out))
           (buffered_socket_network_write (psocket p) (write_results io) (write_now io))
         else Some (1, p, [])) = Some (w, p1, out1)"
    by (auto simp: peer_handle_network_buffers_def in_set_bind_option)
  then have p1: "peer_ok p1"
    using ok by (auto split: if_splits dest!: network_write_keeps_socket intro!: peer_ok_socket)
  show ?thesis
  proof (cases "w = - 1 \<and> write_hard_error io")
    case True
    with run False w p1 show ?thesis
      by (auto simp: peer_handle_network_buffers_def dest: peer_disconnect_ok)
  next
    case soft: False
    with run False w obtain r2 p2 where
      r2: "(if buffered_socket_can_network_read (psocket p1) (poll_in io) \<noteq> 0
            then map_option (\<lambda>(r, s). (r, p1\<lparr>psocket := s\<rparr>))
              (buffered_socket_network_read (psocket p1) (read_outcome io) (read_malloc io) (read_now io))
            else Some (1, p1)) = Some (r2, p2)"
      by (auto simp: peer_handle_network_buffers_def in_set_bind_option)
    then have p2: "peer_ok p2"
      using p1 by (auto split: if_splits dest!: network_read_keeps_socket intro!: peer_ok_socket)
    with run False w soft r2 show ?thesis
      by (auto simp: peer_handle_network_buffers_def split: if_splits dest: peer_disconnect_ok)
  qed
qed

subsection \<open>Messages\<close>

lemma send_basic_ok [keeps]: "send_basic le w i p = Some (r, p') \<Longrightarrow> peer_ok p \<Longrightarrow> peer_ok p'"
  by (auto simp: send_basic_def in_set_bind_option dest: peer_write_ok)

lemma peer_send_keepalive_ok [keeps]: "peer_send_keepalive le w p = Some (r, p') \<Longrightarrow> peer_ok p \<Longrightarrow> peer_ok p'"
  by (auto simp: peer_send_keepalive_def in_set_bind_option dest: peer_write_ok)

lemma send_flags_ok [keeps]:
  "peer_send_msg_choke le w p = Some (r, p') \<Longrightarrow> peer_ok p \<Longrightarrow> peer_ok p'"
  "peer_send_msg_unchoke le w p = Some (r, p') \<Longrightarrow> peer_ok p \<Longrightarrow> peer_ok p'"
  "peer_send_msg_not_interested le w p = Some (r, p') \<Longrightarrow> peer_ok p \<Longrightarrow> peer_ok p'"
  "peer_send_msg_interested le w p = Some (r, p') \<Longrightarrow> peer_ok p \<Longrightarrow> peer_bitfield p \<noteq> None \<Longrightarrow> peer_ok p'"
  unfolding peer_send_msg_choke_def peer_send_msg_unchoke_def peer_send_msg_not_interested_def
    peer_send_msg_interested_def
  by (erule send_basic_ok, simp add: peer_ok_def)+

lemma handle_flags_ok:
  "peer_ok p \<Longrightarrow> peer_ok (peer_handle_msg_choke p)"
  "peer_ok p \<Longrightarrow> peer_ok (peer_handle_msg_unchoke p)"
  "peer_ok p \<Longrightarrow> peer_ok (peer_handle_msg_interested p)"
  "peer_ok p \<Longrightarrow> peer_ok (peer_handle_msg_not_interested p)"
  "peer_ok p \<Longrightarrow> peer_ok (peer_handle_ut_metadata_reject p)"
  by (simp_all add: peer_ok_def peer_handle_msg_choke_def peer_handle_msg_unchoke_def
      peer_handle_msg_interested_def peer_handle_msg_not_interested_def peer_handle_ut_metadata_reject_def)

lemma peer_update_interested_ok [keeps]:
  "peer_update_interested le w td p = Some p' \<Longrightarrow> peer_ok p \<Longrightarrow> peer_ok p'"
  by (auto simp: peer_update_interested_def in_set_bind_option split: option.splits if_splits
      dest: send_flags_ok(3) send_flags_ok(4))

lemma peer_ok_bitfield: "peer_ok p \<Longrightarrow> peer_ok (p\<lparr>peer_bitfield := Some b\<rparr>)"
  by (simp add: peer_ok_def)

lemma send_have_loop_ok: "send_have_loop le ws p = Some (b, p') \<Longrightarrow> peer_ok p \<Longrightarrow> peer_ok p'"
proof (induction ws arbitrary: p)
  case (Cons w ws)
  have upd: "peer_ok (p\<lparr>progress_queue := q\<rparr>)" for q using Cons.prems(2) by (simp add: peer_ok_def)
  from Cons.prems show ?case
    by (auto simp: in_set_bind_option split: if_splits intro: Cons.IH dest!: peer_write_ok [OF _ upd])
qed (auto split: if_splits)

lemma peer_send_msg_have_ok [keeps]:
  "peer_send_msg_have le ws w td p = Some (r, p') \<Longrightarrow> peer_ok p \<Longrightarrow> peer_ok p'"
  by (auto simp: peer_send_msg_have_def in_set_bind_option split: if_splits
      dest: send_have_loop_ok peer_update_interested_ok)

lemma peer_handle_msg_have_ok [keeps]:
  "peer_handle_msg_have le bm w m td p = Some p' \<Longrightarrow> peer_ok p \<Longrightarrow> peer_ok p'"
  by (auto simp: peer_handle_msg_have_def in_set_bind_option
      dest!: peer_update_interested_ok intro: peer_ok_bitfield split: option.splits)

lemma peer_handle_msg_bitfield_ok [keeps]:
  "peer_handle_msg_bitfield le bm w m td p = Some (r, p') \<Longrightarrow> peer_ok p \<Longrightarrow> peer_ok p'"
  by (auto simp: peer_handle_msg_bitfield_def Let_def in_set_bind_option split: if_splits
      dest!: peer_update_interested_ok intro: peer_ok_bitfield)

lemma resize_peer_bitfield_ok: "resize_peer_bitfield nm td b p = Some p' \<Longrightarrow> peer_ok p \<Longrightarrow> peer_ok p'"
  by (auto simp: resize_peer_bitfield_def in_set_bind_option split: option.splits if_splits intro: peer_ok_bitfield)

lemma peer_send_msg_bitfield_ok [keeps]:
  assumes "peer_send_msg_bitfield le m1 m2 m3 w td p = Some (r, p')" "peer_ok p"
  shows "peer_ok p'"
proof -
  have "peer_ok (p\<lparr>msg_bitfield_sent := 1\<rparr>)" using assms(2) by (simp add: peer_ok_def)
  with assms(1) show ?thesis
    by (auto simp: peer_send_msg_bitfield_def Let_def in_set_bind_option split: if_splits
        dest!: resize_peer_bitfield_ok dest: peer_write_ok)
qed

text \<open>Each request raises the number of pending requests by one.\<close>

lemma request_loop_ok:
  "request_loop le ws td cids k p = Some (b, p') \<Longrightarrow> peer_ok p \<Longrightarrow>
   pending_request_count p + int (length cids) \<le> 10 \<Longrightarrow> peer_ok p'"
proof (induction cids arbitrary: k p)
  case (Cons c cids)
  show ?case
  proof (cases "c = - 1")
    case True
    with Cons.prems show ?thesis by simp
  next
    case False
    with Cons.prems(1) obtain ci pi t p1 where
      w: "peer_write (ws k) (request_msg le pi ci) p = Some (t, p1)"
      and rest: "(if t then request_loop le ws td cids (Suc k) (p1\<lparr>pending_request_count := pending_request_count p1 + 1\<rparr>)
        else Some (False, p1)) = Some (b, p')"
      by (auto simp: in_set_bind_option)
    from peer_write_ok [OF w Cons.prems(2)] have p1: "peer_ok p1" .
    show ?thesis
    proof (cases t)
      case True
      have "peer_ok (p1\<lparr>pending_request_count := pending_request_count p1 + 1\<rparr>)"
        using p1 peer_write_pending [OF w] Cons.prems(3) by (simp add: peer_ok_def)
      with Cons.IH [of "Suc k" "p1\<lparr>pending_request_count := pending_request_count p1 + 1\<rparr>"] rest True
        peer_write_pending [OF w] Cons.prems(3)
      show ?thesis by simp
    qed (use rest p1 in simp)
  qed
qed simp

lemma claim_length:
  assumes "torrent_data_claim_chunk mo clock td b t n out = Some (r, td', out')"
  shows "length out' = length out"
proof -
  have step: "length o2 = length o1" if "claim_step mo clock b t c (td1, f1, o1) = Some (td2, f2, o2)" for c td1 f1 o1 td2 f2 o2
    using that by (auto simp: claim_step_def in_set_bind_option split: option.splits if_splits)
  have "length o2 = length o1"
    if "foldM (claim_step mo clock b t) cs (td1, f1, o1) = Some (td2, f2, o2)" for cs td1 f1 o1 td2 f2 o2
    using that
  proof (induction cs arbitrary: td1 f1 o1)
    case (Cons c cs)
    then obtain td3 f3 o3 where "claim_step mo clock b t c (td1, f1, o1) = Some (td3, f3, o3)"
      "foldM (claim_step mo clock b t) cs (td3, f3, o3) = Some (td2, f2, o2)"
      by (auto simp: in_set_bind_option)
    with Cons.IH step show ?case by simp
  qed simp
  with assms show ?thesis
    by (auto simp: torrent_data_claim_chunk_def in_set_bind_option split: if_splits)
qed

lemma peer_send_msg_request_ok [keeps]:
  assumes run: "peer_send_msg_request le io td p = Some (r, p', td')" and ok: "peer_ok p"
  shows "peer_ok p'"
proof (cases "pending_request_count p < 10")
  case True
  with run obtain b r1 td1 cids where
    cl: "torrent_data_claim_chunk (claim_malloc io) (claim_clock io) td b 10 (10 - pending_request_count p)
      (replicate (nat (10 - pending_request_count p)) (- 1)) = Some (r1, td1, cids)"
    and rest: "(if r1 = EXIT_SUCCESS then do {
         (sent, p) \<leftarrow> request_loop le (request_writes io) td1 cids 0 p;
         Some (if sent then EXIT_SUCCESS else EXIT_FAILURE, p, td1) }
       else Some (EXIT_SUCCESS, p, td1)) = Some (r, p', td')"
    by (auto simp: peer_send_msg_request_def Let_def in_set_bind_option)
  from claim_length [OF cl] True have "pending_request_count p + int (length cids) \<le> 10" by simp
  with rest ok show ?thesis
    by (auto simp: in_set_bind_option split: if_splits dest: request_loop_ok)
next
  case False
  with run ok show ?thesis by (auto simp: peer_send_msg_request_def in_set_bind_option)
qed

lemma peer_handle_msg_request_ok [keeps]:
  "peer_handle_msg_request le io m td disk p = Some (r, p') \<Longrightarrow> peer_ok p \<Longrightarrow> peer_ok p'"
  by (auto simp: peer_handle_msg_request_def Let_def in_set_bind_option split: if_splits dest: peer_write_ok)

lemma peer_handle_msg_piece_ok [keeps]:
  "peer_handle_msg_piece node m q p = Some (p', q') \<Longrightarrow> peer_ok p \<Longrightarrow> peer_ok p'"
  by (auto simp: peer_handle_msg_piece_def in_set_bind_option peer_ok_def)

subsection \<open>Reading\<close>

lemma disconnect_null_ok: "disconnect_null d p = Some (m, p') \<Longrightarrow> peer_ok p \<Longrightarrow> peer_ok p'"
  by (auto simp: disconnect_null_def dest: peer_disconnect_ok)

lemma load_msg_body_ok:
  assumes run: "load_msg_body le io d p = Some (m, p')" and ok: "peer_ok p"
  shows "peer_ok p'"
proof -
  define n where "n = unat (ntohl_util le (network_ordered_msg_length p))"
  define got where "got = (if 4 + n - 5 > 0 then buffered_socket_read (psocket p) (keep3 io) (4 + n - 5) else (1, [], psocket p))"
  obtain r bs s where g: "got = (r, bs, s)" by (metis prod_cases3)
  then have "s = None \<longleftrightarrow> psocket p = None"
    by (auto simp: got_def split: if_splits dest: read_keeps_socket)
  with ok have q: "peer_ok (p\<lparr>psocket := s\<rparr>)" by (rule peer_ok_socket)
  then have clear: "peer_ok (p\<lparr>psocket := s, network_ordered_msg_length := 0, network_ordered_msg_length_loaded := 0, msg_id := 0, msg_id_loaded := 0\<rparr>)"
    by (simp add: peer_ok_def)
  show ?thesis
    using run ok q clear unfolding load_msg_body_def n_def [symmetric] Let_def got_def [symmetric] g
    by (auto split: if_splits dest: disconnect_null_ok)
qed

lemma load_msg_id_ok:
  assumes run: "load_msg_id io d cont p = Some (m, p')" and ok: "peer_ok p"
    and cont: "\<And>q. cont q = Some (m, p') \<Longrightarrow> peer_ok q \<Longrightarrow> peer_ok p'"
  shows "peer_ok p'"
proof -
  obtain r bs s where rd: "buffered_socket_read (psocket p) (keep2 io) 1 = (r, bs, s)" by (metis prod_cases3)
  from ok read_keeps_socket [OF rd] have q: "peer_ok (p\<lparr>psocket := s\<rparr>)" by (rule peer_ok_socket)
  then have "peer_ok (p\<lparr>psocket := s, msg_id := hd bs, msg_id_loaded := 1\<rparr>)" by (simp add: peer_ok_def)
  with run ok q rd show ?thesis
    by (auto simp: load_msg_id_def Let_def split: if_splits dest: disconnect_null_ok cont)
qed

lemma load_msg_length_ok:
  assumes run: "load_msg_length le io d cont p = Some (m, p')" and ok: "peer_ok p"
    and cont: "\<And>q. cont q = Some (m, p') \<Longrightarrow> peer_ok q \<Longrightarrow> peer_ok p'"
  shows "peer_ok p'"
proof -
  obtain r bs s where rd: "buffered_socket_read (psocket p) (keep1 io) 4 = (r, bs, s)" by (metis prod_cases3)
  from ok read_keeps_socket [OF rd] have q: "peer_ok (p\<lparr>psocket := s\<rparr>)" by (rule peer_ok_socket)
  then have "peer_ok (p\<lparr>psocket := s, network_ordered_msg_length := load32 le bs, network_ordered_msg_length_loaded := 1\<rparr>)"
    by (simp add: peer_ok_def)
  with run ok q rd show ?thesis
    by (auto simp: load_msg_length_def Let_def split: if_splits dest: disconnect_null_ok cont)
qed

lemma peer_read_message_ok [keeps]:
  "peer_read_message le io d p = Some (m, p') \<Longrightarrow> peer_ok p \<Longrightarrow> peer_ok p'"
  unfolding peer_read_message_def
  by (erule load_msg_length_ok, assumption) (erule load_msg_id_ok, assumption, erule load_msg_body_ok)

subsection \<open>The metadata extension\<close>

lemma peer_handle_ut_metadata_handshake_ok [keeps]:
  assumes run: "peer_handle_ut_metadata_handshake le ok m p = Some (r, p')" and ok: "peer_ok p"
  shows "peer_ok p'"
proof -
  have "peer_ok (p\<lparr>ut_metadata := i, ut_metadata_size := j\<rparr>)" for i j using ok by (simp add: peer_ok_def)
  with run ok show ?thesis
    by (auto simp: peer_handle_ut_metadata_handshake_def split: bind_splits sum.splits option.splits)
qed

lemma peer_handle_ut_metadata_request_ok [keeps]:
  "peer_handle_ut_metadata_request le io c td disk p = Some (r, p') \<Longrightarrow> peer_ok p \<Longrightarrow> peer_ok p'"
  by (auto simp: peer_handle_ut_metadata_request_def Let_def in_set_bind_option split: if_splits dest: peer_write_ok)

lemma peer_send_ut_metadata_request_ok [keeps]:
  assumes run: "peer_send_ut_metadata_request le io td p = Some (r, p', td')" and ok: "peer_ok p"
  shows "peer_ok p'"
proof -
  have upd: "peer_ok (p\<lparr>ut_metadata_requested := b\<rparr>)" for b using ok by (simp add: peer_ok_def)
  from run upd show ?thesis
    by (auto simp: peer_send_ut_metadata_request_def Let_def in_set_bind_option split: if_splits dest: peer_write_ok)
qed

lemma peer_handle_msg_extension_ok [keeps]:
  assumes run: "peer_handle_msg_extension le ok io node d m sh p = Some (r, p', sh')" and p: "peer_ok p"
  shows "peer_ok p'"
proof -
  from run obtain i n ext where fields: "get_msg_id m = Some i" "get_msg_buffer_size le m = Some n" "byte_at m 5 = Some ext"
    by (auto simp: peer_handle_msg_extension_def split: bind_splits)
  note run = run [unfolded peer_handle_msg_extension_def] fields
  consider "ext = 0" | "ext \<noteq> 0" "uint ext = UT_METADATA_ID" | "ext \<noteq> 0" "uint ext \<noteq> UT_METADATA_ID" by blast
  then show ?thesis
  proof cases
    case 1
    with run obtain r1 p1 where "peer_handle_ut_metadata_handshake le ok m p = Some (r1, p1)"
      "(if r1 = EXIT_FAILURE then map_option (\<lambda>p. (EXIT_FAILURE, p, sh)) (peer_disconnect d p1)
        else Some (EXIT_SUCCESS, p1, sh)) = Some (r, p', sh')"
      by (auto split: bind_splits)
    with p show ?thesis by (auto split: if_splits dest: keeps)
  next
    case 2
    with run obtain r1 x y where dec: "be_decode ok (drop 6 m) (size_sub n 6) new_heap = Some (r1, x, y)"
      by (auto split: bind_splits)
    show ?thesis
    proof (cases r1)
      case (Inl e)
      with 2 run dec p show ?thesis by (auto dest: keeps)
    next
      case (Inr v)
      with 2 run dec obtain t c where
        "be_dict_lookup_num v (keystr ''msg_type'') = Some t" "be_dict_lookup_num v (keystr ''piece'') = Some c"
        by (auto split: bind_splits)
      with 2 run dec p Inr show ?thesis by (auto split: if_splits dest: keeps intro: handle_flags_ok)
    qed
  next
    case 3
    with run p show ?thesis by simp
  qed
qed

lemma dispatch_message_ok [keeps]:
  assumes run: "dispatch_message le io m sh p = Some (p', sh')" and p: "peer_ok p"
  shows "peer_ok p'"
proof -
  from run obtain n i where "get_msg_length le m = Some n" "get_msg_id m = Some i"
    by (auto simp: dispatch_message_def split: bind_splits)
  with run p show ?thesis
    by (auto simp: dispatch_message_def peer_handle_msg_cancel_def peer_handle_msg_port_def
        split: if_splits dest: keeps intro: handle_flags_ok)
qed

subsection \<open>The steps of the job\<close>

definition step_keeps :: "run_step \<Rightarrow> bool" where
  "step_keeps f \<longleftrightarrow> (\<forall>p sh out go p' sh' out'. f (p, sh, out) = Some (go, p', sh', out') \<longrightarrow> peer_ok p \<longrightarrow> peer_ok p')"

lemma step_keepsI:
  "(\<And>p sh out go p' sh' out'. f (p, sh, out) = Some (go, p', sh', out') \<Longrightarrow> peer_ok p \<Longrightarrow> peer_ok p') \<Longrightarrow> step_keeps f"
  unfolding step_keeps_def by blast

lemma step_keepsD:
  "step_keeps f \<Longrightarrow> f (p, sh, out) = Some (go, p', sh', out') \<Longrightarrow> peer_ok p \<Longrightarrow> peer_ok p'"
  unfolding step_keeps_def by blast

lemma run_steps_keep:
  assumes "\<forall>f \<in> set fs. step_keeps f"
  shows "step_keeps (run_steps fs)"
  using assms
proof (induction fs)
  case Nil
  show ?case by (rule step_keepsI) simp
next
  case (Cons f fs)
  then have f: "step_keeps f" and fs: "step_keeps (run_steps fs)" by simp_all
  show ?case
  proof (rule step_keepsI)
    fix p sh out go p' sh' out'
    assume run: "run_steps (f # fs) (p, sh, out) = Some (go, p', sh', out')" and ok: "peer_ok p"
    then obtain g p1 sh1 out1 where "f (p, sh, out) = Some (g, p1, sh1, out1)"
      "(if g then run_steps fs (p1, sh1, out1) else Some (False, p1, sh1, out1)) = Some (go, p', sh', out')"
      by (auto split: bind_splits)
    with step_keepsD [OF f _ ok] step_keepsD [OF fs] show "peer_ok p'" by (cases g) auto
  qed
qed

lemma connect_step_keeps: "step_keeps (run_connect io)"
  by (rule step_keepsI) (auto simp: run_connect_def split: if_splits bind_splits; blast dest: keeps)

lemma network_step_keeps: "step_keeps (run_network t a d)"
  by (rule step_keepsI) (auto simp: run_network_def split: if_splits bind_splits; blast dest: keeps)

lemma send_handshake_step_keeps: "step_keeps (run_send_handshake io ih)"
  by (rule step_keepsI) (auto simp: run_send_handshake_def split: if_splits bind_splits; blast dest: keeps)

lemma handle_handshake_step_keeps: "step_keeps (run_handle_handshake le io ih)"
  by (rule step_keepsI) (auto simp: run_handle_handshake_def split: if_splits bind_splits; blast dest: keeps)

lemma send_steps_keep:
  "step_keeps (run_send_have le io)" "step_keeps (run_send_bitfield le io)" "step_keeps (run_metadata_request le io)"
  "step_keeps (run_request le io)" "step_keeps (run_choke le io)" "step_keeps (run_keepalive le io)"
  by (rule step_keepsI; auto simp: run_send_have_def run_send_bitfield_def run_metadata_request_def run_request_def
      run_choke_def run_keepalive_def split: if_splits; blast dest: keeps)+

lemma read_step_keeps: "step_keeps (run_read_message le io)"
  by (rule step_keepsI) (auto simp: run_read_message_def split: if_splits bind_splits option.splits; blast dest: keeps)

lemma timeout_step_keeps: "step_keeps (run_timeout io)"
  by (rule step_keepsI) (auto simp: run_timeout_def split: if_splits; blast dest: keeps)

lemmas run_step_keeps = connect_step_keeps network_step_keeps send_handshake_step_keeps handle_handshake_step_keeps send_steps_keep
  read_step_keeps timeout_step_keeps

lemma peer_run_steps_keep: "step_keeps (run_steps (peer_run_steps le io ih))"
  by (rule run_steps_keep) (simp add: peer_run_steps_def run_step_keeps)

text \<open>A step that stops the job leaves the peer disconnected.\<close>

definition disconnected :: "peer \<Rightarrow> bool" where
  "disconnected p \<longleftrightarrow> psocket p = None \<and> peer_state p = PEER_UNCONNECTED \<and> pending_request_count p = 0"

definition stop_disconnects :: "run_step \<Rightarrow> bool" where
  "stop_disconnects f \<longleftrightarrow> (\<forall>p sh out p' sh' out'. f (p, sh, out) = Some (False, p', sh', out') \<longrightarrow> disconnected p')"

lemma stop_disconnectsI:
  "(\<And>p sh out p' sh' out'. f (p, sh, out) = Some (False, p', sh', out') \<Longrightarrow> disconnected p') \<Longrightarrow> stop_disconnects f"
  unfolding stop_disconnects_def by blast

lemma stop_disconnectsD:
  "stop_disconnects f \<Longrightarrow> f (p, sh, out) = Some (False, p', sh', out') \<Longrightarrow> disconnected p'"
  unfolding stop_disconnects_def by blast

lemma peer_disconnect_disconnected: "peer_disconnect d p = Some p' \<Longrightarrow> disconnected p'"
  by (auto simp: peer_disconnect_def disconnected_def peer_reset_def split: bind_splits dest: free_gives_null)

lemma network_buffers_stop: "peer_handle_network_buffers io d p = Some (EXIT_FAILURE, p', out) \<Longrightarrow> disconnected p'"
  unfolding peer_handle_network_buffers_def
  by (auto split: if_splits bind_splits; blast dest: peer_disconnect_disconnected)

lemma run_steps_stop:
  assumes "\<forall>f \<in> set fs. stop_disconnects f"
  shows "stop_disconnects (run_steps fs)"
  using assms
proof (induction fs)
  case Nil
  show ?case by (rule stop_disconnectsI) simp
next
  case (Cons f fs)
  then have f: "stop_disconnects f" and fs: "stop_disconnects (run_steps fs)" by simp_all
  show ?case
  proof (rule stop_disconnectsI)
    fix p sh out p' sh' out'
    assume "run_steps (f # fs) (p, sh, out) = Some (False, p', sh', out')"
    then obtain g p1 sh1 out1 where run: "f (p, sh, out) = Some (g, p1, sh1, out1)"
      "(if g then run_steps fs (p1, sh1, out1) else Some (False, p1, sh1, out1)) = Some (False, p', sh', out')"
      by (auto split: bind_splits)
    with stop_disconnectsD [OF f] stop_disconnectsD [OF fs] show "disconnected p'" by (cases g) auto
  qed
qed

lemma run_step_stops:
  "stop_disconnects (run_connect io)" "stop_disconnects (run_network t a d)"
  "stop_disconnects (run_send_handshake io ih)" "stop_disconnects (run_handle_handshake le io ih)"
  "stop_disconnects (run_send_have le io)" "stop_disconnects (run_send_bitfield le io)"
  "stop_disconnects (run_metadata_request le io)" "stop_disconnects (run_request le io)"
  "stop_disconnects (run_choke le io)" "stop_disconnects (run_read_message le io)"
  "stop_disconnects (run_keepalive le io)" "stop_disconnects (run_timeout io)"
  by (rule stop_disconnectsI; auto simp: run_connect_def run_network_def run_send_handshake_def run_handle_handshake_def
      run_send_have_def run_send_bitfield_def run_metadata_request_def run_request_def run_choke_def
      run_read_message_def run_keepalive_def run_timeout_def
      split: if_splits bind_splits option.splits dest: peer_disconnect_disconnected network_buffers_stop)+

lemma peer_run_steps_stop: "stop_disconnects (run_steps (peer_run_steps le io ih))"
  by (rule run_steps_stop) (simp add: peer_run_steps_def run_step_stops)

subsection \<open>The whole job\<close>

text \<open>A run of the job of a peer that is defined and returns keeps its invariant: afterwards the peer has a socket exactly when it
  is not unconnected, at most ten requests are pending, its flags are flags and it is interested only in a
  peer whose bitfield it has. It has cleared \<open>running\<close>, so that the peer is scheduled again, and a run
  that fails leaves the peer disconnected with nothing pending.\<close>

lemma peer_run_keeps:
  assumes ok: "peer_ok p" and run: "peer_run le io info_hash sh p = Some (r, p', sh', out)"
  shows "peer_ok p' \<and> running p' = 0 \<and> (r = EXIT_SUCCESS \<or> r = EXIT_FAILURE \<and> disconnected p')"
proof -
  from run obtain go p1 where
    st: "run_steps (peer_run_steps le io info_hash) (p, sh, []) = Some (go, p1, sh', out)"
    and p': "p' = p1\<lparr>running := 0\<rparr>" "r = (if go then EXIT_SUCCESS else EXIT_FAILURE)"
    by (auto simp: peer_run_def split: bind_splits)
  from step_keepsD [OF peer_run_steps_keep st ok] have "peer_ok p'" by (simp add: p'(1) peer_ok_def)
  moreover have "\<not> go \<Longrightarrow> disconnected p'"
    using stop_disconnectsD [OF peer_run_steps_stop, of le io info_hash p sh "[]" p1 sh' out] st
    by (simp add: disconnected_def p'(1))
  ultimately show ?thesis by (simp add: p')
qed

definition idle_net :: network_io where
  "idle_net = \<lparr>poll_in = False, poll_hup = False, write_results = [], write_hard_error = False, write_now = 0,
     read_outcome = ReadError, read_malloc = True, read_hard_error = False, read_now = 0\<rparr>"

definition demo_disk_env :: disk_env where
  "demo_disk_env = \<lparr>mkdir_fails = (\<lambda>p. False), create_ok = (\<lambda>p. True), open_ok = (\<lambda>p. True), accepts = (\<lambda>p n. n)\<rparr>"

definition demo_run_io :: run_io where
  "demo_run_io = \<lparr>connect_time = 40000,
     connect_calls_io = \<lparr>c_malloc = True, c_now1 = 40000, c_now2 = 40000, c_fd = 7, c_flags = 2, c_setfl = 0, c_conn = - 1, c_einprogress = True\<rparr>,
     connect_disconnect = demo_disconnect,
     network1 = idle_net, network1_act = idle_net, network1_disconnect = demo_disconnect,
     handshake_pollout = True, handshake_write = (Some 4, True), handshake_disconnect = demo_disconnect,
     hs_read_ok = True, hs_ok = (\<lambda>_. True), hs_malloc = True, hs_write = (Some 5, True), hs_disconnect = demo_disconnect,
     have_writes = [], have_interest = (None, True),
     bits_malloc1 = True, bits_malloc2 = True, bits_malloc3 = True, bits_write = (None, True),
     metadata_request = \<lparr>req_malloc = True, file_malloc = True, file_strndup = True, size_malloc1 = True,
       size_malloc2 = True, size_malloc3 = True, chunk_clock = (\<lambda>_. 0), req_ok = (\<lambda>_. True), send_malloc = True, send_write = (None, True)\<rparr>,
     requests = \<lparr>bf_malloc = True, claim_malloc = True, claim_clock = (\<lambda>_. 0), request_writes = (\<lambda>_. (None, True))\<rparr>,
     choke_write = (None, True), msg_read = all_kept, msg_disconnect = demo_disconnect,
     handle_malloc = True, handle_write = (None, True),
     handle_answer = \<lparr>answer_malloc = True, answer_fuel = 9, answer_env = demo_disk_env, answer_write = (None, True)\<rparr>,
     handle_node = None, handle_ok = (\<lambda>_. True),
     handle_metadata = \<lparr>meta_ok = (\<lambda>_. True), meta_fuel = 9, meta_env = demo_disk_env, meta_malloc = True, meta_write = (None, True)\<rparr>,
     handle_disconnect = demo_disconnect, keepalive_time = 40001, keepalive_write = (None, True),
     timeout_time = 40001, timeout_disconnect = demo_disconnect,
     network2 = idle_net, network2_act = idle_net\<lparr>write_results := [Sent 68], write_now := 40002\<rparr>, network2_disconnect = demo_disconnect\<rparr>"

definition demo_shared :: shared where
  "demo_shared = \<lparr>metadata = demo_td, content = demo_td, sdisk = Map.empty,
     metadata_queue = \<lparr>nodes = Map.empty, count = 0, head = None, tail = None\<rparr>,
     data_queue = \<lparr>nodes = Map.empty, count = 0, head = None, tail = None\<rparr>\<rparr>"

definition demo_new_peer :: peer where
  "demo_new_peer = peer_reset 100 (demo_peer\<lparr>psocket := None\<rparr>)"

lemma handshake_length: "length (handshake_bytes (handshake_sent (replicate 20 7))) = 68"
  by (simp add: handshake_bytes_def handshake_sent_def)

end
