(* ===== verification/Uvg_PeerReturns.thy ===== *)
theory Uvg_PeerReturns
  imports Uvg_PeerInvariant
begin

text \<open>
  A run of the job of a peer returns, whatever the network does, until the handshake of the peer has arrived.
  After it, the job handles messages that the peer chooses, and some of these have no defined
  behaviour or keep the job in a loop (a request across the end of the data); for these runs only
  \<open>peer_run_keeps\<close> holds.
\<close>

subsection \<open>Before the handshake\<close>

text \<open>The peer is not connected, or it has a socket with at most \<open>n\<close> bytes to read, and nothing but our handshake can
  be waiting to be sent.\<close>

definition early :: "nat \<Rightarrow> peer \<Rightarrow> bool" where
  "early n p \<longleftrightarrow> peer_state p \<noteq> PEER_HANDSHAKE_COMPLETE \<and> (case psocket p of
      None \<Rightarrow> peer_state p = PEER_UNCONNECTED
    | Some b \<Rightarrow> peer_state p \<noteq> PEER_UNCONNECTED \<and> read_buffer_size b \<le> n
        \<and> (if peer_state p = PEER_HANDSHAKE_SENT then \<exists>ws. sending b ws \<and> length ws \<le> 1
           else write_buffer_head b = None \<and> write_buffer_tail b = None))"

definition received :: "network_io \<Rightarrow> nat" where
  "received io = (case read_outcome io of ReadError \<Rightarrow> 0 | ReadBytes bs \<Rightarrow> length bs)"

text \<open>The memory the run asks for is granted, and one step is enough to free the write buffers.\<close>

definition run_granted :: "run_io \<Rightarrow> bool" where
  "run_granted io \<longleftrightarrow> c_malloc (connect_calls_io io) \<and> read_malloc (network1_act io) \<and> read_malloc (network2_act io) \<and> snd (handshake_write io)
     \<and> (\<forall>d \<in> {connect_disconnect io, network1_disconnect io, handshake_disconnect io, hs_disconnect io, timeout_disconnect io,
          network2_disconnect io}. 1 \<le> free_steps d)"

lemma early_mono: "early m p \<Longrightarrow> m \<le> n \<Longrightarrow> early n p"
  by (auto simp: early_def split: option.splits)

lemma early_sending:
  assumes "early n p" "psocket p = Some b"
  obtains ws where "sending b ws" "length ws \<le> 1"
  using assms sending_Nil [of b] by (auto simp: early_def split: if_splits)

lemma disconnect_early:
  assumes "early n p" "1 \<le> free_steps d"
  shows "\<exists>p'. peer_disconnect d p = Some p' \<and> early m p'"
proof (cases "psocket p")
  case None
  then show ?thesis by (simp add: peer_disconnect_def buffered_socket_free_def peer_reset_def early_def)
next
  case (Some b)
  obtain ws where ws: "sending b ws" "length ws \<le> 1" using early_sending [OF assms(1) Some] .
  then obtain as where as: "Uvg_Queue.chain (wb_nodes b) (write_buffer_head b) as" "distinct as" "map (node_value (wb_nodes b)) as = ws"
    by (auto simp: sending_def linked_def)
  have "length as \<le> free_steps d" using as(3) ws(2) assms(2) by (metis length_map order_trans)
  from buffered_socket_free_complete [OF as(1,2) this] Some show ?thesis
    by (simp add: peer_disconnect_def peer_reset_def early_def)
qed

text \<open>The sending and the receiving half of the network step.\<close>

lemma network_write_early:
  assumes "early n p" "buffered_socket_can_network_write (psocket p) \<noteq> 0"
  shows "\<exists>r s out. buffered_socket_network_write (psocket p) rs now = Some (r, s, out) \<and> early n (p\<lparr>psocket := s\<rparr>)"
proof -
  from assms(2) obtain b where b: "psocket p = Some b" "socket b \<noteq> - 1" "write_buffer_head b \<noteq> None"
    by (auto simp: buffered_socket_can_network_write_def split: option.splits if_splits)
  obtain ws where ws: "sending b ws" "length ws \<le> 1" using early_sending [OF assms(1) b(1)] .
  have "ws \<noteq> []" using ws(1) b(3) sending_Nil by auto
  from buffered_socket_network_write_run [OF ws(1) this b(2), of rs now] obtain r b' out ws' where
    "buffered_socket_network_write (Some b) rs now = Some (r, Some b', out)" "sending b' ws'" "length ws' \<le> length ws"
    "read_buffer_size b' = read_buffer_size b" by blast
  with assms(1) b ws(2) show ?thesis by (fastforce simp: early_def split: if_splits)
qed

lemma network_read_keeps:
  assumes "read_malloc io"
  shows "\<exists>r b'. buffered_socket_network_read (Some b) (read_outcome io) (read_malloc io) now = Some (r, Some b')
    \<and> read_buffer_size b' \<le> read_buffer_size b + received io \<and> wb_nodes b' = wb_nodes b
    \<and> write_buffer_head b' = write_buffer_head b \<and> write_buffer_tail b' = write_buffer_tail b"
  using assms by (auto simp: buffered_socket_network_read_def received_def Let_def split: read_result.splits)

lemma network_read_early:
  assumes "early n p" "read_malloc io"
  shows "\<exists>r s. buffered_socket_network_read (psocket p) (read_outcome io) (read_malloc io) now = Some (r, s)
    \<and> early (n + received io) (p\<lparr>psocket := s\<rparr>)"
proof (cases "psocket p")
  case None
  with assms(1) show ?thesis by (simp add: buffered_socket_network_read_def early_def)
next
  case (Some b)
  from network_read_keeps [OF assms(2), of b now] obtain r b' where
    b': "buffered_socket_network_read (Some b) (read_outcome io) (read_malloc io) now = Some (r, Some b')"
      "read_buffer_size b' \<le> read_buffer_size b + received io" "wb_nodes b' = wb_nodes b"
      "write_buffer_head b' = write_buffer_head b" "write_buffer_tail b' = write_buffer_tail b" by blast
  then have "sending b' ws \<longleftrightarrow> sending b ws" for ws by (simp add: sending_def)
  with assms(1) b' Some have "early (n + received io) (p\<lparr>psocket := Some b'\<rparr>)" by (simp add: early_def split: if_splits)
  with b'(1) Some show ?thesis by simp
qed

lemma network_buffers_early:
  assumes "early n p" "read_malloc io" "1 \<le> free_steps d"
  shows "\<exists>r p' out. peer_handle_network_buffers io d p = Some (r, p', out) \<and> early (n + received io) p'"
proof (cases "buffered_socket_has_hungup (psocket p) (poll_hup io) = 1")
  case True
  with disconnect_early [OF assms(1,3), of "n + received io"] show ?thesis by (auto simp: peer_handle_network_buffers_def)
next
  case False
  let ?w = "if buffered_socket_can_network_write (psocket p) \<noteq> 0
    then map_option (\<lambda>(r, s, out). (r, p\<lparr>psocket := s\<rparr>, out)) (buffered_socket_network_write (psocket p) (write_results io) (write_now io))
    else Some (1, p, [])"
  obtain w p1 out where w: "?w = Some (w, p1, out)" "early n p1"
    using network_write_early [OF assms(1), of "write_results io" "write_now io"] assms(1)
    by (cases "buffered_socket_can_network_write (psocket p) = 0") auto
  let ?r = "if buffered_socket_can_network_read (psocket p1) (poll_in io) \<noteq> 0
    then map_option (\<lambda>(r, s). (r, p1\<lparr>psocket := s\<rparr>)) (buffered_socket_network_read (psocket p1) (read_outcome io) (read_malloc io) (read_now io))
    else Some (1, p1)"
  obtain r p2 where r: "?r = Some (r, p2)" "early (n + received io) p2"
    using network_read_early [OF w(2) assms(2), of "read_now io"] early_mono [OF w(2), of "n + received io"]
    by (cases "buffered_socket_can_network_read (psocket p1) (poll_in io) = 0") auto
  obtain p3 where p3: "peer_disconnect d p1 = Some p3" "early (n + received io) p3" using disconnect_early [OF w(2) assms(3)] by blast
  obtain p4 where p4: "peer_disconnect d p2 = Some p4" "early (n + received io) p4" using disconnect_early [OF r(2) assms(3)] by blast
  show ?thesis
    unfolding peer_handle_network_buffers_def using False w r p3 p4 by (auto simp del: split_paired_Ex)
qed

subsection \<open>The steps of the job\<close>

text \<open>\<open>settled n sh r\<close>: a step with the result \<open>r\<close> has returned, it has not touched what the threads share, and the
  peer is still before its handshake; \<open>stays m n f\<close>: this holds of every result of the step \<open>f\<close>.\<close>

definition settled :: "nat \<Rightarrow> shared \<Rightarrow> (bool \<times> peer \<times> shared \<times> u8 list) option \<Rightarrow> bool" where
  "settled n sh r \<longleftrightarrow> (case r of None \<Rightarrow> False | Some (go, p, sh', out) \<Rightarrow> early n p \<and> sh' = sh)"

lemma settled_simps [simp]: "settled n sh (Some (go, p, sh', out)) \<longleftrightarrow> early n p \<and> sh' = sh" "\<not> settled n sh None"
  by (simp_all add: settled_def)

lemma settledE:
  assumes "settled n sh r"
  obtains go p out where "r = Some (go, p, sh, out)" "early n p"
  using assms by (auto simp: settled_def split: option.splits)

definition stays :: "nat \<Rightarrow> nat \<Rightarrow> run_step \<Rightarrow> bool" where
  "stays m n f \<longleftrightarrow> (\<forall>p sh out. early m p \<longrightarrow> settled n sh (f (p, sh, out)))"

lemma staysI: "(\<And>p sh out. early m p \<Longrightarrow> settled n sh (f (p, sh, out))) \<Longrightarrow> stays m n f"
  by (simp add: stays_def)

lemma run_steps_Nil_stays: "stays n n (run_steps [])"
  by (simp add: stays_def)

lemma run_steps_Cons_stays:
  assumes "stays m n f" "stays n k (run_steps fs)" "n \<le> k"
  shows "stays m k (run_steps (f # fs))"
proof (rule staysI)
  fix p sh out
  assume "early m p"
  with assms(1) obtain go p1 out1 where f: "f (p, sh, out) = Some (go, p1, sh, out1)" "early n p1"
    unfolding stays_def by (metis settledE)
  have "settled k sh (run_steps fs (p1, sh, out1))" using assms(2) f(2) unfolding stays_def by blast
  with f early_mono [OF f(2) assms(3)] show "settled k sh (run_steps (f # fs) (p, sh, out))" by simp
qed

lemma run_connect_stays:
  assumes "run_granted io"
  shows "stays n n (run_connect io)"
proof (rule staysI)
  fix p sh out
  assume e: "early n p"
  show "settled n sh (run_connect io (p, sh, out))"
  proof (cases "peer_should_connect (connect_time io) p")
    case True
    obtain r s where c: "buffered_socket_connect \<lparr>opt = 0, socket = -1, wb_nodes = Map.empty, write_buffer_head = None,
        write_buffer_tail = None, read_buffer = [], read_buffer_size = 0,
        last_download_rate_update = c_now1 (connect_calls_io io), last_upload_rate_update = c_now2 (connect_calls_io io)\<rparr>
      (c_fd (connect_calls_io io)) (c_flags (connect_calls_io io)) (c_setfl (connect_calls_io io)) (c_conn (connect_calls_io io))
      (c_einprogress (connect_calls_io io)) = (r, s)" by force
    then have "r \<noteq> - 1" "read_buffer_size s = 0" "write_buffer_head s = None" "write_buffer_tail s = None"
      by (auto simp: buffered_socket_connect_def Let_def split: if_splits)
    with True c assms show ?thesis
      by (simp add: run_connect_def peer_connect_def buffered_socket_new_def run_granted_def early_def)
  qed (use e in \<open>auto simp: run_connect_def\<close>)
qed

lemma run_network_stays:
  assumes "read_malloc act" "1 \<le> free_steps d"
  shows "stays n (n + received act) (run_network test act d)"
proof (rule staysI)
  fix p sh out
  assume e: "early n p"
  obtain r p' sent where "peer_handle_network_buffers act d p = Some (r, p', sent)" "early (n + received act) p'"
    using network_buffers_early [OF e assms] by blast
  with early_mono [OF e, of "n + received act"]
  show "settled (n + received act) sh (run_network test act d (p, sh, out))"
    by (auto simp: run_network_def)
qed

lemma handshake_nonempty: "0 < length (handshake_bytes (handshake_sent ih))" "length ih = 20 \<Longrightarrow> length (handshake_bytes (handshake_sent ih)) = 68"
  by (simp_all add: handshake_bytes_def handshake_sent_def)

lemma run_send_handshake_stays:
  assumes g: "run_granted io" and ih: "length ih = 20"
  shows "stays n n (run_send_handshake io ih)"
proof (rule staysI)
  fix p sh out
  assume e: "early n p"
  show "settled n sh (run_send_handshake io ih (p, sh, out))"
  proof (cases "peer_should_send_handshake (handshake_pollout io) p")
    case False
    with e show ?thesis by (auto simp: run_send_handshake_def)
  next
    case True
    then obtain b where b: "psocket p = Some b" "socket b \<noteq> - 1" "peer_state p = PEER_CONNECTED"
      by (auto simp: peer_should_send_handshake_def buffered_socket_can_write_def split: option.splits if_splits)
    with e have none: "write_buffer_head b = None" "write_buffer_tail b = None" "read_buffer_size b \<le> n" by (simp_all add: early_def)
    obtain node where node: "handshake_write io = (node, True)" using g by (cases "handshake_write io") (simp add: run_granted_def)
    let ?m = "handshake_bytes (handshake_sent ih)"
    show ?thesis
    proof (cases node)
      case None
      obtain p' where "peer_disconnect (handshake_disconnect io) p = Some p'" "early n p'"
        using disconnect_early [OF e, of "handshake_disconnect io"] g by (auto simp: run_granted_def)
      moreover have "peer_send_handshake (handshake_write io) ih p = Some (EXIT_FAILURE, p)"
        using None node b handshake_nonempty(1) [of ih] by (simp add: peer_send_handshake_def peer_write_def buffered_socket_write_def)
      ultimately show ?thesis using True by (simp add: run_send_handshake_def)
    next
      case (Some a)
      let ?w = "\<lparr>data = ?m, data_sent = 0, data_size = length ?m\<rparr>"
      let ?b = "b\<lparr>wb_nodes := (wb_nodes b)(a \<mapsto> (?w, None)), write_buffer_head := Some a, write_buffer_tail := Some a\<rparr>"
      have "peer_send_handshake (handshake_write io) ih p = Some (EXIT_SUCCESS, p\<lparr>psocket := Some ?b, peer_state := PEER_HANDSHAKE_SENT\<rparr>)"
        using Some node b none by (simp add: peer_send_handshake_def peer_write_def buffered_socket_write_def Let_def)
      moreover have "sending ?b [?w]"
        using handshake_nonempty(2) [OF ih] by (auto simp: sending_def linked_def wb_ok_def node_value_def intro!: exI [of _ "[a]"])
      ultimately show ?thesis using True none by (auto simp: run_send_handshake_def early_def intro!: exI [of _ "[?w]"])
    qed
  qed
qed

text \<open>Less than a whole handshake makes the job give the connection up.\<close>

lemma run_handle_handshake_stays:
  assumes "run_granted io" "n < 68"
  shows "stays n n (run_handle_handshake le io ih)"
proof (rule staysI)
  fix p sh out
  assume e: "early n p"
  show "settled n sh (run_handle_handshake le io ih (p, sh, out))"
  proof (cases "peer_should_handle_handshake p")
    case True
    then obtain b where b: "psocket p = Some b" "socket b \<noteq> - 1"
      by (auto simp: peer_should_handle_handshake_def buffered_socket_can_read_def split: option.splits if_splits)
    with e assms(2) have "buffered_socket_read (psocket p) (hs_read_ok io) 68 = (0, [], Some b)"
      by (simp add: buffered_socket_read_def early_def)
    then have "peer_handle_handshake le (hs_read_ok io) (hs_ok io) (hs_malloc io) (hs_write io) ih (torrent_data.data_size (metadata sh)) p
        = Some (EXIT_FAILURE, p)"
      using b(1) by (simp add: peer_handle_handshake_def Let_def)
    moreover obtain p' where "peer_disconnect (hs_disconnect io) p = Some p'" "early n p'"
      using disconnect_early [OF e, of "hs_disconnect io"] assms(1) by (auto simp: run_granted_def)
    ultimately show ?thesis using True by (simp add: run_handle_handshake_def)
  qed (use e in \<open>auto simp: run_handle_handshake_def\<close>)
qed

lemma later_steps_stay:
  "stays n n (run_send_have le io)" "stays n n (run_send_bitfield le io)" "stays n n (run_metadata_request le io)"
  "stays n n (run_request le io)" "stays n n (run_choke le io)" "stays n n (run_read_message le io)" "stays n n (run_keepalive le io)"
  by (auto simp: stays_def early_def run_send_have_def run_send_bitfield_def run_metadata_request_def run_request_def run_choke_def
      run_read_message_def run_keepalive_def peer_should_send_msg_have_def peer_should_send_msg_bitfield_def
      peer_should_send_ut_metadata_request_def peer_should_send_msg_request_def peer_should_read_message_def
      peer_should_send_keepalive_def split: option.splits)

lemma run_timeout_stays:
  assumes "run_granted io"
  shows "stays n n (run_timeout io)"
proof (rule staysI)
  fix p sh out
  assume e: "early n p"
  obtain p' where "peer_disconnect (timeout_disconnect io) p = Some p'" "early n p'"
    using disconnect_early [OF e, of "timeout_disconnect io"] assms by (auto simp: run_granted_def)
  with e show "settled n sh (run_timeout io (p, sh, out))"
    by (auto simp: run_timeout_def)
qed

lemma peer_run_steps_stay:
  assumes g: "run_granted io" and ih: "length ih = 20" and m: "n + received (network1_act io) < 68"
  shows "stays n (n + received (network1_act io) + received (network2_act io)) (run_steps (peer_run_steps le io ih))"
proof -
  have g': "read_malloc (network1_act io)" "read_malloc (network2_act io)" "1 \<le> free_steps (network1_disconnect io)"
    "1 \<le> free_steps (network2_disconnect io)" using g by (simp_all add: run_granted_def)
  note steps = run_connect_stays [OF g] run_network_stays [OF g'(1,3)] run_send_handshake_stays [OF g ih]
    run_handle_handshake_stays [OF g m] later_steps_stay run_timeout_stays [OF g] run_network_stays [OF g'(2,4)]
  show ?thesis
    unfolding peer_run_steps_def
    by (rule run_steps_Cons_stays, rule steps(1), (rule run_steps_Cons_stays, rule steps)+, rule run_steps_Nil_stays) simp_all
qed

subsection \<open>The whole job\<close>

text \<open>
  C5: until the handshake of the peer has arrived, a run of the job of a peer always returns, whatever the
  network does (errors, hang-ups, partial sends, fewer bytes than a handshake): no step of it is undefined
  and no loop of it is left unfinished. It changes nothing the threads share, keeps the invariant
  of the peer (a socket exactly when it is not unconnected, flags that are flags, at most ten pending
  requests), clears \<open>running\<close>, and when it fails it leaves the peer disconnected. The
  hypotheses are: the peer keeps its invariant and is before its handshake with at most \<open>n\<close> unread bytes; the
  memory the run asks for is granted; the info hash has 20 bytes; and the unread bytes with those that
  the first network step receives are fewer than the 68 of a handshake.
\<close>

theorem peer_run_returns:
  assumes "peer_ok p" "early n p" "run_granted io" "length info_hash = 20" "n + received (network1_act io) < 68"
  shows "\<exists>r p' out. peer_run le io info_hash sh p = Some (r, p', sh, out) \<and> peer_ok p' \<and> running p' = 0
    \<and> peer_state p' \<noteq> PEER_HANDSHAKE_COMPLETE \<and> (r = EXIT_SUCCESS \<or> r = EXIT_FAILURE \<and> disconnected p')"
proof -
  have "settled (n + received (network1_act io) + received (network2_act io)) sh (run_steps (peer_run_steps le io info_hash) (p, sh, []))"
    using peer_run_steps_stay [OF assms(3-5)] assms(2) unfolding stays_def by blast
  then obtain go p1 out where "run_steps (peer_run_steps le io info_hash) (p, sh, []) = Some (go, p1, sh, out)"
    and e: "early (n + received (network1_act io) + received (network2_act io)) p1" by (rule settledE)
  then have run: "peer_run le io info_hash sh p = Some (if go then EXIT_SUCCESS else EXIT_FAILURE, p1\<lparr>running := 0\<rparr>, sh, out)"
    by (simp add: peer_run_def)
  from peer_run_keeps [OF assms(1) run] run e show ?thesis by (simp add: early_def)
qed

text \<open>A new peer: the run connects and sends the handshake.\<close>

theorem peer_run_returns_witness:
  "peer_ok demo_new_peer \<and> early 0 demo_new_peer \<and> run_granted demo_run_io
   \<and> (\<exists>r p' out. peer_run True demo_run_io (replicate 20 7) demo_shared demo_new_peer = Some (r, p', demo_shared, out)
        \<and> peer_ok p' \<and> running p' = 0)"
proof -
  have p: "peer_ok demo_new_peer" "early 0 demo_new_peer"
    by (simp_all add: demo_new_peer_def demo_peer_def peer_reset_def peer_ok_def early_def)
  have io: "run_granted demo_run_io" "received (network1_act demo_run_io) = 0"
    by (simp_all add: run_granted_def received_def demo_run_io_def idle_net_def demo_disconnect_def)
  from peer_run_returns [OF p io(1), of "replicate 20 7" True demo_shared] p io show ?thesis by auto
qed

end
