(* ===== verification/Uvg_ThreadPool.thy ===== *)
theory Uvg_ThreadPool
  imports Uvg_Queue Uvg_HashMap
begin

text \<open>
  The thread pool of \<^verbatim>\<open>src/src/thread_pool/thread_pool.c\<close> and \<^verbatim>\<open>job.c\<close>: worker threads that
  sleep on a counting semaphore and take jobs from the shared queue, and the main thread that adds jobs
  and finally shuts the pool down.

  \<open>thread_handle\<close> is the body of a worker, cut at its accesses to shared state (the cancel flag, the
  semaphore and the mutex-protected queue operations); \<open>pool_step\<close> interleaves the workers with the
  operations of the main thread, which is cut the same way. The state carries the history of the jobs
  that were added, started, finished and dropped. A job stands for the call it makes; what the
  call does to the torrent is the subject of the other theories.
\<close>

subsection \<open>Jobs\<close>

abbreviation (input) MAX_JOB_ARGS :: int where "MAX_JOB_ARGS \<equiv> 7"

record ('f, 'a) job =
  execute :: 'f
  arg_count :: int
  args :: "'a list"

text \<open>\<open>job_new\<close>: NULL when there are too many arguments or memory is short. The caller passes an array
  of \<open>arg_count\<close> arguments; a shorter one is read past its end.\<close>

definition job_free :: "('f, 'a) job option \<Rightarrow> ('f, 'a) job option" where
  "job_free j = None"

definition job_new :: "bool \<Rightarrow> 'f \<Rightarrow> int \<Rightarrow> 'a list \<Rightarrow> ('f, 'a) job option option" where
  "job_new malloc_ok f n xs =
     (if n > MAX_JOB_ARGS then Some (job_free None)
      else if \<not> malloc_ok then Some (job_free None)
      else if n \<noteq> 0 \<and> (n < 0 \<or> int (length xs) < n) then None
      else Some (Some \<lparr>execute = f, arg_count = n, args = take (nat n) xs\<rparr>))"

text \<open>The arguments are handed over one by one, in order; \<open>call\<close> is the call of a function pointer.\<close>

definition job_execute :: "('f \<Rightarrow> 'a list \<Rightarrow> status) \<Rightarrow> ('f, 'a) job \<Rightarrow> status" where
  "job_execute call j =
     (if 0 \<le> arg_count j \<and> arg_count j \<le> MAX_JOB_ARGS then call (execute j) (take (nat (arg_count j)) (args j))
      else EXIT_FAILURE)"

subsection \<open>The pool\<close>

record 'j pool =
  cancel_flag :: int
  working_threads :: int
  thread_count :: int
  max_threads :: int
  job_semaphore :: nat
  job_queue :: "'j queue"

text \<open>\<open>thread_pool_new\<close>; when the pool cannot be allocated \<open>thread_pool_free\<close> returns NULL, and when
  its queue cannot, \<open>queue_new\<close> is undefined.\<close>

definition thread_pool_new :: "bool \<Rightarrow> bool \<Rightarrow> int \<Rightarrow> 'j pool option option" where
  "thread_pool_new malloc_ok queue_ok n =
     (if \<not> malloc_ok then Some None
      else do {
        q \<leftarrow> queue_new queue_ok;
        q \<leftarrow> q;
        Some (Some \<lparr>cancel_flag = 0, working_threads = 0, thread_count = 0, max_threads = n,
          job_semaphore = 0, job_queue = q\<rparr>)
      })"

definition sem_post :: "'j pool \<Rightarrow> 'j pool" where
  "sem_post p = p\<lparr>job_semaphore := job_semaphore p + 1\<rparr>"

datatype 'j worker = WTest | WWait | WCount | WPop | WRun 'j | WExit

text \<open>A worker is blocked in \<open>sem_wait\<close> while the semaphore is zero.\<close>

primrec blocked :: "'j worker \<Rightarrow> 'j pool \<Rightarrow> bool" where
  "blocked WTest p = False"
| "blocked WWait p = (job_semaphore p = 0)"
| "blocked WCount p = False"
| "blocked WPop p = False"
| "blocked (WRun j) p = False"
| "blocked WExit p = True"

primrec thread_handle :: "'j worker \<Rightarrow> 'j pool \<Rightarrow> ('j worker \<times> 'j pool) option" where
  "thread_handle WTest p = Some (if cancel_flag p \<noteq> 1 then WWait else WExit, p)"
| "thread_handle WWait p = Some (WCount, p\<lparr>job_semaphore := job_semaphore p - 1\<rparr>)"
| "thread_handle WCount p = Some (if queue_get_count (job_queue p) > 0 then WPop else WTest, p)"
| "thread_handle WPop p = do {
     (j, q) \<leftarrow> queue_pop (job_queue p);
     Some (case j of None \<Rightarrow> WTest | Some j \<Rightarrow> WRun j, p\<lparr>job_queue := q\<rparr>)
   }"
| "thread_handle (WRun j) p = Some (WTest, p)"
| "thread_handle WExit p = Some (WExit, p)"

text \<open>\<open>thread_pool_add_job\<close> in its three parts: start one more thread while there are fewer than the
  maximum, push the job, raise the semaphore. The flag says that a thread was started.\<close>

definition start_thread :: "bool \<Rightarrow> 'j pool \<Rightarrow> (bool \<times> 'j pool) option" where
  "start_thread create_ok p =
     (if thread_count p < max_threads p
      then if create_ok then Some (True, p\<lparr>thread_count := thread_count p + 1\<rparr>) else None
      else Some (False, p))"

definition push_job :: "addr option \<Rightarrow> 'j \<Rightarrow> 'j pool \<Rightarrow> (status \<times> 'j pool) option" where
  "push_job node j p = map_option (\<lambda>(r, q). (r, p\<lparr>job_queue := q\<rparr>)) (queue_push (job_queue p) node j)"

definition thread_pool_add_job :: "bool \<Rightarrow> addr option \<Rightarrow> 'j \<Rightarrow> 'j pool \<Rightarrow> (status \<times> 'j pool) option" where
  "thread_pool_add_job create_ok node j p = (case start_thread create_ok p of
      None \<Rightarrow> Some (EXIT_FAILURE, p)
    | Some (_, p) \<Rightarrow> map_option (\<lambda>(r, p). (r, sem_post p)) (push_job node j p))"

subsection \<open>Interleaving\<close>

text \<open>Where the main thread is: between calls, inside \<open>thread_pool_add_job\<close> before the push and before
  the post, inside \<open>thread_pool_free\<close> with posts to go, joining, draining, or done.\<close>

datatype 'j main = MIdle | MPush 'j | MPost | MSignal nat | MDrain | MDone

record 'j sys =
  pool :: "'j pool"
  workers :: "'j worker list"
  main :: "'j main"
  added :: "'j list"
  started :: "'j list"
  finished :: "'j list"
  dropped :: "'j list"

text \<open>A successful \<open>malloc\<close> returns an address that is not in use.\<close>

definition node_fresh :: "addr option \<Rightarrow> 'j queue \<Rightarrow> bool" where
  "node_fresh node q \<longleftrightarrow> (\<forall>a. node = Some a \<longrightarrow> fresh_in (nodes q) a)"

text \<open>The job a worker holds; entering \<open>WRun j\<close> starts \<open>j\<close> and leaving it finishes \<open>j\<close>.\<close>

primrec note_start :: "'j worker \<Rightarrow> 'j list" where
  "note_start WTest = []"
| "note_start WWait = []"
| "note_start WCount = []"
| "note_start WPop = []"
| "note_start (WRun j) = [j]"
| "note_start WExit = []"

inductive pool_step :: "'j sys \<Rightarrow> 'j sys \<Rightarrow> bool" where
  worker: "k < length (workers s) \<Longrightarrow> w = workers s ! k \<Longrightarrow> \<not> blocked w (pool s) \<Longrightarrow>
    thread_handle w (pool s) = Some (w', p') \<Longrightarrow>
    pool_step s (s\<lparr>pool := p', workers := (workers s)[k := w'],
      started := started s @ note_start w', finished := finished s @ note_start w\<rparr>)"
| add_start: "main s = MIdle \<Longrightarrow> start_thread True (pool s) = Some (new, p') \<Longrightarrow>
    pool_step s (s\<lparr>pool := p', workers := (if new then workers s @ [WTest] else workers s), main := MPush j\<rparr>)"
| add_push: "main s = MPush j \<Longrightarrow> node_fresh node (job_queue (pool s)) \<Longrightarrow>
    push_job node j (pool s) = Some (r, p') \<Longrightarrow>
    pool_step s (s\<lparr>pool := p', main := MPost, added := (if r = EXIT_SUCCESS then added s @ [j] else added s)\<rparr>)"
| add_post: "main s = MPost \<Longrightarrow> pool_step s (s\<lparr>pool := sem_post (pool s), main := MIdle\<rparr>)"
| free_cancel: "main s = MIdle \<Longrightarrow>
    pool_step s (s\<lparr>pool := (pool s)\<lparr>cancel_flag := 1\<rparr>, main := MSignal (nat (thread_count (pool s)))\<rparr>)"
| free_post: "main s = MSignal (Suc n) \<Longrightarrow> pool_step s (s\<lparr>pool := sem_post (pool s), main := MSignal n\<rparr>)"
| free_join: "main s = MSignal 0 \<Longrightarrow> \<forall>w \<in> set (workers s). w = WExit \<Longrightarrow> pool_step s (s\<lparr>main := MDrain\<rparr>)"
| free_drain: "main s = MDrain \<Longrightarrow> queue_drain (job_queue (pool s)) = Some (js, q') \<Longrightarrow>
    pool_step s (s\<lparr>pool := (pool s)\<lparr>job_queue := q'\<rparr>, main := MDone, dropped := dropped s @ map the (filter (\<lambda>j. j \<noteq> None) js)\<rparr>)"

definition new_sys :: "int \<Rightarrow> 'j sys" where
  "new_sys n = \<lparr>pool = \<lparr>cancel_flag = 0, working_threads = 0, thread_count = 0, max_threads = n, job_semaphore = 0,
       job_queue = \<lparr>nodes = Map.empty, count = 0, head = None, tail = None\<rparr>\<rparr>,
     workers = [], main = MIdle, added = [], started = [], finished = [], dropped = []\<rparr>"

abbreviation reachable :: "int \<Rightarrow> 'j sys \<Rightarrow> bool" where
  "reachable n s \<equiv> pool_step\<^sup>*\<^sup>* (new_sys n) s"

text \<open>The three steps of the main thread, taken without interruption, are \<open>thread_pool_add_job\<close>.\<close>

lemma add_job_steps:
  assumes "main s = MIdle" "thread_pool_add_job True node j (pool s) = Some (r, p')"
    "node_fresh node (job_queue (pool s))"
  shows "\<exists>s'. pool_step\<^sup>*\<^sup>* s s' \<and> pool s' = p' \<and> main s' = MIdle"
proof -
  from assms(2) obtain new p1 p2 where
    p: "start_thread True (pool s) = Some (new, p1)" "push_job node j p1 = Some (r, p2)" "p' = sem_post p2"
    by (auto simp: thread_pool_add_job_def start_thread_def split: if_splits)
  from p(1) have q1: "job_queue p1 = job_queue (pool s)" by (auto simp: start_thread_def split: if_splits)
  obtain s1 where s1: "pool_step s s1" "pool s1 = p1" "main s1 = MPush j"
    using add_start [OF assms(1) p(1), of j] by force
  obtain s2 where s2: "pool_step s1 s2" "pool s2 = p2" "main s2 = MPost"
    using add_push [OF s1(3), of node r p2] assms(3) q1 p(2) s1(2) by force
  obtain s3 where "pool_step s2 s3" "pool s3 = p'" "main s3 = MIdle"
    using add_post [OF s2(3)] s2(2) p(3) by force
  moreover have "pool_step\<^sup>*\<^sup>* s s3" if "pool_step s2 s3" for s3
    using s1(1) s2(1) that by (auto intro: rtranclp.rtrancl_into_rtrancl)
  ultimately show ?thesis by blast
qed

subsection \<open>The invariant\<close>

primrec is_waiting :: "'j worker \<Rightarrow> bool" where
  "is_waiting WTest = False"
| "is_waiting WWait = True"
| "is_waiting WCount = False"
| "is_waiting WPop = False"
| "is_waiting (WRun j) = False"
| "is_waiting WExit = False"

text \<open>A worker is awake when it has passed the semaphore and not yet taken a job.\<close>

primrec is_awake :: "'j worker \<Rightarrow> bool" where
  "is_awake WTest = False"
| "is_awake WWait = False"
| "is_awake WCount = True"
| "is_awake WPop = True"
| "is_awake (WRun j) = False"
| "is_awake WExit = False"

definition num :: "('j worker \<Rightarrow> bool) \<Rightarrow> 'j sys \<Rightarrow> nat" where
  "num P s = length (filter P (workers s))"

definition held :: "'j sys \<Rightarrow> 'j list" where
  "held s = concat (map note_start (workers s))"

definition jobs_ok :: "'j sys \<Rightarrow> bool" where
  "jobs_ok s \<longleftrightarrow> (\<exists>xs. queue_rep (job_queue (pool s)) xs \<and> started s @ xs @ dropped s = added s
     \<and> (main s \<noteq> MDone \<longrightarrow> dropped s = [])
     \<and> length xs \<le> job_semaphore (pool s) + num is_awake s + (if main s = MPost then 1 else 0))
     \<and> mset (started s) = mset (finished s) + mset (held s)"

definition threads_ok :: "'j sys \<Rightarrow> bool" where
  "threads_ok s \<longleftrightarrow> thread_count (pool s) = int (length (workers s))
     \<and> (case main s of
          MIdle \<Rightarrow> cancel_flag (pool s) = 0 \<and> WExit \<notin> set (workers s)
            \<and> (added s \<noteq> [] \<longrightarrow> workers s \<noteq> [] \<or> max_threads (pool s) \<le> 0)
        | MPush j \<Rightarrow> cancel_flag (pool s) = 0 \<and> WExit \<notin> set (workers s) \<and> (workers s \<noteq> [] \<or> max_threads (pool s) \<le> 0)
        | MPost \<Rightarrow> cancel_flag (pool s) = 0 \<and> WExit \<notin> set (workers s) \<and> (workers s \<noteq> [] \<or> max_threads (pool s) \<le> 0)
        | MSignal n \<Rightarrow> cancel_flag (pool s) = 1 \<and> num is_waiting s \<le> job_semaphore (pool s) + n
        | MDrain \<Rightarrow> cancel_flag (pool s) = 1 \<and> (\<forall>w \<in> set (workers s). w = WExit)
        | MDone \<Rightarrow> cancel_flag (pool s) = 1 \<and> (\<forall>w \<in> set (workers s). w = WExit))"

lemma length_filter_update:
  assumes "k < length ws"
  shows "length (filter P (ws[k := w])) + of_bool (P (ws ! k)) = length (filter P ws) + of_bool (P w)"
proof -
  have "ws = take k ws @ ws ! k # drop (Suc k) ws" using assms by (rule id_take_nth_drop)
  then have "length (filter P ws) = length (filter P (take k ws @ ws ! k # drop (Suc k) ws))" by simp
  with assms show ?thesis by (simp add: upd_conv_take_nth_drop)
qed

lemma num_update:
  "k < length (workers s) \<Longrightarrow>
    num P (s\<lparr>pool := p, workers := (workers s)[k := w], started := a, finished := b\<rparr>) + of_bool (P (workers s ! k))
    = num P s + of_bool (P w)"
  by (simp add: num_def length_filter_update)

lemma num_pos: "k < length (workers s) \<Longrightarrow> P (workers s ! k) \<Longrightarrow> 0 < num P s"
  by (auto simp: num_def filter_empty_conv)

lemma held_update:
  assumes "k < length (workers s)"
  shows "mset (held (s\<lparr>pool := p, workers := (workers s)[k := w], started := a, finished := b\<rparr>)) + mset (note_start (workers s ! k))
    = mset (held s) + mset (note_start w)"
  using mset_concat_update [of k "map note_start (workers s)" "note_start w"] assms
  by (simp add: held_def map_update)

lemma worker_jobs_ok:
  assumes ok: "jobs_ok s" and k: "k < length (workers s)" "\<not> blocked (workers s ! k) (pool s)"
    and step: "thread_handle (workers s ! k) (pool s) = Some (w', p')"
  shows "jobs_ok (s\<lparr>pool := p', workers := (workers s)[k := w'],
    started := started s @ note_start w', finished := finished s @ note_start (workers s ! k)\<rparr>)" (is "jobs_ok ?s")
proof -
  let ?w = "workers s ! k"
  from ok obtain xs where xs: "queue_rep (job_queue (pool s)) xs" "started s @ xs @ dropped s = added s"
    "main s \<noteq> MDone \<longrightarrow> dropped s = []"
    "length xs \<le> job_semaphore (pool s) + num is_awake s + (if main s = MPost then 1 else 0)"
    and ms: "mset (started s) = mset (finished s) + mset (held s)"
    by (auto simp: jobs_ok_def)
  have awake: "num is_awake ?s + of_bool (is_awake ?w) = num is_awake s + of_bool (is_awake w')"
    by (rule num_update [OF k(1)])
  have "mset (held ?s) + mset (note_start ?w) = mset (held s) + mset (note_start w')"
    by (rule held_update [OF k(1)])
  with ms have held: "mset (started s @ note_start w') = mset (finished s @ note_start ?w) + mset (held ?s)"
    by (simp add: ac_simps)
  have "\<exists>ys. queue_rep (job_queue p') ys \<and> started s @ note_start w' @ ys @ dropped s = added s
    \<and> length ys + of_bool (is_awake ?w) \<le> job_semaphore p' + (num is_awake s + of_bool (is_awake w')) + (if main s = MPost then 1 else 0)"
  proof (cases ?w)
    case WWait
    with step k(2) xs show ?thesis by (intro exI [of _ xs]) auto
  next
    case WCount
    with step xs num_pos [OF k(1), of is_awake] show ?thesis
      by (intro exI [of _ xs]) (auto simp: qi.size_law split: if_splits)
  next
    case WPop
    show ?thesis
    proof (cases xs)
      case Nil
      with WPop step xs qi.pop_empty [of "job_queue (pool s)"] num_pos [OF k(1), of is_awake] show ?thesis
        by (intro exI [of _ "[]"]) (auto simp: pool.defs)
    next
      case (Cons j ys)
      with xs(1) qi.pop_law [of "job_queue (pool s)" j ys] obtain q' where
        "queue_pop (job_queue (pool s)) = Some (Some j, q')" "queue_rep q' ys" by auto
      with WPop step xs Cons show ?thesis by (intro exI [of _ ys]) auto
    qed
  qed (use step xs in \<open>auto intro!: exI [of _ xs]\<close>)
  with awake held xs(3) show ?thesis unfolding jobs_ok_def by auto
qed

lemma worker_threads_ok:
  assumes ok: "threads_ok s" and k: "k < length (workers s)" "\<not> blocked (workers s ! k) (pool s)"
    and step: "thread_handle (workers s ! k) (pool s) = Some (w', p')"
  shows "threads_ok (s\<lparr>pool := p', workers := (workers s)[k := w'],
    started := started s @ note_start w', finished := finished s @ note_start (workers s ! k)\<rparr>)" (is "threads_ok ?s")
proof -
  let ?w = "workers s ! k"
  have same: "cancel_flag p' = cancel_flag (pool s)" "thread_count p' = thread_count (pool s)" "max_threads p' = max_threads (pool s)"
    using step by (cases ?w; auto simp: in_set_bind_option split: option.splits)+
  have exit: "w' = WExit \<Longrightarrow> cancel_flag (pool s) = 1"
    using step k(2) by (cases ?w) (auto simp: in_set_bind_option split: option.splits if_splits)
  have wait: "num is_waiting ?s + of_bool (is_waiting ?w) = num is_waiting s + of_bool (is_waiting w')"
    by (rule num_update [OF k(1)])
  have sem: "job_semaphore p' + of_bool (is_waiting ?w) = job_semaphore (pool s)"
    using step k(2) by (cases ?w) (auto simp: in_set_bind_option split: option.splits)
  have new: "cancel_flag (pool s) = 1 \<Longrightarrow> \<not> is_waiting w'"
    using step k(2) by (cases ?w) (auto simp: in_set_bind_option split: option.splits if_splits)
  have "\<not> (\<forall>w \<in> set (workers s). w = WExit)" using k nth_mem [OF k(1)] by (metis blocked.simps(6))
  with ok same exit wait sem new show ?thesis
    by (auto simp: threads_ok_def split: main.splits dest: set_update_subset_insert [THEN subsetD])
qed

definition sys_ok :: "int \<Rightarrow> 'j sys \<Rightarrow> bool" where
  "sys_ok n s \<longleftrightarrow> jobs_ok s \<and> threads_ok s \<and> max_threads (pool s) = n"

lemma new_sys_ok: "sys_ok n (new_sys n)"
  by (auto simp: sys_ok_def jobs_ok_def threads_ok_def new_sys_def held_def queue_rep_def linked_empty)

lemma add_start_ok:
  assumes ok: "sys_ok n s" and idle: "main s = MIdle" and start: "start_thread True (pool s) = Some (new, p')"
  shows "sys_ok n (s\<lparr>pool := p', workers := (if new then workers s @ [WTest] else workers s), main := MPush j\<rparr>)"
    (is "sys_ok n ?s")
proof -
  have p': "job_queue p' = job_queue (pool s)" "job_semaphore p' = job_semaphore (pool s)" "cancel_flag p' = cancel_flag (pool s)"
    "max_threads p' = max_threads (pool s)"
    "thread_count p' = thread_count (pool s) + (if new then 1 else 0)" "\<not> new \<longrightarrow> max_threads (pool s) \<le> thread_count (pool s)"
    using start by (auto simp: start_thread_def split: if_splits)
  have "num is_awake ?s = num is_awake s" "held ?s = held s" by (auto simp: num_def held_def)
  with ok idle p' have "jobs_ok ?s" by (auto simp: sys_ok_def jobs_ok_def)
  moreover have "threads_ok ?s" using ok idle p' by (auto simp: sys_ok_def threads_ok_def)
  ultimately show ?thesis using ok p'(4) by (simp add: sys_ok_def)
qed

lemma add_push_ok:
  assumes ok: "sys_ok n s" and pc: "main s = MPush j" and node: "node_fresh node (job_queue (pool s))"
    and push: "push_job node j (pool s) = Some (r, p')"
  shows "sys_ok n (s\<lparr>pool := p', main := MPost, added := (if r = EXIT_SUCCESS then added s @ [j] else added s)\<rparr>)"
    (is "sys_ok n ?s")
proof -
  from ok pc obtain xs where xs: "queue_rep (job_queue (pool s)) xs" "started s @ xs = added s" "dropped s = []"
    "length xs \<le> job_semaphore (pool s) + num is_awake s" "mset (started s) = mset (finished s) + mset (held s)"
    by (auto simp: sys_ok_def jobs_ok_def)
  from push obtain q' where q': "queue_push (job_queue (pool s)) node j = Some (r, q')" "p' = (pool s)\<lparr>job_queue := q'\<rparr>"
    by (auto simp: push_job_def)
  have "\<exists>ys. queue_rep q' ys \<and> started s @ ys = (if r = EXIT_SUCCESS then added s @ [j] else added s) \<and> length ys \<le> Suc (length xs)"
  proof (cases node)
    case None
    with q'(1) xs show ?thesis by (auto simp: qi.push_fail)
  next
    case (Some a)
    with node xs(1) q'(1) qi.push_law [of "job_queue (pool s)" xs a j] have "r = EXIT_SUCCESS" "queue_rep q' (xs @ [j])"
      by (auto simp: node_fresh_def)
    with xs(2) show ?thesis by (intro exI [of _ "xs @ [j]"]) auto
  qed
  then obtain ys where "queue_rep q' ys" "started s @ ys = (if r = EXIT_SUCCESS then added s @ [j] else added s)"
    "length ys \<le> Suc (length xs)" by blast
  with xs q'(2) have "jobs_ok ?s" unfolding jobs_ok_def num_def held_def by (intro conjI exI [of _ ys]) auto
  moreover have "threads_ok ?s" using ok pc q'(2) by (auto simp: sys_ok_def threads_ok_def)
  ultimately show ?thesis using ok q'(2) by (simp add: sys_ok_def)
qed

lemma free_drain_ok:
  assumes ok: "sys_ok n s" and pc: "main s = MDrain" and drain: "queue_drain (job_queue (pool s)) = Some (js, q')"
  shows "sys_ok n (s\<lparr>pool := (pool s)\<lparr>job_queue := q'\<rparr>, main := MDone, dropped := dropped s @ map the (filter (\<lambda>j. j \<noteq> None) js)\<rparr>)"
    (is "sys_ok n ?s")
proof -
  from ok pc obtain xs where xs: "queue_rep (job_queue (pool s)) xs" "started s @ xs = added s" "dropped s = []"
    "mset (started s) = mset (finished s) + mset (held s)"
    by (auto simp: sys_ok_def jobs_ok_def)
  from queue_drain_run [OF xs(1)] drain have js: "js = map Some xs" "queue_rep q' []" by auto
  have "map the (filter (\<lambda>j. j \<noteq> None) js) = xs" by (simp add: js(1) filter_map o_def)
  with xs js(2) have "jobs_ok ?s" unfolding jobs_ok_def num_def held_def by (intro conjI exI [of _ "[]"]) auto
  moreover have "threads_ok ?s" using ok pc by (auto simp: sys_ok_def threads_ok_def)
  ultimately show ?thesis using ok by (simp add: sys_ok_def)
qed

lemma thread_handle_max: "thread_handle w p = Some (w', p') \<Longrightarrow> max_threads p' = max_threads p"
  by (cases w) (auto simp: in_set_bind_option)

lemma pool_step_ok: "pool_step s s' \<Longrightarrow> sys_ok n s \<Longrightarrow> sys_ok n s'"
proof (induction rule: pool_step.induct)
  case (worker k s w w' p')
  then show ?case
    using worker_jobs_ok [of s k w' p'] worker_threads_ok [of s k w' p'] thread_handle_max [of w "pool s" w' p']
    by (auto simp: sys_ok_def)
next
  case (add_post s)
  then show ?case by (auto simp: sys_ok_def jobs_ok_def threads_ok_def sem_post_def num_def held_def)
next
  case (free_cancel s)
  have "length (filter is_waiting (workers s)) \<le> job_semaphore (pool s) + length (workers s)"
    by (simp add: trans_le_add2)
  with free_cancel show ?case by (auto simp: sys_ok_def jobs_ok_def threads_ok_def num_def held_def)
next
  case (free_post s n)
  then show ?case by (auto simp: sys_ok_def jobs_ok_def threads_ok_def sem_post_def num_def held_def)
next
  case (free_join s)
  then show ?case by (auto simp: sys_ok_def jobs_ok_def threads_ok_def num_def held_def)
qed (blast intro: add_start_ok add_push_ok free_drain_ok)+

lemma reachable_ok: "reachable n s \<Longrightarrow> sys_ok n s"
  by (induction rule: rtranclp_induct) (auto intro: new_sys_ok pool_step_ok)

subsection \<open>Progress\<close>

primrec worker_rank :: "'j worker \<Rightarrow> nat" where
  "worker_rank WExit = 0"
| "worker_rank WTest = 1"
| "worker_rank (WRun j) = 2"
| "worker_rank WPop = 3"
| "worker_rank WCount = 4"
| "worker_rank WWait = 5"

primrec main_rank :: "'j main \<Rightarrow> nat" where
  "main_rank MIdle = 0"
| "main_rank (MPush j) = 0"
| "main_rank MPost = 0"
| "main_rank (MSignal n) = n + 2"
| "main_rank MDrain = 1"
| "main_rank MDone = 0"

text \<open>The number of steps a shutdown can still take.\<close>

definition shutdown_work :: "'j sys \<Rightarrow> nat" where
  "shutdown_work s = sum_list (map worker_rank (workers s)) + main_rank (main s)"

lemma thread_handle_rank:
  "thread_handle w p = Some (w', p') \<Longrightarrow> \<not> blocked w p \<Longrightarrow> cancel_flag p = 1 \<Longrightarrow> worker_rank w' < worker_rank w \<and> cancel_flag p' = 1"
  by (cases w) (auto simp: in_set_bind_option split: option.splits if_splits)

lemma sum_list_update_less:
  fixes f :: "'a \<Rightarrow> nat"
  assumes "k < length xs" "f y < f (xs ! k)"
  shows "sum_list (map f (xs[k := y])) < sum_list (map f xs)"
proof -
  have "xs = take k xs @ xs ! k # drop (Suc k) xs" using assms(1) by (rule id_take_nth_drop)
  then have "sum_list (map f xs) = sum_list (map f (take k xs @ xs ! k # drop (Suc k) xs))" by simp
  with assms show ?thesis by (simp add: upd_conv_take_nth_drop)
qed

lemma shutdown_step:
  "pool_step s s' \<Longrightarrow> threads_ok s \<Longrightarrow> cancel_flag (pool s) = 1 \<Longrightarrow>
    shutdown_work s' < shutdown_work s \<and> cancel_flag (pool s') = 1"
proof (induction rule: pool_step.induct)
  case (worker k s w w' p')
  then have "worker_rank w' < worker_rank (workers s ! k)" "cancel_flag p' = 1"
    using thread_handle_rank [of w "pool s" w' p'] by auto
  with worker(1) sum_list_update_less [of k "workers s" worker_rank w'] show ?case
    by (simp add: shutdown_work_def)
qed (auto simp: threads_ok_def shutdown_work_def sem_post_def)

lemma shutdown_steps:
  "(pool_step ^^ k) s s' \<Longrightarrow> sys_ok n s \<Longrightarrow> cancel_flag (pool s) = 1 \<Longrightarrow>
    k + shutdown_work s' \<le> shutdown_work s \<and> cancel_flag (pool s') = 1 \<and> sys_ok n s'"
proof (induction k arbitrary: s')
  case (Suc k)
  then obtain t where t: "(pool_step ^^ k) s t" "pool_step t s'" by auto
  with Suc have "k + shutdown_work t \<le> shutdown_work s" "cancel_flag (pool t) = 1" "sys_ok n t" by auto
  with shutdown_step [OF t(2)] pool_step_ok [OF t(2)] show ?case by (auto simp: sys_ok_def)
qed simp

lemma thread_handle_defined: "queue_rep (job_queue p) xs \<Longrightarrow> \<exists>w' p'. thread_handle w p = Some (w', p')"
proof -
  assume xs: "queue_rep (job_queue p) xs"
  then have "\<exists>j q. queue_pop (job_queue p) = Some (j, q)"
    using qi.pop_empty [of "job_queue p"] qi.pop_law [of "job_queue p" "hd xs" "tl xs"] by (cases xs) auto
  then show ?thesis by (cases w) auto
qed

lemma blocked_iff: "blocked w p \<longleftrightarrow> w = WExit \<or> w = WWait \<and> job_semaphore p = 0"
  by (cases w) auto

lemma awake_not_blocked: "is_awake w \<Longrightarrow> \<not> blocked w p"
  by (cases w) auto

lemma worker_can_step:
  assumes "sys_ok n s" "w \<in> set (workers s)" "\<not> blocked w (pool s)"
  shows "\<exists>s'. pool_step s s'"
proof -
  from assms obtain k xs where "k < length (workers s)" "workers s ! k = w" "queue_rep (job_queue (pool s)) xs"
    by (auto simp: sys_ok_def jobs_ok_def in_set_conv_nth)
  with assms(3) thread_handle_defined [of "pool s" xs w] show ?thesis by (metis worker)
qed

lemma shutdown_not_stuck:
  assumes ok: "sys_ok n s" and cancel: "cancel_flag (pool s) = 1" and go: "main s \<noteq> MDone"
  shows "\<exists>s'. pool_step s s'"
proof (cases "main s")
  case (MSignal m)
  show ?thesis
  proof (cases m)
    case 0
    show ?thesis
    proof (cases "\<forall>w \<in> set (workers s). w = WExit")
      case False
      then obtain w where w: "w \<in> set (workers s)" "w \<noteq> WExit" by blast
      have "\<not> blocked w (pool s)"
      proof
        assume "blocked w (pool s)"
        with w(2) have "w = WWait" "job_semaphore (pool s) = 0" by (simp_all add: blocked_iff)
        moreover from ok MSignal 0 have "num is_waiting s \<le> job_semaphore (pool s)" by (simp add: sys_ok_def threads_ok_def)
        ultimately show False using w(1) by (auto simp: num_def filter_empty_conv)
      qed
      with worker_can_step [OF ok w(1)] show ?thesis .
    qed (use MSignal 0 in \<open>blast intro: free_join\<close>)
  qed (use MSignal in \<open>blast intro: free_post\<close>)
next
  case MDrain
  from ok obtain xs where "queue_rep (job_queue (pool s)) xs" by (auto simp: sys_ok_def jobs_ok_def)
  from queue_drain_run [OF this] MDrain show ?thesis by (blast intro: free_drain)
qed (use ok cancel go in \<open>auto simp: sys_ok_def threads_ok_def\<close>)

subsection \<open>Properties\<close>

text \<open>A pool of two threads to which one job has been added.\<close>

definition demo_pool :: "string pool" where
  "demo_pool = \<lparr>cancel_flag = 0, working_threads = 0, thread_count = 1, max_threads = 2, job_semaphore = 1,
     job_queue = \<lparr>nodes = [3 \<mapsto> (''a'', None)], count = 1, head = Some 3, tail = Some 3\<rparr>\<rparr>"

definition demo_sys :: "string sys" where
  "demo_sys = \<lparr>pool = demo_pool, workers = [WTest], main = MIdle, added = [''a''], started = [], finished = [], dropped = []\<rparr>"

definition demo_cancelled :: "string sys" where
  "demo_cancelled = demo_sys\<lparr>pool := demo_pool\<lparr>cancel_flag := 1\<rparr>, main := MSignal 1\<rparr>"

lemma demo_reachable: "reachable 2 demo_sys"
proof -
  let ?p0 = "pool (new_sys 2) :: string pool"
  let ?p1 = "?p0\<lparr>thread_count := 1\<rparr>"
  let ?s1 = "(new_sys 2 :: string sys)\<lparr>pool := ?p1, workers := [WTest], main := MPush ''a''\<rparr>"
  let ?q = "\<lparr>nodes = [3 \<mapsto> (''a'', None)], count = 1, head = Some 3, tail = Some 3\<rparr>"
  let ?s2 = "?s1\<lparr>pool := ?p1\<lparr>job_queue := ?q\<rparr>, main := MPost, added := [''a'']\<rparr>"
  have "start_thread True ?p0 = Some (True, ?p1)" by (simp add: start_thread_def new_sys_def)
  from add_start [OF _ this, of "''a''"] have 1: "pool_step (new_sys 2) ?s1" by (simp add: new_sys_def)
  have "push_job (Some 3) ''a'' ?p1 = Some (EXIT_SUCCESS, ?p1\<lparr>job_queue := ?q\<rparr>)"
    by (simp add: push_job_def queue_push_def new_sys_def)
  moreover have "node_fresh (Some 3) (job_queue ?p1)" by (simp add: node_fresh_def fresh_in_def new_sys_def)
  ultimately have 2: "pool_step ?s1 ?s2"
    using add_push [of ?s1 "''a''" "Some 3" EXIT_SUCCESS "?p1\<lparr>job_queue := ?q\<rparr>"] by (simp add: new_sys_def)
  have 3: "pool_step ?s2 demo_sys"
    using add_post [of ?s2] by (simp add: new_sys_def sem_post_def demo_sys_def demo_pool_def)
  from 1 2 3 show ?thesis by (auto intro: rtranclp.rtrancl_into_rtrancl)
qed

lemma demo_cancelled_reachable: "reachable 2 demo_cancelled"
proof -
  have "pool_step demo_sys demo_cancelled"
    using free_cancel [of demo_sys] by (simp add: demo_sys_def demo_cancelled_def demo_pool_def)
  with demo_reachable show ?thesis by (rule rtranclp.rtrancl_into_rtrancl)
qed

text \<open>C6: However the main thread and the workers interleave, the jobs are started in the order in which
  they were added, none is lost and none is run twice: the jobs added are those started, those in
  the queue and those dropped by the final drain, in this order, and every started job is either finished or
  in the hands of exactly one worker.\<close>

theorem pool_runs_jobs_in_order:
  assumes "reachable n s"
  shows "\<exists>xs. queue_rep (job_queue (pool s)) xs \<and> added s = started s @ xs @ dropped s
    \<and> mset (started s) = mset (finished s) + mset (held s)"
  using reachable_ok [OF assms] by (auto simp: sys_ok_def jobs_ok_def)

theorem pool_runs_jobs_in_order_witness:
  "\<exists>xs. queue_rep (job_queue (pool demo_sys)) xs \<and> [''a''] = [] @ xs @ []"
  using pool_runs_jobs_in_order [OF demo_reachable] by (simp add: demo_sys_def)

text \<open>A pool whose maximum is not positive never starts a thread.\<close>

lemma pool_step_no_threads:
  "pool_step s s' \<Longrightarrow> sys_ok n s \<Longrightarrow> n \<le> 0 \<Longrightarrow> workers s = [] \<and> started s = [] \<Longrightarrow> workers s' = [] \<and> started s' = []"
  by (induction rule: pool_step.induct) (auto simp: sys_ok_def threads_ok_def start_thread_def split: if_splits)

lemma reachable_no_threads:
  assumes "reachable n s" "n \<le> 0"
  shows "workers s = [] \<and> started s = []"
proof -
  from assms(1) have "sys_ok n s \<and> workers s = [] \<and> started s = []"
  proof (induction rule: rtranclp_induct)
    case base
    show ?case using new_sys_ok [of n] by (simp add: new_sys_def)
  next
    case (step y z)
    then show ?case using pool_step_ok [of y z n] pool_step_no_threads [of y z n] assms(2) by blast
  qed
  then show ?thesis by simp
qed

text \<open>C31: No wakeup is lost: in every state before the shutdown there are at most as many jobs in the queue as
  the semaphore counts, plus the workers that have passed it and not yet taken a job, plus one when the main
  thread has pushed a job and is about to raise the semaphore. So in a pool of at least one thread, whenever
  jobs wait, some worker is ready to run or the main thread is about to raise the semaphore. In a pool whose
  maximum is 0 or less there is no worker, and every job waits for ever.\<close>

theorem pool_no_lost_wakeup:
  assumes reach: "reachable n s" and before: "cancel_flag (pool s) = 0"
  shows "queue_get_count (job_queue (pool s)) \<le> int (job_semaphore (pool s) + num is_awake s + (if main s = MPost then 1 else 0))
    \<and> (0 < n \<longrightarrow> 0 < queue_get_count (job_queue (pool s)) \<longrightarrow> main s = MPost \<or> (\<exists>w \<in> set (workers s). \<not> blocked w (pool s)))
    \<and> (n \<le> 0 \<longrightarrow> workers s = [] \<and> started s = [])"
proof -
  from reachable_ok [OF reach] have ok: "sys_ok n s" .
  with before have pc: "main s = MIdle \<or> (\<exists>j. main s = MPush j) \<or> main s = MPost"
    by (cases "main s") (auto simp: sys_ok_def threads_ok_def)
  with ok obtain xs where xs: "queue_rep (job_queue (pool s)) xs" "started s @ xs = added s"
    "length xs \<le> job_semaphore (pool s) + num is_awake s + (if main s = MPost then 1 else 0)"
    by (auto simp: sys_ok_def jobs_ok_def)
  have "\<exists>w \<in> set (workers s). \<not> blocked w (pool s)" if "xs \<noteq> []" "0 < n" "main s \<noteq> MPost"
  proof (cases "num is_awake s = 0")
    case True
    with xs(3) that have sem: "job_semaphore (pool s) \<noteq> 0" by (cases xs) auto
    from ok pc that xs(2) have "workers s \<noteq> []" "WExit \<notin> set (workers s)"
      by (auto simp: sys_ok_def threads_ok_def)
    then obtain w where "w \<in> set (workers s)" "w \<noteq> WExit" by (cases "workers s") auto
    with sem show ?thesis by (auto simp: blocked_iff)
  next
    case False
    then obtain w where "w \<in> set (workers s)" "is_awake w" by (auto simp: num_def filter_empty_conv)
    then show ?thesis using awake_not_blocked by blast
  qed
  with xs reachable_no_threads [OF reach] show ?thesis by (auto simp: qi.size_law)
qed

theorem pool_no_lost_wakeup_witness:
  "queue_get_count (job_queue (pool demo_sys)) = 1 \<and> (\<exists>w \<in> set (workers demo_sys). \<not> blocked w (pool demo_sys))"
  using pool_no_lost_wakeup [OF demo_reachable] by (simp add: demo_sys_def demo_pool_def queue_get_count_def)

text \<open>C7: The shutdown of the pool ends: once \<open>thread_pool_free\<close> has set the cancel flag, at most
  \<open>shutdown_work\<close> further steps are possible under any interleaving, and until the pool is done some step
  is possible; so no worker is left sleeping on the semaphore and every join returns.\<close>

theorem pool_shutdown_terminates:
  assumes "reachable n s" "cancel_flag (pool s) = 1" "(pool_step ^^ k) s s'"
  shows "k \<le> shutdown_work s \<and> (main s' = MDone \<or> (\<exists>s''. pool_step s' s''))"
proof -
  from shutdown_steps [OF assms(3) reachable_ok [OF assms(1)] assms(2)]
  have "k + shutdown_work s' \<le> shutdown_work s" "cancel_flag (pool s') = 1" "sys_ok n s'" by auto
  with shutdown_not_stuck [of n s'] show ?thesis by auto
qed

theorem pool_shutdown_terminates_witness:
  "\<exists>s'. (pool_step ^^ 1) demo_cancelled s' \<and> 1 \<le> shutdown_work demo_cancelled \<and> (main s' = MDone \<or> (\<exists>s''. pool_step s' s''))"
proof -
  have "pool_step demo_cancelled (demo_cancelled\<lparr>pool := sem_post (pool demo_cancelled), main := MSignal 0\<rparr>)" (is "pool_step _ ?s")
    by (rule free_post) (simp add: demo_cancelled_def)
  then have "(pool_step ^^ 1) demo_cancelled ?s" by (simp add: eq_OO)
  moreover have "cancel_flag (pool demo_cancelled) = 1" by (simp add: demo_cancelled_def)
  ultimately show ?thesis using pool_shutdown_terminates [OF demo_cancelled_reachable] by blast
qed

end
