(* ===== verification/Uvg_Yuarel.thy ===== *)
theory Uvg_Yuarel
  imports Uvg_Text
begin

text \<open>
  The URL parser of \<^verbatim>\<open>src/src/yuarel/yuarel.c\<close>. It works in place: the parts of the URL are
  pointers into the buffer, and the separators between them are overwritten with NUL. A buffer is a
  list of characters, a pointer into it a position; the text at a pointer is what precedes the next
  NUL, and running off the end of the buffer is undefined.
\<close>

abbreviation NUL :: char where "NUL \<equiv> CHR 0x00"

subsection \<open>Scanning a buffer\<close>

definition char_at :: "string \<Rightarrow> nat \<Rightarrow> char option" where
  "char_at m p = (if p < length m then Some (m ! p) else None)"

definition set_char :: "string \<Rightarrow> nat \<Rightarrow> char \<Rightarrow> string option" where
  "set_char m p c = (if p < length m then Some (m[p := c]) else None)"

text \<open>\<open>strchr\<close> for a character that is not NUL: the position, or NULL.\<close>

definition strchr :: "string \<Rightarrow> nat \<Rightarrow> char \<Rightarrow> nat option option" where
  "strchr m p c =
     (let q = p + length (takeWhile (\<lambda>x. x \<noteq> c \<and> x \<noteq> NUL) (drop p m)) in
      if q < length m then Some (if m ! q = c then Some q else None) else None)"

text \<open>The C string at a pointer.\<close>

definition text_at :: "string \<Rightarrow> nat \<Rightarrow> string option" where
  "text_at m p = (let s = drop p m in if NUL \<in> set s then Some (takeWhile (\<lambda>x. x \<noteq> NUL) s) else None)"

text \<open>A C \<open>int\<close> computation that leaves the range is undefined.\<close>

definition c_int :: "int \<Rightarrow> int option" where
  "c_int i = (if - (2 ^ 31) \<le> i \<and> i < 2 ^ 31 then Some i else None)"

text \<open>The value of a \<open>char\<close>, which is signed.\<close>

definition schar :: "char \<Rightarrow> int" where
  "schar c = (if (of_char c :: int) < 128 then of_char c else of_char c - 256)"

primrec natoi_loop :: "string \<Rightarrow> nat \<Rightarrow> nat \<Rightarrow> int \<Rightarrow> int option" where
  "natoi_loop m p 0 r = Some r"
| "natoi_loop m p (Suc n) r = do {
     r \<leftarrow> c_int (r * 10);
     c \<leftarrow> char_at m p;
     r \<leftarrow> c_int (r + (schar c - 48));
     natoi_loop m (p + 1) n r
   }"

definition natoi :: "string \<Rightarrow> nat \<Rightarrow> nat \<Rightarrow> int option" where
  "natoi m p len = natoi_loop m p len 0"

text \<open>\<open>atoi\<close>: white space, a sign, digits; a value outside \<open>int\<close> is undefined.\<close>

definition is_space :: "char \<Rightarrow> bool" where
  "is_space c \<longleftrightarrow> c = CHR '' '' \<or> (9 \<le> (of_char c :: nat) \<and> (of_char c :: nat) \<le> 13)"

definition atoi :: "string \<Rightarrow> nat \<Rightarrow> int option" where
  "atoi m p = do {
     s \<leftarrow> text_at m p;
     let s = dropWhile is_space s;
     let neg = (s \<noteq> [] \<and> hd s = CHR ''-'');
     let s = (if s \<noteq> [] \<and> (hd s = CHR ''-'' \<or> hd s = CHR ''+'') then tl s else s);
     let v = int (dec_value (takeWhile is_digit s));
     c_int (if neg then - v else v)
   }"

subsection \<open>Parsing\<close>

record yuarel =
  y_scheme :: "nat option"
  y_username :: "nat option"
  y_password :: "nat option"
  y_host :: "nat option"
  y_port :: int
  y_path :: "nat option"
  y_query :: "nat option"
  y_fragment :: "nat option"

definition no_url :: yuarel where
  "no_url = \<lparr>y_scheme = None, y_username = None, y_password = None, y_host = None, y_port = 0, y_path = None,
     y_query = None, y_fragment = None\<rparr>"

definition is_relative :: "string \<Rightarrow> nat \<Rightarrow> bool option" where
  "is_relative m u = map_option (\<lambda>c. c = CHR ''/'') (char_at m u)"

definition parse_scheme :: "string \<Rightarrow> nat \<Rightarrow> (nat option \<times> string) option" where
  "parse_scheme m p = do {
     s \<leftarrow> strchr m p (CHR '':'');
     case s of
       None \<Rightarrow> Some (None, m)
     | Some s \<Rightarrow>
         if s = p then Some (None, m)
         else do {
           c1 \<leftarrow> char_at m (s + 1);
           if c1 = NUL \<or> c1 \<noteq> CHR ''/'' then Some (None, m)
           else do {
             c2 \<leftarrow> char_at m (s + 2);
             if c2 = NUL \<or> c2 \<noteq> CHR ''/'' then Some (None, m)
             else do { m \<leftarrow> set_char m s NUL; Some (Some (s + 3), m) }
           }
         }
   }"

definition find_and_terminate :: "string \<Rightarrow> nat \<Rightarrow> char \<Rightarrow> (nat option \<times> string) option" where
  "find_and_terminate m p c = do {
     s \<leftarrow> strchr m p c;
     case s of
       None \<Rightarrow> Some (None, m)
     | Some s \<Rightarrow> do { m \<leftarrow> set_char m s NUL; Some (Some (s + 1), m) }
   }"

definition find_fragment :: "string \<Rightarrow> nat \<Rightarrow> (nat option \<times> string) option" where
  "find_fragment m p = find_and_terminate m p (CHR ''#'')"

definition find_query :: "string \<Rightarrow> nat \<Rightarrow> (nat option \<times> string) option" where
  "find_query m p = find_and_terminate m p (CHR ''?'')"

definition find_path :: "string \<Rightarrow> nat \<Rightarrow> (nat option \<times> string) option" where
  "find_path m p = find_and_terminate m p (CHR ''/'')"

text \<open>The parts after the path has been cut off: credentials, then the port. Each returns the status
  \<open>-1\<close> where the code does.\<close>

definition parse_credentials :: "string \<Rightarrow> nat \<Rightarrow> yuarel \<Rightarrow> (int \<times> nat \<times> yuarel \<times> string) option" where
  "parse_credentials m host url = do {
     u \<leftarrow> strchr m host (CHR ''@'');
     case u of
       None \<Rightarrow> Some (0, host, url, m)
     | Some u \<Rightarrow>
         if u = host then Some (- 1, host, url, m)
         else do {
           let url = url\<lparr>y_username := Some host, y_host := Some (u + 1)\<rparr>;
           m \<leftarrow> set_char m u NUL;
           c \<leftarrow> strchr m host (CHR '':'');
           case c of
             None \<Rightarrow> Some (- 1, u + 1, url, m)
           | Some c \<Rightarrow> do { m \<leftarrow> set_char m c NUL; Some (0, u + 1, url\<lparr>y_password := Some (c + 1)\<rparr>, m) }
         }
   }"

definition parse_port :: "string \<Rightarrow> nat \<Rightarrow> yuarel \<Rightarrow> (int \<times> yuarel \<times> string) option" where
  "parse_port m host url = do {
     u \<leftarrow> strchr m host (CHR '':'');
     case u of
       None \<Rightarrow> Some (0, url, m)
     | Some u \<Rightarrow>
         if case y_path url of None \<Rightarrow> False | Some path \<Rightarrow> \<not> u < path then Some (0, url, m)
         else do {
           m \<leftarrow> set_char m u NUL;
           let u = u + 1;
           c \<leftarrow> char_at m u;
           if c = NUL then Some (- 1, url, m)
           else do {
             n \<leftarrow> (case y_path url of Some path \<Rightarrow> natoi m u (size_t_of (int path - int u - 1)) | None \<Rightarrow> atoi m u);
             Some (0, url\<lparr>y_port := n\<rparr>, m)
           }
         }
   }"

definition parse_authority :: "string \<Rightarrow> nat \<Rightarrow> yuarel \<Rightarrow> (int \<times> yuarel \<times> string) option" where
  "parse_authority m u url = do {
     let url = url\<lparr>y_scheme := Some u\<rparr>;
     (u, m) \<leftarrow> parse_scheme m u;
     case u of
       None \<Rightarrow> Some (- 1, url, m)
     | Some u \<Rightarrow> do {
         c \<leftarrow> char_at m u;
         if c = NUL then Some (- 1, url, m)
         else do {
           (path, m) \<leftarrow> find_path m u;
           let url = url\<lparr>y_host := Some u, y_path := path\<rparr>;
           (r, host, url, m) \<leftarrow> parse_credentials m u url;
           if r = - 1 then Some (- 1, url, m)
           else do {
             c \<leftarrow> char_at m host;
             if c = NUL then Some (- 1, url, m)
             else do {
               (r, url, m) \<leftarrow> parse_port m host url;
               if r = - 1 then Some (- 1, url, m)
               else do {
                 c \<leftarrow> char_at m host;
                 Some (if c = NUL then - 1 else 0, url, m)
               }
             }
           }
         }
       }
   }"

text \<open>\<open>None\<close> is the NULL pointer for the URL.\<close>

definition yuarel_parse :: "string option \<Rightarrow> (int \<times> yuarel \<times> string) option" where
  "yuarel_parse u = (case u of
      None \<Rightarrow> Some (- 1, no_url, [])
    | Some m \<Rightarrow> do {
        (frag, m) \<leftarrow> find_fragment m 0;
        (query, m) \<leftarrow> find_query m 0;
        let url = no_url\<lparr>y_fragment := frag, y_query := query\<rparr>;
        rel \<leftarrow> is_relative m 0;
        if \<not> rel then parse_authority m 0 url
        else do {
          (path, m) \<leftarrow> find_path m 0;
          Some (0, url\<lparr>y_path := path\<rparr>, m)
        }
      })"

subsection \<open>Splitting a path\<close>

definition skip_slashes :: "string \<Rightarrow> nat \<Rightarrow> nat option" where
  "skip_slashes m p =
     (let q = p + length (takeWhile (\<lambda>x. x = CHR ''/'') (drop p m)) in if q < length m then Some q else None)"

text \<open>\<open>parts\<close> is the array of the caller; writing outside it is undefined.\<close>

function split_loop :: "string \<Rightarrow> nat \<Rightarrow> nat option list \<Rightarrow> nat \<Rightarrow> int \<Rightarrow> (int \<times> nat option list \<times> string) option" where
  "split_loop m p parts i max_parts = do {
     q \<leftarrow> skip_slashes m p;
     if m ! q = NUL then Some (int i, parts, m)
     else if length parts \<le> i then None
     else do {
       let parts = parts[i := Some q];
       s \<leftarrow> strchr m q (CHR ''/'');
       case s of
         None \<Rightarrow> Some (int (Suc i), parts, m)
       | Some s \<Rightarrow>
           if int (Suc i) < max_parts then split_loop (m[s := NUL]) (s + 1) parts (Suc i) max_parts
           else Some (int (Suc i), parts, m[s := NUL])
     }
   }"
  by pat_completeness auto

termination split_loop
  by (relation "measure (\<lambda>(m, p, parts, i, max_parts). length parts - i)") auto

definition yuarel_split_path :: "string \<Rightarrow> nat option \<Rightarrow> nat option list \<Rightarrow> int \<Rightarrow> (int \<times> nat option list \<times> string) option" where
  "yuarel_split_path m path parts max_parts = (case path of
      None \<Rightarrow> Some (- 1, parts, m)
    | Some p \<Rightarrow> do {
        c \<leftarrow> char_at m p;
        if c = NUL then Some (- 1, parts, m) else split_loop m p parts 0 max_parts
      })"

subsection \<open>Parsing a query\<close>

text \<open>The array of parameters: for each the key and the value, \<open>None\<close> for one that was never written.\<close>

type_synonym params = "(nat \<times> nat option) option list"

definition set_param :: "params \<Rightarrow> nat \<Rightarrow> nat \<times> nat option \<Rightarrow> params option" where
  "set_param ps i v = (if i < length ps then Some (ps[i := Some v]) else None)"

text \<open>Splitting parameter \<open>i\<close> at its equals sign.\<close>

definition split_param :: "string \<Rightarrow> params \<Rightarrow> nat \<Rightarrow> (string \<times> params) option" where
  "split_param m ps i = do {
     (key, _) \<leftarrow> (if i < length ps then ps ! i else None);
     e \<leftarrow> strchr m key (CHR ''='');
     case e of
       None \<Rightarrow> do { ps \<leftarrow> set_param ps i (key, None); Some (m, ps) }
     | Some e \<Rightarrow> do { m \<leftarrow> set_char m e NUL; ps \<leftarrow> set_param ps i (key, Some (e + 1)); Some (m, ps) }
   }"

text \<open>The loop over the delimiters; \<open>left\<close> is the number of parameters that may still be added.\<close>

primrec query_loop :: "nat \<Rightarrow> string \<Rightarrow> nat \<Rightarrow> char \<Rightarrow> params \<Rightarrow> nat \<Rightarrow> (nat \<times> string \<times> params) option" where
  "query_loop 0 m q d ps i = Some (i, m, ps)"
| "query_loop (Suc left) m q d ps i = do {
     s \<leftarrow> strchr m q d;
     case s of
       None \<Rightarrow> Some (i, m, ps)
     | Some s \<Rightarrow> do {
         m \<leftarrow> set_char m s NUL;
         ps \<leftarrow> set_param ps i (s + 1, None);
         (m, ps) \<leftarrow> split_param m ps (i - 1);
         query_loop left m (s + 1) d ps (i + 1)
       }
   }"

definition yuarel_parse_query ::
  "string \<Rightarrow> nat option \<Rightarrow> char \<Rightarrow> params \<Rightarrow> int \<Rightarrow> (int \<times> string \<times> params) option" where
  "yuarel_parse_query m query d ps max_params = (case query of
      None \<Rightarrow> Some (- 1, m, ps)
    | Some q \<Rightarrow> do {
        c \<leftarrow> char_at m q;
        if c = NUL then Some (- 1, m, ps)
        else do {
          ps \<leftarrow> set_param ps 0 (q, None);
          (i, m, ps) \<leftarrow> query_loop (nat (max_params - 1)) m q d ps 1;
          (m, ps) \<leftarrow> split_param m ps (i - 1);
          Some (int i, m, ps)
        }
      })"

subsection \<open>Scanning a buffer that is known in parts\<close>

definition free_of :: "char set \<Rightarrow> string \<Rightarrow> bool" where
  "free_of cs s \<longleftrightarrow> set s \<inter> cs = {}"

lemma free_of_simps [simp]:
  "free_of cs []" "free_of cs (x # s) \<longleftrightarrow> x \<notin> cs \<and> free_of cs s" "free_of cs (s @ t) \<longleftrightarrow> free_of cs s \<and> free_of cs t"
  by (auto simp: free_of_def)

lemma free_of_mono: "free_of cs s \<Longrightarrow> ds \<subseteq> cs \<Longrightarrow> free_of ds s"
  by (auto simp: free_of_def)

lemma strchr_found: "free_of {c, NUL} t \<Longrightarrow> strchr (a @ t @ c # r) (length a) c = Some (Some (length a + length t))"
  by (auto simp: strchr_def free_of_def takeWhile_append nth_append)

lemma strchr_none:
  "free_of {c, NUL} t \<Longrightarrow> c \<noteq> NUL \<Longrightarrow> strchr (a @ t @ NUL # r) (length a) c = Some None"
  by (auto simp: strchr_def free_of_def takeWhile_append nth_append)

lemma text_at_append: "NUL \<notin> set t \<Longrightarrow> text_at (a @ t @ NUL # r) (length a) = Some t"
  by (auto simp: text_at_def takeWhile_append)

lemma set_char_append: "set_char (a @ c # r) (length a) d = Some (a @ d # r)"
  by (simp add: set_char_def)

lemma char_at_append: "char_at (a @ c # r) (length a) = Some c"
  by (simp add: char_at_def)

lemma schar_digit:
  assumes "is_digit c"
  shows "schar c - 48 = int (digit_value c)"
proof -
  have "(of_char c :: int) = int (of_char c)" by (simp only: of_nat_of_char)
  moreover have "48 \<le> (of_char c :: nat)" "(of_char c :: nat) \<le> 57" using assms by (simp_all add: is_digit_def)
  ultimately show ?thesis by (simp add: schar_def digit_value_def of_nat_diff)
qed

lemma dec_value_Cons: "dec_value (c # s) = digit_value c * 10 ^ length s + dec_value s"
proof (induction s rule: rev_induct)
  case (snoc x s)
  then show ?case using dec_value_append [of "c # s" x] by (simp add: algebra_simps)
qed (simp add: dec_value_def)

lemma natoi_loop_digits:
  assumes "\<forall>c \<in> set ds. is_digit c" "v * 10 ^ length ds + dec_value ds < 2 ^ 31"
  shows "natoi_loop (a @ ds @ r) (length a) (length ds) (int v) = Some (int (v * 10 ^ length ds + dec_value ds))"
  using assms
proof (induction ds arbitrary: a v)
  case (Cons c ds)
  let ?v = "v * 10 + digit_value c"
  have e: "v * 10 ^ length (c # ds) + dec_value (c # ds) = ?v * 10 ^ length ds + dec_value ds"
    by (simp add: dec_value_Cons algebra_simps)
  have "?v \<le> ?v * 10 ^ length ds" by simp
  with Cons.prems(2) e have small: "?v < 2 ^ 31" by linarith
  have "natoi_loop ((a @ [c]) @ ds @ r) (length (a @ [c])) (length ds) (int ?v) = Some (int (?v * 10 ^ length ds + dec_value ds))"
    by (rule Cons.IH) (use Cons.prems e in auto)
  moreover have "c_int (int v * 10) = Some (int v * 10)" "c_int (int v * 10 + (schar c - 48)) = Some (int ?v)"
    using small Cons.prems(1) by (auto simp: c_int_def schar_digit)
  moreover have "char_at (a @ c # ds @ r) (length a) = Some c" by (rule char_at_append)
  ultimately show ?case using e by simp
qed (simp add: dec_value_def)

lemma natoi_digits:
  "m = a @ ds @ r \<Longrightarrow> p = length a \<Longrightarrow> n = length ds \<Longrightarrow> \<forall>c \<in> set ds. is_digit c \<Longrightarrow> dec_value ds < 2 ^ 31 \<Longrightarrow>
    natoi m p n = Some (int (dec_value ds))"
  using natoi_loop_digits [of ds 0 a r] by (simp add: natoi_def)

subsection \<open>Properties\<close>

definition url_text :: "string \<Rightarrow> string \<Rightarrow> nat \<Rightarrow> string \<Rightarrow> string" where
  "url_text scheme host n path = scheme @ ''://'' @ host @ '':'' @ dec_nat n @ ''/'' @ path"

lemma dec_nat_free: "\<forall>c \<in> cs. \<not> is_digit c \<Longrightarrow> free_of cs (dec_nat n)"
  using dec_nat_digits [of _ n] by (auto simp: free_of_def)

abbreviation separators :: "char set" where
  "separators \<equiv> {CHR '':'', CHR ''/'', CHR ''@'', CHR ''?'', CHR ''#'', NUL}"

lemma separators_not_digits: "\<forall>c \<in> separators. \<not> is_digit c"
  by (simp add: is_digit_def)

lemma strchr_find: "m = a @ t @ c # r \<Longrightarrow> p = length a \<Longrightarrow> free_of {c, NUL} t \<Longrightarrow> strchr m p c = Some (Some (length a + length t))"
  using strchr_found by simp

lemma strchr_miss:
  "m = a @ t @ NUL # r \<Longrightarrow> p = length a \<Longrightarrow> free_of {c, NUL} t \<Longrightarrow> c \<noteq> NUL \<Longrightarrow> strchr m p c = Some None"
  using strchr_none by simp

lemma set_char_at: "m = a @ c # r \<Longrightarrow> p = length a \<Longrightarrow> set_char m p d = Some (a @ d # r)"
  using set_char_append by simp

lemma text_at_at: "m = a @ t @ NUL # r \<Longrightarrow> p = length a \<Longrightarrow> NUL \<notin> set t \<Longrightarrow> text_at m p = Some t"
  using text_at_append by simp

text \<open>C36: A URL \<open>scheme://host:port/path\<close> is taken apart into the parts it was put together from: the
  parser succeeds, and the scheme, host and path it points to in the buffer, and the port, are those.\<close>

theorem yuarel_parse_roundtrip:
  assumes scheme: "scheme \<noteq> []" "free_of separators scheme" and host: "host \<noteq> []" "free_of separators host"
    and n: "n < 2 ^ 31" and path: "free_of {CHR ''?'', CHR ''#'', NUL} path"
    and short: "length (url_text scheme host n path) < 2 ^ 63"
  shows "\<exists>url m s h q. yuarel_parse (Some (url_text scheme host n path @ [NUL])) = Some (0, url, m)
    \<and> y_scheme url = Some s \<and> text_at m s = Some scheme \<and> y_host url = Some h \<and> text_at m h = Some host
    \<and> y_port url = int n \<and> y_path url = Some q \<and> text_at m q = Some path \<and> y_query url = None \<and> y_fragment url = None"
proof -
  let ?p = "dec_nat n"
  let ?m = "url_text scheme host n path @ [NUL]"
  let ?m1 = "scheme @ NUL # ''//'' @ host @ '':'' @ ?p @ ''/'' @ path @ [NUL]"
  let ?m2 = "scheme @ NUL # ''//'' @ host @ '':'' @ ?p @ NUL # path @ [NUL]"
  let ?m3 = "scheme @ NUL # ''//'' @ host @ NUL # ?p @ NUL # path @ [NUL]"
  let ?u = "length scheme + 3" and ?q = "length scheme + 3 + length host + 1 + length ?p + 1"
  note parts = scheme(2) host(2) path dec_nat_free [OF separators_not_digits, of n]
  note free = parts [THEN free_of_mono]
  have frag: "find_fragment ?m 0 = Some (None, ?m)"
    unfolding find_fragment_def find_and_terminate_def
    by (subst strchr_miss [of _ "[]" "url_text scheme host n path" "[]"])
      (use free in \<open>auto simp: url_text_def\<close>)
  have query: "find_query ?m 0 = Some (None, ?m)"
    unfolding find_query_def find_and_terminate_def
    by (subst strchr_miss [of _ "[]" "url_text scheme host n path" "[]"])
      (use free in \<open>auto simp: url_text_def\<close>)
  have rel: "is_relative ?m 0 = Some False"
    using scheme by (cases scheme) (auto simp: is_relative_def char_at_def url_text_def)
  have s: "parse_scheme ?m 0 = Some (Some ?u, ?m1)"
  proof -
    have "strchr ?m 0 (CHR '':'') = Some (Some (length scheme))"
      by (subst strchr_find [of _ "[]" scheme]) (use free in \<open>auto simp: url_text_def\<close>)
    moreover have "char_at ?m (length scheme + 1) = Some (CHR ''/'')" "char_at ?m (length scheme + 2) = Some (CHR ''/'')"
      by (simp_all add: char_at_def url_text_def nth_append)
    moreover have "set_char ?m (length scheme) NUL = Some ?m1"
      by (subst set_char_at [of _ scheme]) (auto simp: url_text_def)
    ultimately show ?thesis using scheme(1) by (simp add: parse_scheme_def)
  qed
  have hd: "char_at ?m1 ?u = Some (hd host)" "char_at ?m2 ?u = Some (hd host)" "char_at ?m3 ?u = Some (hd host)" "hd host \<noteq> NUL"
    using host by (auto simp: char_at_def nth_append hd_conv_nth free_of_def in_set_conv_nth)
  have pth: "find_path ?m1 ?u = Some (Some ?q, ?m2)"
  proof -
    have "strchr ?m1 ?u (CHR ''/'') = Some (Some (?u + length (host @ '':'' @ ?p)))"
      by (subst strchr_find [of _ "scheme @ NUL # ''//''" "host @ '':'' @ ?p"]) (use free in auto)
    moreover have "set_char ?m1 (?u + length (host @ '':'' @ ?p)) NUL = Some ?m2"
      by (subst set_char_at [of _ "scheme @ NUL # ''//'' @ host @ '':'' @ ?p"]) auto
    ultimately show ?thesis by (simp add: find_path_def find_and_terminate_def)
  qed
  have cred: "parse_credentials ?m2 ?u url = Some (0, ?u, url, ?m2)" for url
    unfolding parse_credentials_def
    by (subst strchr_miss [of _ "scheme @ NUL # ''//''" "host @ '':'' @ ?p"]) (use free in auto)
  have prt: "parse_port ?m2 ?u url = Some (0, url\<lparr>y_port := int n\<rparr>, ?m3)" if "y_path url = Some ?q" for url
  proof -
    have "strchr ?m2 ?u (CHR '':'') = Some (Some (?u + length host))"
      by (subst strchr_find [of _ "scheme @ NUL # ''//''" host]) (use free in auto)
    moreover have "set_char ?m2 (?u + length host) NUL = Some ?m3"
      by (subst set_char_at [of _ "scheme @ NUL # ''//'' @ host"]) auto
    moreover have "char_at ?m3 (?u + length host + 1) = Some (hd ?p)"
      by (auto simp: char_at_def nth_append hd_conv_nth)
    moreover have "hd ?p \<noteq> NUL" using dec_nat_hd [of n] by (auto simp: is_digit_def)
    moreover have "natoi ?m3 (?u + length host + 1) (length ?p) = Some (int (dec_value ?p))"
      by (rule natoi_digits [of _ "scheme @ NUL # ''//'' @ host @ [NUL]" _ "NUL # path @ [NUL]"])
        (use n dec_nat_digits in auto)
    moreover have "size_t_of (int ?q - int (?u + length host + 1) - 1) = length ?p"
      using short by (simp add: url_text_def size_t_of_def)
    ultimately show ?thesis using that by (simp add: parse_port_def)
  qed
  let ?url = "no_url\<lparr>y_scheme := Some 0, y_host := Some ?u, y_path := Some ?q, y_port := int n\<rparr>"
  have "yuarel_parse (Some ?m) = Some (0, ?url, ?m3)"
    using frag query rel s hd pth cred prt [of "no_url\<lparr>y_scheme := Some 0, y_host := Some ?u, y_path := Some ?q\<rparr>"]
    by (simp add: yuarel_parse_def parse_authority_def no_url_def)
  moreover have "text_at ?m3 0 = Some scheme" by (rule text_at_at [of _ "[]"]) (use scheme(2) in \<open>auto simp: free_of_def\<close>)
  moreover have "text_at ?m3 ?u = Some host"
    by (rule text_at_at [of _ "scheme @ NUL # ''//''"]) (use host in \<open>auto simp: free_of_def\<close>)
  moreover have "text_at ?m3 ?q = Some path"
    by (rule text_at_at [of _ "scheme @ NUL # ''//'' @ host @ NUL # ?p @ [NUL]"]) (use path in \<open>auto simp: free_of_def\<close>)
  ultimately show ?thesis by (intro exI conjI) (assumption | simp add: no_url_def)+
qed

theorem yuarel_parse_roundtrip_witness:
  "\<exists>url m s h q. yuarel_parse (Some (url_text ''udp'' ''tracker.org'' 6969 ''announce'' @ [NUL])) = Some (0, url, m)
    \<and> y_scheme url = Some s \<and> text_at m s = Some ''udp'' \<and> y_host url = Some h \<and> text_at m h = Some ''tracker.org''
    \<and> y_port url = int 6969 \<and> y_path url = Some q \<and> text_at m q = Some ''announce'' \<and> y_query url = None \<and> y_fragment url = None"
  by (rule yuarel_parse_roundtrip) (simp_all add: url_text_def dec_nat.simps)

text \<open>A query string of key and value pairs, and the buffer it becomes: every equals sign and every
  delimiter is a NUL.\<close>

fun query_text :: "char \<Rightarrow> (string \<times> string) list \<Rightarrow> string" where
  "query_text d [] = []"
| "query_text d [(k, v)] = k @ ''='' @ v"
| "query_text d ((k, v) # kvs) = k @ ''='' @ v @ d # query_text d kvs"

definition cut_query :: "(string \<times> string) list \<Rightarrow> string" where
  "cut_query kvs = concat (map (\<lambda>(k, v). k @ NUL # v @ [NUL]) kvs)"

lemma cut_query_simps [simp]:
  "cut_query [] = []" "cut_query ((k, v) # kvs) = k @ NUL # v @ NUL # cut_query kvs"
  by (simp_all add: cut_query_def)

primrec positions :: "nat \<Rightarrow> (string \<times> string) list \<Rightarrow> (nat \<times> nat option) list" where
  "positions p [] = []"
| "positions p (kv # kvs) = (p, Some (p + length (fst kv) + 1)) # positions (p + length (fst kv) + 1 + length (snd kv) + 1) kvs"

definition plain_param :: "char \<Rightarrow> string \<times> string \<Rightarrow> bool" where
  "plain_param d kv \<longleftrightarrow> free_of {d, CHR ''='', NUL} (fst kv) \<and> free_of {d, NUL} (snd kv)"

lemma length_positions [simp]: "length (positions p kvs) = length kvs"
  by (induction kvs arbitrary: p) auto

text \<open>The loop and the split of the last parameter, as one.\<close>

definition query_rest :: "nat \<Rightarrow> string \<Rightarrow> nat \<Rightarrow> char \<Rightarrow> params \<Rightarrow> nat \<Rightarrow> (int \<times> string \<times> params) option" where
  "query_rest left m q d ps i = do {
     (i, m, ps) \<leftarrow> query_loop left m q d ps i;
     (m, ps) \<leftarrow> split_param m ps (i - 1);
     Some (int i, m, ps)
   }"

lemma split_param_run:
  assumes "m = pre @ k @ CHR ''='' # v" "i < length ps" "ps ! i = Some (length pre, x)" "free_of {CHR ''='', NUL} k"
  shows "split_param m ps i = Some (pre @ k @ NUL # v, ps[i := Some (length pre, Some (length pre + length k + 1))])"
proof -
  have "strchr m (length pre) (CHR ''='') = Some (Some (length pre + length k))"
    by (rule strchr_find) (use assms in auto)
  moreover have "set_char m (length pre + length k) NUL = Some ((pre @ k) @ NUL # v)"
    by (rule set_char_at) (use assms in auto)
  ultimately show ?thesis using assms by (simp add: split_param_def set_param_def)
qed

lemma take_Suc_update: "i < length ps \<Longrightarrow> take (Suc i) (ps[i := x]) = take i ps @ [x]"
  by (simp add: take_Suc_conv_app_nth)

lemma query_rest_run:
  assumes "m = pre @ query_text d kvs @ NUL # post" "kvs \<noteq> []" "\<forall>kv \<in> set kvs. plain_param d kv"
    "i + length kvs \<le> length ps" "ps ! i = Some (length pre, None)" "length kvs \<le> Suc left"
    "d \<noteq> NUL" "d \<noteq> CHR ''=''"
  shows "query_rest left m (length pre) d ps (Suc i)
    = Some (int (i + length kvs), pre @ cut_query kvs @ post, take i ps @ map Some (positions (length pre) kvs) @ drop (i + length kvs) ps)"
  using assms
proof (induction kvs arbitrary: m pre i ps left)
  case (Cons kv kvs)
  obtain k v where kv: "kv = (k, v)" by force
  with Cons.prems(3) have free: "free_of {d, CHR ''='', NUL} k" "free_of {d, NUL} v" by (auto simp: plain_param_def)
  have i: "i < length ps" using Cons.prems(4) by simp
  show ?case
  proof (cases kvs)
    case Nil
    have "query_loop left m (length pre) d ps (Suc i) = Some (Suc i, m, ps)"
    proof (cases left)
      case (Suc l)
      have "strchr m (length pre) d = Some None"
        by (rule strchr_miss [of _ pre "k @ CHR ''='' # v" post])
          (use Cons.prems Nil kv free free_of_mono in auto)
      with Suc show ?thesis by simp
    qed simp
    moreover have "split_param m ps i = Some (pre @ k @ NUL # v @ NUL # post,
        ps[i := Some (length pre, Some (length pre + length k + 1))])"
      by (rule split_param_run) (use Cons.prems Nil kv free free_of_mono in auto)
    ultimately show ?thesis
      using i kv Nil by (simp add: query_rest_def cut_query_def upd_conv_take_nth_drop)
  next
    case more: (Cons kv' kvs')
    then obtain l where l: "left = Suc l" "length kvs \<le> Suc l" using Cons.prems(6) by (cases left) auto
    let ?s = "length pre + length k + 1 + length v"
    let ?m1 = "pre @ k @ CHR ''='' # v @ NUL # query_text d kvs @ NUL # post"
    let ?ps1 = "ps[Suc i := Some (?s + 1, None)]"
    let ?m2 = "(pre @ k @ NUL # v @ [NUL]) @ query_text d kvs @ NUL # post"
    let ?ps2 = "?ps1[i := Some (length pre, Some (length pre + length k + 1))]"
    have m: "m = pre @ (k @ CHR ''='' # v) @ d # query_text d kvs @ NUL # post"
      using Cons.prems(1) kv more by simp
    have "strchr m (length pre) d = Some (Some ?s)"
      by (subst strchr_find [OF m]) (use free Cons.prems(8) free_of_mono in auto)
    moreover have "set_char m ?s NUL = Some ?m1"
      by (subst set_char_at [of m "pre @ k @ CHR ''='' # v"]) (use m in auto)
    moreover have "set_param ps (Suc i) (?s + 1, None) = Some ?ps1"
      using Cons.prems(4) more by (simp add: set_param_def)
    moreover have "split_param ?m1 ?ps1 i = Some (pre @ k @ NUL # v @ NUL # query_text d kvs @ NUL # post, ?ps2)"
      by (rule split_param_run) (use Cons.prems(5) i free free_of_mono in auto)
    ultimately have "query_rest left m (length pre) d ps (Suc i) = query_rest l ?m2 (?s + 1) d ?ps2 (Suc (Suc i))"
      by (simp add: query_rest_def l(1))
    also have "\<dots> = query_rest l ?m2 (length (pre @ k @ NUL # v @ [NUL])) d ?ps2 (Suc (Suc i))" by (simp add: add.assoc)
    also have "\<dots> = Some (int (Suc i + length kvs), (pre @ k @ NUL # v @ [NUL]) @ cut_query kvs @ post,
        take (Suc i) ?ps2 @ map Some (positions (length (pre @ k @ NUL # v @ [NUL])) kvs) @ drop (Suc i + length kvs) ?ps2)"
      by (rule Cons.IH) (use Cons.prems more l(2) in auto)
    finally show ?thesis
      using i kv more by (simp add: take_Suc_update add.assoc drop_update_cancel)
  qed
qed simp

lemma positions_text:
  assumes "i < length kvs" "\<forall>kv \<in> set kvs. NUL \<notin> set (fst kv) \<and> NUL \<notin> set (snd kv)"
  shows "\<exists>kp vp. positions (length pre) kvs ! i = (kp, Some vp)
    \<and> text_at (pre @ cut_query kvs @ post) kp = Some (fst (kvs ! i)) \<and> text_at (pre @ cut_query kvs @ post) vp = Some (snd (kvs ! i))"
  using assms
proof (induction kvs arbitrary: pre i)
  case (Cons kv kvs)
  obtain k v where kv: "kv = (k, v)" by force
  with Cons.prems(2) have nul: "NUL \<notin> set k" "NUL \<notin> set v" by auto
  show ?case
  proof (cases i)
    case 0
    have "text_at (pre @ cut_query (kv # kvs) @ post) (length pre) = Some k"
      by (rule text_at_at [of _ pre _ "v @ NUL # cut_query kvs @ post"]) (use nul kv in \<open>auto simp: cut_query_def\<close>)
    moreover have "text_at (pre @ cut_query (kv # kvs) @ post) (length pre + length k + 1) = Some v"
      by (rule text_at_at [of _ "pre @ k @ [NUL]" _ "cut_query kvs @ post"]) (use nul kv in \<open>auto simp: cut_query_def\<close>)
    ultimately show ?thesis using 0 kv by simp
  next
    case (Suc j)
    let ?pre = "pre @ k @ NUL # v @ [NUL]"
    have "\<exists>kp vp. positions (length ?pre) kvs ! j = (kp, Some vp)
        \<and> text_at (?pre @ cut_query kvs @ post) kp = Some (fst (kvs ! j)) \<and> text_at (?pre @ cut_query kvs @ post) vp = Some (snd (kvs ! j))"
      by (rule Cons.IH) (use Cons.prems Suc in auto)
    then show ?thesis using Suc kv by (simp add: add.assoc)
  qed
qed simp

lemma yuarel_query_run:
  assumes kvs: "kvs \<noteq> []" "\<forall>kv \<in> set kvs. plain_param d kv" and d: "d \<noteq> NUL" "d \<noteq> CHR ''=''"
    and room: "length kvs \<le> length ps" "int (length kvs) \<le> max_params"
  shows "\<exists>m ps'. yuarel_parse_query (pre @ query_text d kvs @ NUL # post) (Some (length pre)) d ps max_params
      = Some (int (length kvs), m, ps') \<and> length ps' = length ps
    \<and> (\<forall>i < length kvs. \<exists>kp vp. ps' ! i = Some (kp, Some vp)
        \<and> text_at m kp = Some (fst (kvs ! i)) \<and> text_at m vp = Some (snd (kvs ! i)))"
proof -
  let ?m = "pre @ query_text d kvs @ NUL # post"
  let ?ps = "ps[0 := Some (length pre, None)]"
  let ?ps' = "map Some (positions (length pre) kvs) @ drop (length kvs) ?ps"
  obtain k v kvs' where kv: "kvs = (k, v) # kvs'" using kvs(1) by (metis list.exhaust prod.exhaust)
  with kvs(2) have free: "NUL \<notin> set k" by (auto simp: plain_param_def free_of_def)
  have "\<exists>c rest. query_text d kvs = c # rest \<and> c \<noteq> NUL"
    using free kv by (cases kvs'; cases k) auto
  then obtain c where c: "char_at ?m (length pre) = Some c" "c \<noteq> NUL" by (auto simp: char_at_append)
  have "0 < length ps" using room(1) kv by (cases ps) auto
  have "query_rest (nat (max_params - 1)) ?m (length pre) d ?ps (Suc 0)
      = Some (int (0 + length kvs), pre @ cut_query kvs @ post, take 0 ?ps @ map Some (positions (length pre) kvs) @ drop (0 + length kvs) ?ps)"
    by (rule query_rest_run) (use kvs d room kv \<open>0 < length ps\<close> in auto)
  with c room kv \<open>0 < length ps\<close> have "yuarel_parse_query ?m (Some (length pre)) d ps max_params = Some (int (length kvs), pre @ cut_query kvs @ post, ?ps')"
    by (simp add: yuarel_parse_query_def set_param_def query_rest_def)
  moreover have "\<exists>kp vp. ?ps' ! i = Some (kp, Some vp)
      \<and> text_at (pre @ cut_query kvs @ post) kp = Some (fst (kvs ! i)) \<and> text_at (pre @ cut_query kvs @ post) vp = Some (snd (kvs ! i))"
    if "i < length kvs" for i
    using positions_text [OF that, of pre post] kvs(2) that by (auto simp: plain_param_def free_of_def nth_append)
  moreover have "length ?ps' = length ps" using room(1) by simp
  ultimately show ?thesis by blast
qed

text \<open>A query string that was put together from key and value pairs (no delimiter, equals sign or NUL
  in a key, no delimiter or NUL in a value), at most as many as the caller allows and has room for, is
  taken apart into the same pairs in the same order, whatever surrounds it in the buffer.\<close>

theorem yuarel_query_roundtrip:
  assumes kvs: "kvs \<noteq> []" "\<forall>kv \<in> set kvs. plain_param d kv" and d: "d \<noteq> NUL" "d \<noteq> CHR ''=''"
    and room: "length kvs \<le> length ps" "int (length kvs) \<le> max_params"
  shows "\<exists>m ps'. yuarel_parse_query (pre @ query_text d kvs @ NUL # post) (Some (length pre)) d ps max_params
      = Some (int (length kvs), m, ps')
    \<and> (\<forall>i < length kvs. \<exists>kp vp. ps' ! i = Some (kp, Some vp)
        \<and> text_at m kp = Some (fst (kvs ! i)) \<and> text_at m vp = Some (snd (kvs ! i)))"
  using yuarel_query_run [OF assms] by blast

theorem yuarel_query_roundtrip_witness:
  "\<exists>m ps'. yuarel_parse_query (''?'' @ query_text (CHR ''&'') [(''xt'', ''urn:btih:ab''), (''dn'', ''a=b'')] @ NUL # ''x'')
      (Some (length ''?'')) (CHR ''&'') (replicate 10 None) 10 = Some (int (length [(''xt'', ''urn:btih:ab''), (''dn'', ''a=b'')]), m, ps')
    \<and> (\<forall>i < length [(''xt'', ''urn:btih:ab''), (''dn'', ''a=b'')]. \<exists>kp vp. ps' ! i = Some (kp, Some vp)
        \<and> text_at m kp = Some (fst ([(''xt'', ''urn:btih:ab''), (''dn'', ''a=b'')] ! i))
        \<and> text_at m vp = Some (snd ([(''xt'', ''urn:btih:ab''), (''dn'', ''a=b'')] ! i)))"
  by (rule yuarel_query_roundtrip) (simp_all add: plain_param_def)

end
