(* ===== verification/Uvg_Ipify.thy ===== *)
theory Uvg_Ipify
  imports Uvg_Yuarel
begin

text \<open>
  How the program learns its public address (\<^verbatim>\<open>src/src/ipify/ipify.c\<close>): one HTTP request and the search for
  the address in the answer. The results of the socket calls are arguments; where the C code calls
  \<open>exit\<close> the outcome is \<open>IpExit\<close>.
\<close>

subsection \<open>Searching in a text\<close>

fun find_sub :: "string \<Rightarrow> string \<Rightarrow> nat option" where
  "find_sub s pat = (if take (length pat) s = pat then Some 0
     else (case s of [] \<Rightarrow> None | _ # r \<Rightarrow> map_option Suc (find_sub r pat)))"

declare find_sub.simps [simp del]

text \<open>\<open>strstr\<close>: the position in the buffer, or NULL.\<close>

definition strstr :: "string \<Rightarrow> nat \<Rightarrow> string \<Rightarrow> nat option option" where
  "strstr m p pat = do { s \<leftarrow> text_at m p; Some (map_option ((+) p) (find_sub s pat)) }"

subsection \<open>The request\<close>

datatype 'a ipify = IpExit | IpOk 'a

record ipify_io =
  ip_socket :: int
  ip_resolved :: bool
  ip_connect :: int
  ip_send :: int
  ip_recv :: "string option"
  ip_shutdown :: int

text \<open>When the name cannot be resolved, the uninitialised list of addresses is released: undefined. The
  value is the descriptor \<open>sfd\<close>.\<close>

definition ipify_connect :: "ipify_io \<Rightarrow> int ipify option" where
  "ipify_connect io =
     (if ip_socket io = - 1 then Some IpExit
      else if \<not> ip_resolved io then None
      else if ip_connect io = - 1 then Some IpExit
      else Some (IpOk (ip_socket io)))"

definition ipify_disconnect :: "ipify_io \<Rightarrow> int \<Rightarrow> unit ipify" where
  "ipify_disconnect io sfd = (if sfd \<noteq> - 1 \<and> ip_shutdown io = - 1 then IpExit else IpOk ())"

text \<open>The address in the JSON text at \<open>p\<close>: NULL, or its position, with the quotation mark behind it
  overwritten. With less than two characters behind the colon the index wraps around.\<close>

definition getIPaddr :: "string \<Rightarrow> nat \<Rightarrow> (nat option \<times> string) option" where
  "getIPaddr m p = do {
     s \<leftarrow> text_at m p;
     r \<leftarrow> strstr m p ''ip'';
     case r of
       None \<Rightarrow> Some (None, m)
     | Some r \<Rightarrow> do {
         t \<leftarrow> text_at m r;
         if length t \<noteq> length s then do {
           let ipbuf = r + length (takeWhile (\<lambda>c. c \<noteq> CHR '':'') t) + 2;
           t \<leftarrow> text_at m ipbuf;
           if length t < 2 then None
           else do {
             m \<leftarrow> set_char m (ipbuf + (length t - 2)) NUL;
             Some (Some ipbuf, m)
           }
         }
         else Some (None, m)
       }
   }"

abbreviation crlf2 :: string where
  "crlf2 \<equiv> [CHR 0x0D, CHR 0x0A, CHR 0x0D, CHR 0x0A]"

text \<open>\<open>m\<close> is the static buffer; \<open>recv\<close> puts at most 4069 characters at its front.\<close>

definition ipify_getIP :: "ipify_io \<Rightarrow> string \<Rightarrow> (nat option \<times> string) ipify option" where
  "ipify_getIP io m =
     (if ip_send io = - 1 then Some IpExit
      else case ip_recv io of
        None \<Rightarrow> Some IpExit
      | Some bs \<Rightarrow> do {
          let m = take (length m) bs @ drop (length bs) m;
          q \<leftarrow> strstr m 0 crlf2;
          case q of
            None \<Rightarrow> Some (IpOk (None, m))
          | Some q \<Rightarrow> map_option IpOk (getIPaddr m (q + 4))
        })"

subsection \<open>Reading an answer\<close>

lemma find_sub_bound: "find_sub s pat = Some i \<Longrightarrow> i + length pat \<le> length s"
proof (induction s arbitrary: i)
  case Nil
  then show ?case by (subst (asm) find_sub.simps) (auto split: if_splits)
next
  case (Cons c s)
  show ?case
  proof (cases "take (length pat) (c # s) = pat")
    case True
    with Cons.prems have "i = 0" by (subst (asm) find_sub.simps) simp
    then show ?thesis using True by (metis add_0 length_take min.cobounded1)
  next
    case False
    with Cons.prems obtain j where "find_sub s pat = Some j" "i = Suc j" by (subst (asm) find_sub.simps) auto
    with Cons.IH show ?thesis by simp
  qed
qed

lemma find_sub_append: "find_sub s pat = Some i \<Longrightarrow> find_sub (s @ t) pat = Some i"
proof (induction s arbitrary: i)
  case Nil
  then have "pat = []" by (subst (asm) find_sub.simps) (auto split: if_splits)
  with Nil show ?case by (subst (asm) find_sub.simps) (subst find_sub.simps, simp)
next
  case (Cons c s)
  have l: "length pat \<le> length (c # s)" using find_sub_bound [OF Cons.prems] by simp
  then have t: "take (length pat) ((c # s) @ t) = take (length pat) (c # s)" unfolding take_append by simp
  show ?case
  proof (cases "take (length pat) (c # s) = pat")
    case True
    with Cons.prems t show ?thesis by (subst (asm) find_sub.simps, subst find_sub.simps) simp
  next
    case False
    with Cons.prems obtain j where "find_sub s pat = Some j" "i = Suc j" by (subst (asm) find_sub.simps) auto
    with Cons.IH t False show ?thesis by (subst find_sub.simps) auto
  qed
qed

text \<open>The answer of the service: a head that ends at the first blank line, and the address as JSON.\<close>

definition ipify_answer :: "string \<Rightarrow> string \<Rightarrow> string" where
  "ipify_answer hdr ip = hdr @ crlf2 @ [CHR ''{'', CHR 0x22] @ ''ip'' @ [CHR 0x22, CHR '':'', CHR 0x22] @ ip @ [CHR 0x22, CHR ''}'']"

lemma find_ip: "find_sub ([CHR ''{'', CHR 0x22] @ ''ip'' @ r) ''ip'' = Some 2"
  by (simp add: find_sub.simps numeral_2_eq_2)

text \<open>
  C39: the address in an answer of the service that fits the buffer is found: the text at the
  pointer that \<open>ipify_getIP\<close> returns is that address, whatever the head of the answer and the address are.
\<close>

theorem ipify_answer_roundtrip:
  assumes hdr: "find_sub (hdr @ crlf2) crlf2 = Some (length hdr)" and nul: "NUL \<notin> set hdr" "NUL \<notin> set ip"
    and fits: "length (ipify_answer hdr ip) < 4069" and io: "ip_send io \<noteq> - 1" "ip_recv io = Some (ipify_answer hdr ip)"
  shows "\<exists>p m. ipify_getIP io (replicate 4069 NUL) = Some (IpOk (Some p, m)) \<and> text_at m p = Some ip"
proof -
  let ?b = "[CHR ''{'', CHR 0x22] @ ''ip'' @ [CHR 0x22, CHR '':'', CHR 0x22] @ ip @ [CHR 0x22, CHR ''}'']"
  define n where "n = 4068 - length (ipify_answer hdr ip)"
  define pre where "pre = hdr @ crlf2"
  have r: "replicate (4069 - length (ipify_answer hdr ip)) NUL = NUL # replicate n NUL"
    using fits by (simp add: n_def Suc_diff_le [symmetric] replicate_Suc [symmetric] del: replicate_Suc)
  let ?m = "pre @ ?b @ NUL # replicate n NUL"
  have m: "take (length (replicate 4069 NUL)) (ipify_answer hdr ip) @ drop (length (ipify_answer hdr ip)) (replicate 4069 NUL) = ?m"
    using fits r by (simp add: ipify_answer_def pre_def)
  have s: "strstr ?m 0 crlf2 = Some (Some (length hdr))"
  proof -
    have "text_at ?m 0 = Some (pre @ ?b)" by (rule text_at_at [of _ "[]" _ "replicate n NUL"]) (use nul in \<open>auto simp: pre_def\<close>)
    with find_sub_append [OF hdr, of ?b] show ?thesis by (simp add: strstr_def pre_def)
  qed
  have t0: "text_at ?m (length pre) = Some ?b" by (rule text_at_at [of _ pre]) (use nul in auto)
  have i: "strstr ?m (length pre) ''ip'' = Some (Some (length pre + 2))" unfolding strstr_def t0 find_ip Option.bind.bind_lunit by simp
  have t1: "text_at ?m (length pre + 2) = Some (''ip'' @ [CHR 0x22, CHR '':'', CHR 0x22] @ ip @ [CHR 0x22, CHR ''}''])"
    by (rule text_at_at [of _ "pre @ [CHR ''{'', CHR 0x22]"]) (use nul in auto)
  have t2: "text_at ?m (length pre + 7) = Some (ip @ [CHR 0x22, CHR ''}''])"
    by (rule text_at_at [of _ "pre @ [CHR ''{'', CHR 0x22] @ ''ip'' @ [CHR 0x22, CHR '':'', CHR 0x22]"]) (use nul in auto)
  let ?q = "pre @ [CHR ''{'', CHR 0x22] @ ''ip'' @ [CHR 0x22, CHR '':'', CHR 0x22]"
  have c: "set_char ?m (length pre + 7 + length ip) NUL = Some (?q @ ip @ NUL # CHR ''}'' # NUL # replicate n NUL)"
    by (subst set_char_at [of _ "?q @ ip" "CHR 0x22" "CHR ''}'' # NUL # replicate n NUL"]) auto
  let ?t1 = "''ip'' @ [CHR 0x22, CHR '':'', CHR 0x22] @ ip @ [CHR 0x22, CHR ''}'']"
  have e: "length pre + 2 + length (takeWhile (\<lambda>c. c \<noteq> CHR '':'') ?t1) + 2 = length pre + 7" "length ?t1 \<noteq> length ?b" by simp_all
  have "getIPaddr ?m (length pre) = Some (Some (length pre + 7), ?q @ ip @ NUL # CHR ''}'' # NUL # replicate n NUL)"
    unfolding getIPaddr_def t0 i Option.bind.bind_lunit option.case t1 Let_def e(1) t2 using c e(2) by simp
  moreover have "length pre = length hdr + 4" by (simp add: pre_def)
  moreover have "text_at (?q @ ip @ NUL # CHR ''}'' # NUL # replicate n NUL) (length pre + 7) = Some ip"
    by (rule text_at_at [of _ ?q]) (use nul in auto)
  ultimately show ?thesis unfolding ipify_getIP_def io(2) option.case Let_def m s Option.bind.bind_lunit using io(1) by auto
qed

theorem ipify_answer_roundtrip_witness:
  "\<exists>p m. ipify_getIP \<lparr>ip_socket = 3, ip_resolved = True, ip_connect = 0, ip_send = 1, ip_recv = Some (ipify_answer ''HTTP/1.1 200 OK'' ''10.0.0.1''), ip_shutdown = 0\<rparr>
      (replicate 4069 NUL) = Some (IpOk (Some p, m)) \<and> text_at m p = Some ''10.0.0.1''"
proof -
  have "find_sub (''HTTP/1.1 200 OK'' @ crlf2) crlf2 = Some (length ''HTTP/1.1 200 OK'')" by code_simp
  then show ?thesis by (rule ipify_answer_roundtrip) (simp_all add: ipify_answer_def)
qed

end
