(* ===== verification/Uvg_Tracker.thy ===== *)
theory Uvg_Tracker
  imports Uvg_Yuarel Uvg_Peer
begin

text \<open>
  The UDP tracker client of \<^verbatim>\<open>src/src/tracker/tracker.c\<close>: connecting to a tracker, announcing the
  torrent and receiving peers, scraping, and the job that the thread pool runs.

  What the network does is an argument: the addresses the host name resolves to with the result of
  connecting to each, and for every round of an exchange whether the datagram was written, what
  \<open>poll\<close> and \<open>read\<close> delivered (see \<open>read_poll\<close>; \<open>None\<close> means that it is still polling) and the cancel
  flag. \<open>unescape\<close> stands for \<open>curl_easy_unescape\<close>. \<open>le\<close> is the byte order of the host.
\<close>

subsection \<open>State\<close>

datatype tracker_status =
    TRACKER_IDLE
  | TRACKER_CONNECTING
  | TRACKER_CONNECTED
  | TRACKER_ANNOUNCING
  | TRACKER_SCRAPING

record tracker =
  public_ip :: string
  url :: string
  host :: string
  tracker_port :: int
  connection_id :: u64
  announce_deadline :: int
  scrape_deadline :: int
  seeders :: u32
  leechers :: u32
  tracker_socket :: int
  tracker_state :: tracker_status
  message_attempts :: int
  tracker_running :: int

record tracker_new_io =
  new_malloc :: bool
  dup_url :: bool
  dup_ip :: bool
  dup_host :: bool

text \<open>\<open>strlen\<close> reads the public address, which may be NULL.\<close>

definition tracker_new :: "(string \<Rightarrow> string option) \<Rightarrow> tracker_new_io \<Rightarrow> string \<Rightarrow> string option \<Rightarrow> tracker option option" where
  "tracker_new unescape io u ip =
     (if \<not> new_malloc io then Some None
      else case unescape u of
        None \<Rightarrow> Some None
      | Some decoded \<Rightarrow>
          if \<not> dup_url io then Some None
          else do {
            ip \<leftarrow> ip;
            (r, y, m) \<leftarrow> (if dup_ip io then yuarel_parse (Some (decoded @ [NUL])) else Some (- 1, no_url, []));
            if r = - 1 then Some None
            else do {
              h \<leftarrow> y_host y;
              h \<leftarrow> text_at m h;
              if \<not> dup_host io then Some None
              else Some (Some \<lparr>public_ip = ip, url = takeWhile (\<lambda>c. c \<noteq> NUL) decoded, host = h, tracker_port = y_port y,
                connection_id = 0, announce_deadline = 0, scrape_deadline = 0, seeders = 0, leechers = 0,
                tracker_socket = 0, tracker_state = TRACKER_IDLE, message_attempts = 0, tracker_running = 0\<rparr>)
            }
          })"

definition tracker_disconnect :: "tracker \<Rightarrow> tracker" where
  "tracker_disconnect tr = (if tracker_socket tr \<noteq> 0 then tr\<lparr>tracker_socket := 0\<rparr> else tr)"

definition tracker_message_failed :: "tracker \<Rightarrow> tracker" where
  "tracker_message_failed tr =
     (tracker_disconnect (tr\<lparr>message_attempts := message_attempts tr + 1\<rparr>))\<lparr>tracker_state := TRACKER_IDLE\<rparr>"

definition tracker_message_succeded :: "tracker \<Rightarrow> tracker" where
  "tracker_message_succeded tr = tr\<lparr>message_attempts := 0\<rparr>"

text \<open>The conversion of the product to \<open>int\<close> is undefined when it does not fit.\<close>

definition tracker_get_timeout :: "tracker \<Rightarrow> int option" where
  "tracker_get_timeout tr =
     (if message_attempts tr < 0 then Some (60 div 2 ^ nat (- message_attempts tr))
      else c_int (60 * 2 ^ nat (message_attempts tr)))"

definition tracker_should_announce :: "int \<Rightarrow> tracker \<Rightarrow> bool" where
  "tracker_should_announce now tr \<longleftrightarrow>
     tracker_state tr = TRACKER_IDLE \<and> announce_deadline tr < now \<and> message_attempts tr < 5"

definition tracker_should_scrape :: "int \<Rightarrow> tracker \<Rightarrow> bool" where
  "tracker_should_scrape now tr \<longleftrightarrow>
     tracker_state tr = TRACKER_IDLE \<and> scrape_deadline tr < now \<and> message_attempts tr < 5"

definition tracker_should_run :: "int \<Rightarrow> int \<Rightarrow> tracker \<Rightarrow> bool" where
  "tracker_should_run now1 now2 tr \<longleftrightarrow>
     (tracker_should_announce now1 tr \<or> tracker_should_scrape now2 tr) \<and> tracker_running tr = 0"

text \<open>\<open>tracker_free\<close> returns NULL; the second component are the descriptors it closes.\<close>

definition tracker_free :: "tracker option \<Rightarrow> tracker option \<times> int list" where
  "tracker_free tr = (None, case tr of
      None \<Rightarrow> []
    | Some t \<Rightarrow> if tracker_socket t \<noteq> 0 then [tracker_socket t] else [])"

subsection \<open>One exchange of datagrams\<close>

record udp_round =
  written :: bool
  polls :: "(poll_outcome \<times> bool) list"
  cancelled :: bool

datatype exchange_result = XWrite | XRead | XShort | XTimeout | XCancelled | XNone | XGot int "u8 list"

text \<open>The loop that sends a datagram and waits five seconds for the answer until the time is used up.
  \<open>good\<close> is the test on the length of the answer, \<open>XNone\<close> the exit of the loop by its condition. The
  second component of the result are the datagrams sent.\<close>

function exchange :: "(nat \<Rightarrow> udp_round) \<Rightarrow> (int \<Rightarrow> bool) \<Rightarrow> u8 list \<Rightarrow> nat \<Rightarrow> int \<Rightarrow> (exchange_result \<times> u8 list list) option" where
  "exchange rounds good msg k t =
     (if t \<le> 0 then Some (XNone, [])
      else if \<not> written (rounds k) then Some (XWrite, [])
      else do {
        (n, bs) \<leftarrow> read_poll 5 (polls (rounds k));
        if n = - 1 then Some (XRead, [msg])
        else if n = 0 then
          if cancelled (rounds k) then Some (XCancelled, [msg])
          else if t - 5 = 0 then Some (XTimeout, [msg])
          else do {
            (r, out) \<leftarrow> exchange rounds good msg (Suc k) (t - 5);
            Some (r, msg # out)
          }
        else if \<not> good n then Some (XShort, [msg])
        else Some (XGot n bs, [msg])
      })"
  by pat_completeness auto

termination exchange
  by (relation "measure (\<lambda>(rounds, good, msg, k, t). nat t)") auto

declare exchange.simps [simp del]

text \<open>The answer in a zeroed buffer of the given size.\<close>

definition answer_buffer :: "nat \<Rightarrow> u8 list \<Rightarrow> u8 list option" where
  "answer_buffer n bs = memcpy_at (replicate n 0) 0 bs"

definition load64 :: "bool \<Rightarrow> u8 list \<Rightarrow> u64" where
  "load64 little bs = load_be64 (if little then rev bs else bs)"

text \<open>A field of a packet in host byte order.\<close>

definition field_u32 :: "bool \<Rightarrow> u8 list \<Rightarrow> nat \<Rightarrow> u32" where
  "field_u32 le m off = ntohl_util le (load32 le (take 4 (drop off m)))"

definition field_u16 :: "bool \<Rightarrow> u8 list \<Rightarrow> nat \<Rightarrow> u16" where
  "field_u16 le m off = ntohs_util le (load16 le (take 2 (drop off m)))"

definition field_u64 :: "bool \<Rightarrow> u8 list \<Rightarrow> nat \<Rightarrow> u64" where
  "field_u64 le m off = ntohll_util le (load64 le (take 8 (drop off m)))"

subsection \<open>Connecting\<close>

text \<open>The loop over the resolved addresses: for each the descriptor of its socket and the calls that
  connect it.\<close>

primrec address_loop :: "(int \<times> connect_calls) list \<Rightarrow> tracker \<Rightarrow> bool \<times> tracker" where
  "address_loop [] tr = (False, tr)"
| "address_loop (a # as) tr =
     (if fst a = - 1 then address_loop as (tr\<lparr>tracker_socket := 0\<rparr>)
      else if connect_wait (snd a) = 0 then (True, tr\<lparr>tracker_socket := fst a\<rparr>)
      else address_loop as (tracker_disconnect (tr\<lparr>tracker_socket := fst a\<rparr>)))"

record exchange_io =
  resolved :: "(int \<times> connect_calls) list option"
  connect_transaction :: u32
  connect_rounds :: "nat \<Rightarrow> udp_round"
  transaction :: u32
  rounds :: "nat \<Rightarrow> udp_round"
  stack_word :: u32
  send_malloc_ok :: bool
  deadline_clock :: int

definition connect_request :: "bool \<Rightarrow> u32 \<Rightarrow> u8 list" where
  "connect_request le tid =
     mem64 le (htonll_util le 0x41727101980) @ mem32 le (htonl_util le 0) @ mem32 le (htonl_util le tid)"

definition connect_answer :: "bool \<Rightarrow> u32 \<Rightarrow> u8 list \<Rightarrow> tracker \<Rightarrow> status \<times> tracker" where
  "connect_answer le tid m tr =
     (if field_u32 le m 0 = 0 then
        if field_u32 le m 4 = tid
        then (EXIT_SUCCESS, (tracker_message_succeded (tr\<lparr>connection_id := field_u64 le m 8\<rparr>))\<lparr>tracker_state := TRACKER_CONNECTED\<rparr>)
        else (EXIT_FAILURE, tracker_disconnect (tracker_message_failed tr))
      else (EXIT_FAILURE, tracker_disconnect (tracker_message_failed tr)))"

text \<open>The port is printed into ten characters.\<close>

definition tracker_connect :: "bool \<Rightarrow> exchange_io \<Rightarrow> tracker \<Rightarrow> (status \<times> tracker \<times> u8 list list) option" where
  "tracker_connect le io tr =
     (let tr = tr\<lparr>tracker_state := TRACKER_CONNECTING\<rparr> in
      if 10 \<le> length (dec_int (tracker_port tr)) then None
      else case resolved io of
        None \<Rightarrow> Some (EXIT_FAILURE, tracker_disconnect tr, [])
      | Some as \<Rightarrow> (case address_loop as tr of
          (False, tr) \<Rightarrow> Some (EXIT_FAILURE, tracker_disconnect (tracker_message_failed tr), [])
        | (True, tr) \<Rightarrow> do {
            t \<leftarrow> tracker_get_timeout tr;
            (x, out) \<leftarrow> exchange (connect_rounds io) (\<lambda>n. n = 16) (connect_request le (connect_transaction io)) 0 t;
            case x of
              XNone \<Rightarrow> (case connect_answer le (connect_transaction io) (replicate 16 0) tr of (r, tr) \<Rightarrow> Some (r, tr, out))
            | XGot n bs \<Rightarrow> do {
                m \<leftarrow> answer_buffer 16 bs;
                case connect_answer le (connect_transaction io) m tr of (r, tr) \<Rightarrow> Some (r, tr, out)
              }
            | XCancelled \<Rightarrow> Some (EXIT_FAILURE, tracker_disconnect tr, out)
            | _ \<Rightarrow> Some (EXIT_FAILURE, tracker_disconnect (tracker_message_failed tr), out)
          }))"

subsection \<open>Announcing\<close>

text \<open>\<open>inet_pton\<close> for IPv4: four decimal numbers without leading zeros.\<close>

definition octet :: "string \<Rightarrow> u8 option" where
  "octet s = (if s \<noteq> [] \<and> (\<forall>c \<in> set s. is_digit c) \<and> dec_value s \<le> 255 \<and> (length s = 1 \<or> hd s \<noteq> CHR ''0'')
              then Some (of_nat (dec_value s)) else None)"

fun split_dots :: "string \<Rightarrow> string \<Rightarrow> string list" where
  "split_dots cur [] = [cur]"
| "split_dots cur (c # s) = (if c = CHR ''.'' then cur # split_dots [] s else split_dots (cur @ [c]) s)"

definition inet_pton :: "bool \<Rightarrow> string \<Rightarrow> u32 option" where
  "inet_pton le s = (case map octet (split_dots [] s) of
      [Some a, Some b, Some c, Some d] \<Rightarrow> Some (load32 le [a, b, c, d])
    | _ \<Rightarrow> None)"

text \<open>The packed struct \<open>TRACKER_UDP_ANNOUNCE_SEND\<close>. The initialiser of \<open>peer_id\<close> sets only its first
  byte.\<close>

definition announce_request ::
  "bool \<Rightarrow> u64 \<Rightarrow> u32 \<Rightarrow> u8 list \<Rightarrow> int \<Rightarrow> int \<Rightarrow> int \<Rightarrow> u32 \<Rightarrow> u16 \<Rightarrow> u8 list" where
  "announce_request le cid tid info_hash down lft up ip prt =
     mem64 le (htonll_util le cid) @ mem32 le (htonl_util le 1) @ mem32 le (htonl_util le tid) @ info_hash
     @ (0x55 # replicate 19 0) @ mem64 le (htonll_util le (of_int down)) @ mem64 le (htonll_util le (of_int lft))
     @ mem64 le (htonll_util le (of_int up)) @ mem32 le (htonl_util le 0) @ mem32 le (htonl_util le ip)
     @ mem32 le (htonl_util le 1) @ mem32 le (htonl_util le (- 1)) @ mem16 le (htons_util le prt)
     @ mem16 le (htons_util le 0)"

abbreviation (input) UDP_MAX :: nat where "UDP_MAX \<equiv> 65507"

record peer_io =
  peer_malloc :: bool
  peer_queue_malloc :: bool
  peer_strndup :: bool
  peer_clock :: int
  peer_node :: "addr option"

text \<open>The loop over the peers of an answer; peer \<open>k\<close> is allocated with \<open>ios k\<close>. A peer that reaches past
  the buffer is undefined. The flag is false when a peer could not be queued.\<close>

function peer_loop ::
  "bool \<Rightarrow> (nat \<Rightarrow> peer_io) \<Rightarrow> u8 list \<Rightarrow> nat \<Rightarrow> nat \<Rightarrow> nat \<Rightarrow> peer option queue \<Rightarrow> (bool \<times> peer option queue) option" where
  "peer_loop le ios m len pos k q =
     (if pos < len then
        if length m < pos + 6 then None
        else let ip = field_u32 le m pos; prt = field_u16 le m (pos + 4) in
          if ip = 0 then Some (True, q)
          else do {
            p \<leftarrow> peer_new le (peer_malloc (ios k)) (peer_queue_malloc (ios k)) (peer_strndup (ios k)) (peer_clock (ios k)) ip prt;
            (r, q) \<leftarrow> queue_push q (peer_node (ios k)) p;
            if r = EXIT_FAILURE then Some (False, q) else peer_loop le ios m len (pos + 6) (Suc k) q
          }
      else Some (True, q))"
  by pat_completeness auto

termination peer_loop
  by (relation "measure (\<lambda>(le, ios, m, len, pos, k, q). len - pos)") auto

declare peer_loop.simps [simp del]

definition announce_answer ::
  "bool \<Rightarrow> exchange_io \<Rightarrow> (nat \<Rightarrow> peer_io) \<Rightarrow> u8 list \<Rightarrow> nat \<Rightarrow> peer option queue \<Rightarrow> tracker
    \<Rightarrow> (status \<times> tracker \<times> peer option queue) option" where
  "announce_answer le io ios m len q tr =
     (if field_u32 le m 0 = 1 then
        if field_u32 le m 4 = transaction io then do {
          ms \<leftarrow> c_int (int32_of (uint (field_u32 le m 8)) * 1000);
          let tr = tr\<lparr>announce_deadline := deadline_clock io + ms\<rparr>;
          (all, q) \<leftarrow> peer_loop le ios m len 20 0 q;
          if all then Some (EXIT_SUCCESS, (tracker_message_succeded tr)\<lparr>tracker_state := TRACKER_IDLE\<rparr>, q)
          else Some (EXIT_FAILURE, tr, q)
        }
        else Some (EXIT_FAILURE, tracker_message_failed tr, q)
      else Some (EXIT_FAILURE, tracker_message_failed tr, q))"

definition tracker_announce ::
  "bool \<Rightarrow> exchange_io \<Rightarrow> (nat \<Rightarrow> peer_io) \<Rightarrow> int \<Rightarrow> int \<Rightarrow> int \<Rightarrow> u16 \<Rightarrow> u8 list \<Rightarrow> peer option queue \<Rightarrow> tracker
    \<Rightarrow> (status \<times> tracker \<times> peer option queue \<times> u8 list list) option" where
  "tracker_announce le io ios down lft up prt info_hash q tr =
     (if tracker_state tr \<noteq> TRACKER_CONNECTED then Some (EXIT_FAILURE, tr, q, [])
      else do {
        let tr = tr\<lparr>tracker_state := TRACKER_ANNOUNCING\<rparr>;
        let ip = (case inet_pton le (public_ip tr) of Some a \<Rightarrow> a | None \<Rightarrow> stack_word io);
        t \<leftarrow> tracker_get_timeout tr;
        (x, out) \<leftarrow> exchange (rounds io) (\<lambda>n. 20 \<le> n)
          (announce_request le (connection_id tr) (transaction io) info_hash down lft up ip prt) 0 t;
        case x of
          XNone \<Rightarrow> map_option (\<lambda>(r, tr, q). (r, tr, q, out)) (announce_answer le io ios (replicate UDP_MAX 0) 0 q tr)
        | XGot n bs \<Rightarrow> do {
            m \<leftarrow> answer_buffer UDP_MAX bs;
            map_option (\<lambda>(r, tr, q). (r, tr, q, out)) (announce_answer le io ios m (nat n) q tr)
          }
        | XCancelled \<Rightarrow> Some (EXIT_FAILURE, tr, q, out)
        | _ \<Rightarrow> Some (EXIT_FAILURE, tracker_message_failed tr, q, out)
      })"

subsection \<open>Scraping\<close>

definition scrape_request :: "bool \<Rightarrow> u64 \<Rightarrow> u32 \<Rightarrow> u8 list \<Rightarrow> u8 list" where
  "scrape_request le cid tid info_hash =
     mem64 le (htonll_util le cid) @ mem32 le (htonl_util le 2) @ mem32 le (htonl_util le tid) @ info_hash"

text \<open>An answer with another action or transaction changes nothing, and counts as a success.\<close>

definition scrape_answer :: "bool \<Rightarrow> exchange_io \<Rightarrow> u8 list \<Rightarrow> tracker \<Rightarrow> tracker" where
  "scrape_answer le io m tr =
     (if field_u32 le m 0 = 2 \<and> field_u32 le m 4 = transaction io
      then (tracker_message_succeded (tr\<lparr>scrape_deadline := deadline_clock io + (15 * 60) * 1000,
        seeders := field_u32 le m 8, leechers := field_u32 le m 16\<rparr>))\<lparr>tracker_state := TRACKER_IDLE\<rparr>
      else tr)"

definition tracker_scrape ::
  "bool \<Rightarrow> exchange_io \<Rightarrow> u8 list \<Rightarrow> tracker \<Rightarrow> (status \<times> tracker \<times> u8 list list) option" where
  "tracker_scrape le io info_hash tr =
     (if tracker_state tr \<noteq> TRACKER_CONNECTED then Some (EXIT_FAILURE, tr, [])
      else do {
        let tr = tr\<lparr>tracker_state := TRACKER_SCRAPING\<rparr>;
        _ \<leftarrow> (if send_malloc_ok io then Some () else None);
        t \<leftarrow> tracker_get_timeout tr;
        (x, out) \<leftarrow> exchange (rounds io) (\<lambda>n. 8 \<le> n) (scrape_request le (connection_id tr) (transaction io) info_hash) 0 t;
        case x of
          XNone \<Rightarrow> Some (EXIT_SUCCESS, scrape_answer le io (replicate UDP_MAX 0) tr, out)
        | XGot n bs \<Rightarrow> do {
            m \<leftarrow> answer_buffer UDP_MAX bs;
            Some (EXIT_SUCCESS, scrape_answer le io m tr, out)
          }
        | XCancelled \<Rightarrow> Some (EXIT_FAILURE, tr, out)
        | _ \<Rightarrow> Some (EXIT_FAILURE, tracker_message_failed tr, out)
      })"

subsection \<open>The job\<close>

record tracker_run_io =
  cancel1 :: bool
  announce_time :: int
  announce_io :: exchange_io
  announce_peers :: "nat \<Rightarrow> peer_io"
  cancel2 :: bool
  scrape_time :: int
  scrape_io :: exchange_io

text \<open>The scraping half; \<open>out\<close> are the datagrams of a failed attempt to connect before it.\<close>

definition run_scrape ::
  "bool \<Rightarrow> tracker_run_io \<Rightarrow> u8 list \<Rightarrow> peer option queue \<Rightarrow> tracker \<Rightarrow> u8 list list
    \<Rightarrow> (status \<times> tracker \<times> peer option queue \<times> u8 list list) option" where
  "run_scrape le io info_hash q tr out =
     (if cancel2 io then Some (EXIT_FAILURE, tr, q, out)
      else if tracker_should_scrape (scrape_time io) tr then do {
        (r, tr, o1) \<leftarrow> tracker_connect le (scrape_io io) tr;
        if r = EXIT_SUCCESS then do {
          (_, tr, o2) \<leftarrow> tracker_scrape le (scrape_io io) info_hash tr;
          Some (EXIT_SUCCESS, (tracker_disconnect tr)\<lparr>tracker_running := 0\<rparr>, q, out @ o1 @ o2)
        }
        else Some (EXIT_FAILURE, tr\<lparr>tracker_running := 0\<rparr>, q, out @ o1)
      }
      else Some (EXIT_FAILURE, tr\<lparr>tracker_running := 0\<rparr>, q, out))"

definition tracker_run ::
  "bool \<Rightarrow> tracker_run_io \<Rightarrow> torrent_data \<Rightarrow> u16 \<Rightarrow> u8 list \<Rightarrow> peer option queue \<Rightarrow> tracker
    \<Rightarrow> (status \<times> tracker \<times> peer option queue \<times> u8 list list) option" where
  "tracker_run le io td prt info_hash q tr =
     (if cancel1 io then Some (EXIT_FAILURE, tr, q, [])
      else if tracker_should_announce (announce_time io) tr then do {
        (r, tr, o1) \<leftarrow> tracker_connect le (announce_io io) tr;
        if r = EXIT_SUCCESS then do {
          (_, tr, q, o2) \<leftarrow> tracker_announce le (announce_io io) (announce_peers io) (downloaded td) (left td) (uploaded td)
            prt info_hash q tr;
          Some (EXIT_SUCCESS, (tracker_disconnect tr)\<lparr>tracker_running := 0\<rparr>, q, o1 @ o2)
        }
        else run_scrape le io info_hash q tr o1
      }
      else run_scrape le io info_hash q tr [])"

subsection \<open>Fields and buffers\<close>

lemma be16_inject: "be16 v = be16 w \<longleftrightarrow> v = w"
  by (metis load_be16_be16)

lemma load16_mem16: "load16 little (mem16 little w) = w"
  by (simp add: load16_def mem16_def)

lemma be32_nonempty [simp]: "be32 w \<noteq> []"
  by (simp add: be32_def)

lemma bswap16_involution: "bswap16 (bswap16 w) = w"
  by (metis be16_bswap16 load_be16_be16 rev_rev_ident)

lemma ntohs_load16_be16 [simp]: "ntohs_util little (load16 little (be16 w)) = w"
proof -
  have "load16 little (be16 w) = htons_util little w" by (metis load16_mem16 mem16_htons)
  then show ?thesis
    by (simp add: ntohs_util_def htons_util_def little_endianess_correct libc_ntohs_def bswap16_involution)
qed

lemma field_u32_be32: "m = a @ be32 w @ r \<Longrightarrow> p = length a \<Longrightarrow> field_u32 le m p = w"
  by (simp add: field_u32_def)

lemma field_u16_be16: "m = a @ be16 w @ r \<Longrightarrow> p = length a \<Longrightarrow> field_u16 le m p = w"
  by (simp add: field_u16_def)

lemma answer_buffer_run: "length bs \<le> n \<Longrightarrow> answer_buffer n bs = Some (bs @ replicate (n - length bs) 0)"
  by (simp add: answer_buffer_def memcpy_at_def splice_def)

subsection \<open>The exchange\<close>

lemma exchange_sent:
  "exchange rs good msg k t = Some (x, out) \<Longrightarrow> set out \<subseteq> {msg} \<and> 5 * int (length out) \<le> max 0 (t + 4)"
proof (induction rs good msg k t arbitrary: x out rule: exchange.induct)
  case (1 rs good msg k t)
  show ?case
  proof (cases "t \<le> 0 \<or> \<not> written (rs k)")
    case True
    with "1.prems" show ?thesis by (auto simp: exchange.simps [of _ _ _ k t] split: if_splits)
  next
    case False
    with "1.prems" obtain n bs where r: "read_poll 5 (polls (rs k)) = Some (n, bs)"
      by (auto simp: exchange.simps [of _ _ _ k t] split: bind_splits)
    show ?thesis
    proof (cases "n = 0 \<and> \<not> cancelled (rs k) \<and> t \<noteq> 5")
      case True
      with False r "1.prems" obtain y o1 where o1: "exchange rs good msg (Suc k) (t - 5) = Some (y, o1)" "out = msg # o1"
        by (auto simp: exchange.simps [of _ _ _ k t] split: bind_splits)
      from True r False have "set o1 \<subseteq> {msg} \<and> 5 * int (length o1) \<le> max 0 (t - 5 + 4)"
        by (intro "1.IH" [OF _ _ _ _ _ _ _ _ o1(1)]) auto
      with o1(2) False show ?thesis by auto
    next
      case stop: False
      with False r "1.prems" have "out = [msg]"
        by (auto simp: exchange.simps [of _ _ _ k t] split: if_splits)
      with False show ?thesis by auto
    qed
  qed
qed


lemma exchange_one:
  "0 < t \<Longrightarrow> written (rs 0) \<Longrightarrow> polls (rs 0) = (PollReadable (int (length bs)) bs, False) # rest \<Longrightarrow> good (int (length bs))
   \<Longrightarrow> bs \<noteq> [] \<Longrightarrow> exchange rs good msg 0 t = Some (XGot (int (length bs)) bs, [msg])"
  by (simp add: exchange.simps [of _ _ _ 0 t])

lemma exchange_no_gap:
  "exchange rs good msg k t = Some (x, out) \<Longrightarrow> 0 < t \<Longrightarrow> 5 dvd t \<Longrightarrow> x \<noteq> XNone"
proof (induction rs good msg k t arbitrary: x out rule: exchange.induct)
  case (1 rs good msg k t)
  have "t \<noteq> 5 \<Longrightarrow> 0 < t - 5" using "1.prems"(2,3) by (auto elim!: dvdE)
  moreover have "5 dvd t - 5" using "1.prems"(3) by (simp add: dvd_diff)
  ultimately show ?case
    using "1.prems"(1,2) "1.IH"
    by (auto simp: exchange.simps [of _ _ _ k t] split: if_splits bind_splits)
qed

subsection \<open>What an operation leaves\<close>

definition tracker_ok :: "tracker \<Rightarrow> bool" where
  "tracker_ok tr \<longleftrightarrow> 0 \<le> message_attempts tr \<and> message_attempts tr \<le> 5 \<and> tracker_socket tr = 0
     \<and> tracker_state tr \<noteq> TRACKER_CONNECTED"

lemmas tracker_update_defs = tracker_disconnect_def tracker_message_failed_def tracker_message_succeded_def

lemma tracker_disconnect_fields:
  "tracker_socket (tracker_disconnect tr) = 0" "tracker_state (tracker_disconnect tr) = tracker_state tr"
  "message_attempts (tracker_disconnect tr) = message_attempts tr" "tracker_running (tracker_disconnect tr) = tracker_running tr"
  by (simp_all add: tracker_disconnect_def)

lemma tracker_get_timeout_run:
  assumes "0 \<le> message_attempts tr" "message_attempts tr \<le> 5"
  shows "tracker_get_timeout tr = Some (60 * 2 ^ nat (message_attempts tr))"
proof -
  define p :: int where "p = 2 ^ nat (message_attempts tr)"
  have "p \<le> 2 ^ 5" unfolding p_def using assms by (intro power_increasing) auto
  moreover have "0 \<le> p" by (simp add: p_def)
  ultimately have "c_int (60 * p) = Some (60 * p)" by (simp add: c_int_def)
  with assms(1) show ?thesis by (simp add: tracker_get_timeout_def p_def)
qed

lemma exchange_sent_60:
  assumes "exchange rs good msg k (60 * 2 ^ a) = Some (x, out)"
  shows "set out \<subseteq> {msg}" "length out \<le> 12 * 2 ^ a"
proof -
  have "set out \<subseteq> {msg} \<and> 5 * int (length out) \<le> max 0 (60 * 2 ^ a + 4)" using exchange_sent [OF assms] .
  then have s: "set out \<subseteq> {msg}" and "5 * int (length out) \<le> 60 * 2 ^ a + 4" by auto
  then have "int (length out) \<le> int (12 * 2 ^ a)" by simp
  with s show "set out \<subseteq> {msg}" "length out \<le> 12 * 2 ^ a" by (simp, linarith)
qed

lemma address_loop_frame:
  "address_loop as tr = (b, tr') \<Longrightarrow> tracker_state tr' = tracker_state tr \<and> message_attempts tr' = message_attempts tr
     \<and> tracker_running tr' = tracker_running tr \<and> tracker_port tr' = tracker_port tr"
  by (induction as arbitrary: tr) (auto simp: tracker_disconnect_def split: if_splits)

lemma connect_answer_outcome:
  "connect_answer le tid m tr = (r, tr') \<Longrightarrow>
     (if r = EXIT_SUCCESS then tracker_state tr' = TRACKER_CONNECTED \<and> message_attempts tr' = 0
      else tracker_socket tr' = 0 \<and> tracker_state tr' = TRACKER_IDLE \<and> message_attempts tr' = message_attempts tr + 1)
     \<and> tracker_running tr' = tracker_running tr"
  by (auto simp: connect_answer_def tracker_update_defs split: if_splits)

lemma tracker_connect_outcome:
  assumes run: "tracker_connect le io tr = Some (r, tr', out)"
    and a: "0 \<le> message_attempts tr" "message_attempts tr \<le> 4"
  shows "set out \<subseteq> {connect_request le (connect_transaction io)} \<and> length out \<le> 12 * 2 ^ nat (message_attempts tr)
    \<and> tracker_running tr' = tracker_running tr
    \<and> (if r = EXIT_SUCCESS then tracker_state tr' = TRACKER_CONNECTED \<and> message_attempts tr' = 0
        else tracker_socket tr' = 0
          \<and> (tracker_state tr' = TRACKER_CONNECTING \<and> message_attempts tr' = message_attempts tr
             \<or> tracker_state tr' = TRACKER_IDLE \<and> message_attempts tr' = message_attempts tr + 1))"
proof (cases "resolved io")
  case None
  with run show ?thesis by (auto simp: tracker_connect_def tracker_update_defs Let_def split: if_splits)
next
  case (Some as)
  obtain b t1 where l: "address_loop as (tr\<lparr>tracker_state := TRACKER_CONNECTING\<rparr>) = (b, t1)" by fastforce
  from address_loop_frame [OF l] have t1: "tracker_state t1 = TRACKER_CONNECTING"
    "message_attempts t1 = message_attempts tr" "tracker_running t1 = tracker_running tr" by auto
  show ?thesis
  proof (cases b)
    case False
    with run Some l t1 show ?thesis
      by (auto simp: tracker_connect_def tracker_update_defs Let_def split: if_splits)
  next
    case True
    with run Some l t1 a obtain x where x:
      "exchange (connect_rounds io) (\<lambda>n. n = 16) (connect_request le (connect_transaction io)) 0
         (60 * 2 ^ nat (message_attempts tr)) = Some (x, out)"
      by (auto simp: tracker_connect_def tracker_get_timeout_run Let_def
          split: if_splits bind_splits exchange_result.splits prod.splits)
    note sent = exchange_sent_60 [OF x]
    from True run Some l t1 a x show ?thesis
      using sent
      by (auto simp: tracker_connect_def tracker_get_timeout_run Let_def tracker_update_defs
          split: if_splits bind_splits exchange_result.splits prod.splits dest!: connect_answer_outcome)
  qed
qed

lemma announce_answer_outcome:
  "announce_answer le io ios m len q tr = Some (r, tr', q') \<Longrightarrow> tracker_state tr = TRACKER_ANNOUNCING \<Longrightarrow> message_attempts tr = 0
   \<Longrightarrow> tracker_running tr' = tracker_running tr \<and> tracker_state tr' \<in> {TRACKER_IDLE, TRACKER_ANNOUNCING}
     \<and> message_attempts tr' \<in> {0, 1} \<and> (r = EXIT_SUCCESS \<longrightarrow> tracker_state tr' = TRACKER_IDLE \<and> message_attempts tr' = 0)"
  by (auto simp: announce_answer_def tracker_update_defs Let_def split: if_splits bind_splits)

lemma tracker_announce_outcome:
  assumes run: "tracker_announce le io ios down lft up prt info_hash q tr = Some (r, tr', q', out)"
    and s: "tracker_state tr = TRACKER_CONNECTED" "message_attempts tr = 0"
  shows "length out \<le> 12 \<and> tracker_running tr' = tracker_running tr
    \<and> tracker_state tr' \<in> {TRACKER_IDLE, TRACKER_ANNOUNCING} \<and> message_attempts tr' \<in> {0, 1}"
proof -
  from run s obtain x msg where x: "exchange (rounds io) (\<lambda>n. 20 \<le> n) msg 0 (60 * 2 ^ 0) = Some (x, out)"
    by (auto simp: tracker_announce_def tracker_get_timeout_run Let_def
        split: if_splits bind_splits exchange_result.splits)
  from exchange_sent_60(2) [OF x] have "length out \<le> 12" by simp
  with run s x show ?thesis
    by (auto simp: tracker_announce_def tracker_get_timeout_run Let_def tracker_update_defs
        split: if_splits bind_splits exchange_result.splits dest!: announce_answer_outcome)
qed

lemma tracker_scrape_outcome:
  assumes run: "tracker_scrape le io info_hash tr = Some (r, tr', out)"
    and s: "tracker_state tr = TRACKER_CONNECTED" "message_attempts tr = 0"
  shows "length out \<le> 12 \<and> tracker_running tr' = tracker_running tr
    \<and> tracker_state tr' \<in> {TRACKER_IDLE, TRACKER_SCRAPING} \<and> message_attempts tr' \<in> {0, 1}"
proof -
  from run s obtain x msg where x: "exchange (rounds io) (\<lambda>n. 8 \<le> n) msg 0 (60 * 2 ^ 0) = Some (x, out)"
    by (auto simp: tracker_scrape_def tracker_get_timeout_run Let_def
        split: if_splits bind_splits exchange_result.splits)
  from exchange_sent_60(2) [OF x] have "length out \<le> 12" by simp
  with run s x show ?thesis
    by (auto simp: tracker_scrape_def scrape_answer_def tracker_get_timeout_run Let_def tracker_update_defs
        split: if_splits bind_splits exchange_result.splits)
qed

lemma power_12_bound: "0 \<le> a \<Longrightarrow> a \<le> int n \<Longrightarrow> length xs \<le> 12 * 2 ^ nat a \<Longrightarrow> length xs \<le> 12 * 2 ^ n"
  by (rule order_trans, assumption) (simp add: nat_le_iff)

lemma run_scrape_outcome:
  assumes run: "run_scrape le io info_hash q tr out = Some (r, tr', q', out')" and ok: "tracker_ok tr"
  shows "tracker_ok tr' \<and> q' = q \<and> (tracker_running tr' = 0 \<or> cancel2 io \<and> r = EXIT_FAILURE \<and> tr' = tr) \<and> length out' \<le> length out + 204"
proof (cases "\<not> cancel2 io \<and> tracker_should_scrape (scrape_time io) tr")
  case False
  with run ok show ?thesis by (auto simp: run_scrape_def tracker_ok_def split: if_splits)
next
  case True
  with ok have a: "0 \<le> message_attempts tr" "message_attempts tr \<le> 4"
    by (auto simp: tracker_should_scrape_def tracker_ok_def)
  from True run obtain c t1 o1 where c: "tracker_connect le (scrape_io io) tr = Some (c, t1, o1)"
    by (auto simp: run_scrape_def split: bind_splits)
  note co = tracker_connect_outcome [OF c a]
  from co have o1: "length o1 \<le> 192" using power_12_bound [OF a(1), of 4 o1] a(2) by simp
  show ?thesis
  proof (cases "c = EXIT_SUCCESS")
    case False
    with True run c co o1 a show ?thesis by (auto simp: run_scrape_def tracker_ok_def)
  next
    case s: True
    with True run c obtain x t2 o2 where x: "tracker_scrape le (scrape_io io) info_hash t1 = Some (x, t2, o2)"
      by (auto simp: run_scrape_def split: bind_splits)
    from co s have "tracker_state t1 = TRACKER_CONNECTED" "message_attempts t1 = 0" by auto
    from tracker_scrape_outcome [OF x this] True run c s x o1 show ?thesis
      by (auto simp: run_scrape_def tracker_ok_def tracker_disconnect_fields)
  qed
qed

subsection \<open>Properties\<close>

text \<open>
  C10: whatever the network answers, a run of the tracker job that is defined leaves no socket open and the number of
  failed attempts between 0 and 5 (so that the timeout never overflows), and sends at most 300
  datagrams. A run that is not cancelled clears \<open>running\<close> and so allows the next one. A run that fails because
  the cancel flag is set leaves \<open>running\<close> as it was, and one that is cancelled at its start changes nothing: the promise
  of \<^verbatim>\<open>tracker.h\<close> that the job resets \<open>running\<close> does not hold for these.
\<close>

theorem tracker_run_invariant:
  assumes run: "tracker_run le io td prt info_hash q tr = Some (r, tr', q', out)" and ok: "tracker_ok tr"
  shows "tracker_ok tr' \<and> length out \<le> 300
    \<and> (tracker_running tr' = 0 \<or> (cancel1 io \<or> cancel2 io) \<and> r = EXIT_FAILURE \<and> tracker_running tr' = tracker_running tr)
    \<and> (cancel1 io \<longrightarrow> r = EXIT_FAILURE \<and> tr' = tr \<and> q' = q \<and> out = [])"
proof (cases "\<not> cancel1 io \<and> tracker_should_announce (announce_time io) tr")
  case False
  with run ok show ?thesis
    by (auto simp: tracker_run_def split: if_splits dest!: run_scrape_outcome)
next
  case True
  with ok have a: "0 \<le> message_attempts tr" "message_attempts tr \<le> 4"
    by (auto simp: tracker_should_announce_def tracker_ok_def)
  from True run obtain c t1 o1 where c: "tracker_connect le (announce_io io) tr = Some (c, t1, o1)"
    by (auto simp: tracker_run_def split: bind_splits)
  note co = tracker_connect_outcome [OF c a]
  from co have o1: "length o1 \<le> 192" using power_12_bound [OF a(1), of 4 o1] a(2) by simp
  show ?thesis
  proof (cases "c = EXIT_SUCCESS")
    case False
    with co a have ok1: "tracker_ok t1" by (auto simp: tracker_ok_def)
    from False True run c have rs: "run_scrape le io info_hash q t1 o1 = Some (r, tr', q', out)"
      by (simp add: tracker_run_def)
    have "length out \<le> 300"
    proof (cases "tracker_should_scrape (scrape_time io) t1")
      case False
      with rs have "out = o1" by (auto simp: run_scrape_def split: if_splits)
      with o1 show ?thesis by simp
    next
      case True
      with co \<open>c \<noteq> EXIT_SUCCESS\<close> have "message_attempts tr \<le> 3" by (auto simp: tracker_should_scrape_def)
      with co have "length o1 \<le> 96" using power_12_bound [OF a(1), of 3 o1] by simp
      with run_scrape_outcome [OF rs ok1] show ?thesis by simp
    qed
    with run_scrape_outcome [OF rs ok1] True co show ?thesis by auto
  next
    case s: True
    with True run c obtain x t2 q2 o2 where x: "tracker_announce le (announce_io io) (announce_peers io) (downloaded td)
        (left td) (uploaded td) prt info_hash q t1 = Some (x, t2, q2, o2)"
      by (auto simp: tracker_run_def split: bind_splits)
    from co s have "tracker_state t1 = TRACKER_CONNECTED" "message_attempts t1 = 0" by auto
    from tracker_announce_outcome [OF x this] True run c s x o1 show ?thesis
      by (auto simp: tracker_run_def tracker_ok_def tracker_disconnect_fields)
  qed
qed

text \<open>What a run hands over. The answers of the tracker are packets in network byte order.\<close>

definition connect_packet :: "u32 \<Rightarrow> u64 \<Rightarrow> u8 list" where
  "connect_packet tid cid = be32 0 @ be32 tid @ be64 cid"

definition peer_packet :: "(u32 \<times> u16) list \<Rightarrow> u8 list" where
  "peer_packet ps = concat (map (\<lambda>(ip, prt). be32 ip @ be16 prt) ps)"

definition announce_packet :: "u32 \<Rightarrow> u32 \<Rightarrow> u32 \<Rightarrow> u32 \<Rightarrow> (u32 \<times> u16) list \<Rightarrow> u8 list" where
  "announce_packet tid interval l s ps = be32 1 @ be32 tid @ be32 interval @ be32 l @ be32 s @ peer_packet ps"

definition answers :: "(nat \<Rightarrow> udp_round) \<Rightarrow> u8 list \<Rightarrow> bool" where
  "answers rs bs \<longleftrightarrow> written (rs 0) \<and> polls (rs 0) = [(PollReadable (int (length bs)) bs, False)]"

lemma length_peer_packet [simp]: "length (peer_packet ps) = 6 * length ps"
  by (induction ps) (auto simp: peer_packet_def)

lemma peer_packet_Cons: "peer_packet ((ip, prt) # ps) = be32 ip @ be16 prt @ peer_packet ps"
  by (simp add: peer_packet_def)

text \<open>The node of each pushed peer is fresh, and the allocations succeed.\<close>

definition fresh_nodes :: "(nat \<Rightarrow> peer_io) \<Rightarrow> nat \<Rightarrow> nat \<Rightarrow> peer option queue \<Rightarrow> bool" where
  "fresh_nodes ios k n q \<longleftrightarrow> (\<forall>j \<in> {k..<k + n}. peer_malloc (ios j) \<and> peer_queue_malloc (ios j) \<and> peer_strndup (ios j)
     \<and> (\<exists>a. peer_node (ios j) = Some a \<and> fresh_in (nodes q) a)) \<and> inj_on (\<lambda>j. peer_node (ios j)) {k..<k + n}"

lemma byteswap64_involution: "byteswap64 True (byteswap64 True z) = z"
  by (metis be64_byteswap64 load_be64_be64 rev_rev_ident)

lemma ntohll_load64 [simp]: "ntohll_util little (load64 little (be64 w)) = w"
  using be64_byteswap64 [of w, symmetric] byteswap64_involution [of w]
  by (cases little) (auto simp: load64_def ntohll_util_def little_endianess_correct)

lemma queue_push_nodes:
  "queue_push q (Some a) x = Some (r, q') \<Longrightarrow> fresh_in (nodes q) b \<Longrightarrow> a \<noteq> b \<Longrightarrow> fresh_in (nodes q') b"
  by (auto simp: queue_push_def fresh_in_def Let_def split: if_splits bind_splits)

lemma fresh_nodes_head:
  assumes "fresh_nodes ios k (Suc n) q"
  obtains a where "peer_node (ios k) = Some a" "fresh_in (nodes q) a"
    "peer_malloc (ios k)" "peer_queue_malloc (ios k)" "peer_strndup (ios k)"
  using assms that by (auto simp: fresh_nodes_def dest: bspec [where x = k])

lemma fresh_nodes_push:
  assumes f: "fresh_nodes ios k (Suc n) q" and p: "queue_push q (peer_node (ios k)) x = Some (r, q')"
  shows "fresh_nodes ios (Suc k) n q'"
proof -
  from f obtain a where a: "peer_node (ios k) = Some a" by (rule fresh_nodes_head)
  have inj: "inj_on (\<lambda>j. peer_node (ios j)) {k..<k + Suc n}" using f by (simp add: fresh_nodes_def)
  have "\<exists>b. peer_node (ios j) = Some b \<and> fresh_in (nodes q') b" if j: "Suc k \<le> j" "j < Suc (k + n)" for j
  proof -
    from f j obtain b where b: "peer_node (ios j) = Some b" "fresh_in (nodes q) b" by (force simp: fresh_nodes_def)
    have "a \<noteq> b" using inj_onD [OF inj, of k j] a b(1) j by auto
    with queue_push_nodes [OF p [unfolded a] b(2)] b(1) show ?thesis by simp
  qed
  moreover have "inj_on (\<lambda>j. peer_node (ios j)) {Suc k..<Suc k + n}"
    by (rule inj_on_subset [OF inj]) auto
  ultimately show ?thesis using f by (auto simp: fresh_nodes_def)
qed

definition found_peer :: "bool \<Rightarrow> int \<Rightarrow> u32 \<times> u16 \<Rightarrow> peer option" where
  "found_peer le now = (\<lambda>(ip, prt). the (peer_new le True True True now ip prt))"

lemma peer_new_found: "peer_new le True True True now ip prt = Some (found_peer le now (ip, prt))"
  by (simp add: found_peer_def peer_new_def queue_new_def)

lemma peer_loop_delivers:
  assumes "m = pre @ peer_packet ps @ post" "pos = length pre" "len = pos + 6 * length ps" "\<forall>(ip, prt) \<in> set ps. ip \<noteq> 0"
    "queue_rep q qs" "fresh_nodes ios k (length ps) q"
  shows "\<exists>q'. peer_loop le ios m len pos k q = Some (True, q')
    \<and> queue_rep q' (qs @ map2 (\<lambda>j. found_peer le (peer_clock (ios j))) [k..<k + length ps] ps)"
  using assms
proof (induction ps arbitrary: pre pos k q qs)
  case Nil
  then show ?case by (simp add: peer_loop.simps)
next
  case (Cons p ps)
  obtain ip prt where p: "p = (ip, prt)" by (cases p)
  from Cons.prems(6) obtain a where a: "peer_node (ios k) = Some a" "fresh_in (nodes q) a"
    and ok: "peer_malloc (ios k)" "peer_queue_malloc (ios k)" "peer_strndup (ios k)"
    by (auto elim: fresh_nodes_head)
  let ?x = "found_peer le (peer_clock (ios k)) p"
  obtain q1 where q1: "queue_push q (peer_node (ios k)) ?x = Some (EXIT_SUCCESS, q1)" "queue_rep q1 (qs @ [?x])"
    using qi.push_law [OF Cons.prems(5) a(2), of ?x] a(1) by auto
  have m: "m = (pre @ be32 ip @ be16 prt) @ peer_packet ps @ post"
    using Cons.prems(1) by (simp add: p peer_packet_Cons)
  have fr: "fresh_nodes ios (Suc k) (length ps) q1"
    using Cons.prems(6) by (intro fresh_nodes_push [of ios k "length ps" q, OF _ q1(1)]) simp
  obtain q' where q': "peer_loop le ios m len (pos + 6) (Suc k) q1 = Some (True, q')"
    "queue_rep q' ((qs @ [?x]) @ map2 (\<lambda>j. found_peer le (peer_clock (ios j))) [Suc k..<Suc k + length ps] ps)"
    using Cons.IH [OF m _ _ _ q1(2) fr, of "pos + 6"] Cons.prems(2-4) by (auto simp del: upt_Suc)
  have f: "field_u32 le m pos = ip" "field_u16 le m (pos + 4) = prt" "ip \<noteq> 0" "pos + 6 \<le> length m" "pos < len"
    using m Cons.prems(2-4) by (simp_all add: field_u32_def field_u16_def p)
  have "peer_loop le ios m len pos k q = Some (True, q')"
    using f q1(1) ok q'(1) by (simp add: peer_loop.simps [of _ _ _ _ pos] peer_new_found p)
  moreover have "[k..<k + length (p # ps)] = k # [Suc k..<Suc k + length ps]" by (simp add: upt_conv_Cons del: upt_Suc)
  ultimately show ?case using q'(2) by simp
qed

lemma tracker_connect_run:
  assumes "length (dec_int (tracker_port tr)) < 10" "resolved io = Some ((s, cc) # as)" "s \<noteq> - 1" "connect_wait cc = 0"
    "0 \<le> message_attempts tr" "message_attempts tr \<le> 4" "answers (connect_rounds io) (connect_packet (connect_transaction io) cid)"
  shows "tracker_connect le io tr = Some (EXIT_SUCCESS,
    tr\<lparr>tracker_socket := s, connection_id := cid, message_attempts := 0, tracker_state := TRACKER_CONNECTED\<rparr>,
    [connect_request le (connect_transaction io)])"
proof -
  let ?m = "connect_packet (connect_transaction io) cid"
  have "exchange (connect_rounds io) (\<lambda>n. n = 16) (connect_request le (connect_transaction io)) 0
      (60 * 2 ^ nat (message_attempts tr)) = Some (XGot (int (length ?m)) ?m, [connect_request le (connect_transaction io)])"
    using assms(7) by (intro exchange_one) (auto simp: answers_def connect_packet_def)
  moreover have "answer_buffer 16 ?m = Some ?m" by (simp add: answer_buffer_run connect_packet_def)
  moreover have "field_u32 le ?m 0 = 0" "field_u32 le ?m 4 = connect_transaction io" "field_u64 le ?m 8 = cid"
    by (simp_all add: connect_packet_def field_u32_def field_u64_def)
  ultimately show ?thesis
    using assms(1-6)
    by (simp add: tracker_connect_def tracker_get_timeout_run connect_answer_def tracker_message_succeded_def)
qed

lemma announce_fields:
  assumes "m = announce_packet tid interval l s ps @ r"
  shows "field_u32 le m 0 = 1" "field_u32 le m 4 = tid" "field_u32 le m 8 = interval"
  by (simp_all add: assms announce_packet_def field_u32_def)

lemma length_announce_packet [simp]: "length (announce_packet tid interval l s ps) = 20 + 6 * length ps"
  by (simp add: announce_packet_def)

lemma tracker_announce_run:
  assumes st: "tracker_state tr = TRACKER_CONNECTED" "message_attempts tr = 0"
    and ans: "answers (rounds io) (announce_packet (transaction io) interval l s ps)" "20 + 6 * length ps \<le> 65507"
    and iv: "uint interval \<le> 2147483"
    and ps: "\<forall>(ip, prt) \<in> set ps. ip \<noteq> 0" and q: "queue_rep q qs" "fresh_nodes ios 0 (length ps) q"
  shows "\<exists>q' request. tracker_announce le io ios down lft up prt info_hash q tr = Some (EXIT_SUCCESS,
      tr\<lparr>announce_deadline := deadline_clock io + uint interval * 1000, message_attempts := 0, tracker_state := TRACKER_IDLE\<rparr>, q', [request])
    \<and> queue_rep q' (qs @ map2 (\<lambda>j. found_peer le (peer_clock (ios j))) [0..<length ps] ps)"
proof -
  let ?bs = "announce_packet (transaction io) interval l s ps"
  define m where "m = ?bs @ replicate (UDP_MAX - length ?bs) 0"
  obtain msg where msg: "announce_request le (connection_id tr) (transaction io) info_hash down lft up
      (case inet_pton le (public_ip tr) of Some a \<Rightarrow> a | None \<Rightarrow> stack_word io) prt = msg" by blast
  have x: "exchange (rounds io) (\<lambda>n. 20 \<le> n) msg 0 60 = Some (XGot (int (length ?bs)) ?bs, [msg])"
    using ans(1) by (intro exchange_one) (auto simp: answers_def announce_packet_def)
  have b: "answer_buffer UDP_MAX ?bs = Some m" unfolding m_def using ans(2) by (intro answer_buffer_run) simp
  have m: "m = (be32 1 @ be32 (transaction io) @ be32 interval @ be32 l @ be32 s) @ peer_packet ps
      @ replicate (UDP_MAX - length ?bs) 0"
    unfolding m_def announce_packet_def by (simp only: append_assoc)
  obtain q' where q': "peer_loop le ios m (20 + 6 * length ps) 20 0 q = Some (True, q')"
    "queue_rep q' (qs @ map2 (\<lambda>j. found_peer le (peer_clock (ios j))) [0..<length ps] ps)"
    using peer_loop_delivers [OF m _ _ ps q, of 20 "20 + 6 * length ps" le] by auto
  have "c_int (int32_of i * 1000) = Some (i * 1000)" if "0 \<le> i" "i \<le> 2147483" for i
    using that by (simp add: int32_of_def c_int_def)
  then have iv: "c_int (int32_of (uint interval) * 1000) = Some (uint interval * 1000)" using iv by simp
  have "announce_answer le io ios m (20 + 6 * length ps) q (tr\<lparr>tracker_state := TRACKER_ANNOUNCING\<rparr>) = Some (EXIT_SUCCESS,
      tr\<lparr>announce_deadline := deadline_clock io + uint interval * 1000, message_attempts := 0, tracker_state := TRACKER_IDLE\<rparr>, q')"
    using announce_fields [OF m_def, of le] iv q'(1)
    by (simp add: announce_answer_def tracker_message_succeded_def)
  with x b q'(2) st msg show ?thesis
    by (simp add: tracker_announce_def tracker_get_timeout_run nat_add_distrib nat_mult_distrib)
qed

text \<open>
  C11: when an idle tracker is due and the tracker answers the first connect request and the first
  announce request with well-formed packets (an interval below 596 hours, peers with nonzero
  addresses, memory available), the job succeeds after these two datagrams: the peer queue holds, after
  what it held, exactly the announced peers in the order of the packet, and the tracker is idle with no
  socket, no failed attempt, and the next announce the interval away.
\<close>

theorem tracker_run_delivers_peers:
  assumes "\<not> cancel1 io" "tracker_should_announce (announce_time io) tr" "0 \<le> message_attempts tr"
    and "length (dec_int (tracker_port tr)) < 10"
    and "resolved (announce_io io) = Some ((s, cc) # as)" "s \<noteq> - 1" "connect_wait cc = 0"
    and "answers (connect_rounds (announce_io io)) (connect_packet (connect_transaction (announce_io io)) cid)"
    and "answers (rounds (announce_io io)) (announce_packet (transaction (announce_io io)) interval l sd ps)"
    and "20 + 6 * length ps \<le> 65507" "uint interval \<le> 2147483" "\<forall>(ip, prt) \<in> set ps. ip \<noteq> 0"
    and "queue_rep q qs" "fresh_nodes (announce_peers io) 0 (length ps) q"
  shows "\<exists>tr' q' request. tracker_run le io td prt info_hash q tr
      = Some (EXIT_SUCCESS, tr', q', [connect_request le (connect_transaction (announce_io io)), request])
    \<and> queue_rep q' (qs @ map2 (\<lambda>j. found_peer le (peer_clock (announce_peers io j))) [0..<length ps] ps)
    \<and> tracker_state tr' = TRACKER_IDLE \<and> message_attempts tr' = 0 \<and> tracker_socket tr' = 0 \<and> tracker_running tr' = 0
    \<and> announce_deadline tr' = deadline_clock (announce_io io) + uint interval * 1000 \<and> connection_id tr' = cid"
proof -
  let ?t = "tr\<lparr>tracker_socket := s, connection_id := cid, message_attempts := 0, tracker_state := TRACKER_CONNECTED\<rparr>"
  have a: "message_attempts tr \<le> 4" using assms(2) by (simp add: tracker_should_announce_def)
  note c = tracker_connect_run [OF assms(4-7) assms(3) a assms(8), of le]
  obtain q' request where an: "tracker_announce le (announce_io io) (announce_peers io) (downloaded td) (left td) (uploaded td)
      prt info_hash q ?t = Some (EXIT_SUCCESS, ?t\<lparr>announce_deadline := deadline_clock (announce_io io) + uint interval * 1000,
        message_attempts := 0, tracker_state := TRACKER_IDLE\<rparr>, q', [request])"
    "queue_rep q' (qs @ map2 (\<lambda>j. found_peer le (peer_clock (announce_peers io j))) [0..<length ps] ps)"
    using tracker_announce_run [OF _ _ assms(9-14), of ?t le "downloaded td" "left td" "uploaded td" prt info_hash] by auto
  with c assms(1,2) show ?thesis
    by (auto simp: tracker_run_def tracker_disconnect_def)
qed

lemma connecting_stuck:
  "tracker_state tr = TRACKER_CONNECTING \<Longrightarrow> tracker_running tr = 0
   \<Longrightarrow> tracker_run le io td prt info_hash q tr = Some (EXIT_FAILURE, tr, q, [])"
  by (simp add: tracker_run_def run_scrape_def tracker_should_announce_def tracker_should_scrape_def)

text \<open>
  C37: when the host name of a due tracker does not resolve, the job fails without counting an attempt
  and leaves the tracker in the state CONNECTING, in which no later run does anything: the tracker is
  never announced to again.
\<close>

theorem tracker_unresolved_is_lost:
  assumes "tracker_should_announce (announce_time io) tr" "\<not> cancel1 io" "\<not> cancel2 io"
    and "length (dec_int (tracker_port tr)) < 10" "resolved (announce_io io) = None"
  shows "\<exists>tr'. tracker_run le io td prt info_hash q tr = Some (EXIT_FAILURE, tr', q, [])
    \<and> message_attempts tr' = message_attempts tr \<and> (\<forall>now1 now2. \<not> tracker_should_run now1 now2 tr')
    \<and> (\<forall>io2 td2 q2. tracker_run le io2 td2 prt info_hash q2 tr' = Some (EXIT_FAILURE, tr', q2, []))"
proof (intro exI conjI)
  let ?t = "(tracker_disconnect (tr\<lparr>tracker_state := TRACKER_CONNECTING\<rparr>))\<lparr>tracker_running := 0\<rparr>"
  show "tracker_run le io td prt info_hash q tr = Some (EXIT_FAILURE, ?t, q, [])"
    using assms by (simp add: tracker_run_def run_scrape_def tracker_connect_def tracker_should_scrape_def
        tracker_disconnect_fields)
  show "message_attempts ?t = message_attempts tr" by (simp add: tracker_disconnect_fields)
  show "\<forall>now1 now2. \<not> tracker_should_run now1 now2 ?t"
    by (simp add: tracker_should_run_def tracker_should_announce_def tracker_should_scrape_def tracker_disconnect_fields)
  show "\<forall>io2 td2 q2. tracker_run le io2 td2 prt info_hash q2 ?t = Some (EXIT_FAILURE, ?t, q2, [])"
    by (simp add: connecting_stuck tracker_disconnect_fields)
qed

subsection \<open>A concrete run\<close>

definition sample_tracker :: tracker where
  "sample_tracker = \<lparr>public_ip = ''10.0.0.1'', url = ''udp://t:80'', host = ''t'', tracker_port = 80, connection_id = 0,
     announce_deadline = 0, scrape_deadline = 0, seeders = 0, leechers = 0, tracker_socket = 0,
     tracker_state = TRACKER_IDLE, message_attempts = 0, tracker_running = 1\<rparr>"

definition sample_calls :: connect_calls where
  "sample_calls = \<lparr>getfl = 0, setfl_nonblock = 0, connect_result = 0, einprogress = False, select_result = 0,
     setfl_restore = 0, getsockopt_result = 0, so_error = 0\<rparr>"

definition sample_round :: "u8 list \<Rightarrow> udp_round" where
  "sample_round bs = \<lparr>written = True, polls = [(PollReadable (int (length bs)) bs, False)], cancelled = False\<rparr>"

definition sample_exchange :: "(int \<times> connect_calls) list option \<Rightarrow> exchange_io" where
  "sample_exchange as = \<lparr>resolved = as, connect_transaction = 5, connect_rounds = \<lambda>_. sample_round (connect_packet 5 9),
     transaction = 6, rounds = \<lambda>_. sample_round (announce_packet 6 1800 0 1 [(0x0A000002, 6881)]), stack_word = 0,
     send_malloc_ok = True, deadline_clock = 1000\<rparr>"

definition sample_run_io :: "(int \<times> connect_calls) list option \<Rightarrow> tracker_run_io" where
  "sample_run_io as = \<lparr>cancel1 = False, announce_time = 1000, announce_io = sample_exchange as,
     announce_peers = \<lambda>k. \<lparr>peer_malloc = True, peer_queue_malloc = True, peer_strndup = True, peer_clock = 1000, peer_node = Some k\<rparr>,
     cancel2 = False, scrape_time = 1000, scrape_io = sample_exchange as\<rparr>"

definition sample_queue :: "'v queue" where
  "sample_queue = \<lparr>nodes = Map.empty, count = 0, head = None, tail = None\<rparr>"

lemmas sample_defs = sample_tracker_def sample_calls_def sample_round_def sample_exchange_def sample_run_io_def

lemma sample_port: "length (dec_int (tracker_port sample_tracker)) < 10"
  by (simp add: sample_tracker_def dec_int_def dec_nat.simps)

lemma sample_queue_rep: "queue_rep sample_queue []"
  by (simp add: sample_queue_def queue_rep_def linked_empty)

theorem tracker_run_delivers_peers_witness:
  "\<exists>tr' q' request. tracker_run True (sample_run_io (Some [(3, sample_calls)])) (the (torrent_data_new True ''/tmp'')) 6881
        (replicate 20 7) sample_queue sample_tracker
      = Some (EXIT_SUCCESS, tr', q', [connect_request True 5, request])
    \<and> queue_rep q' [found_peer True 1000 (0x0A000002, 6881)] \<and> tracker_state tr' = TRACKER_IDLE
    \<and> announce_deadline tr' = 1801000"
proof -
  let ?io = "sample_run_io (Some [(3, sample_calls)])"
  have t: "connect_transaction (announce_io ?io) = 5" "transaction (announce_io ?io) = 6"
    "deadline_clock (announce_io ?io) = 1000"
    "peer_clock (announce_peers ?io j) = 1000" for j
    by (simp_all add: sample_run_io_def sample_exchange_def)
  show ?thesis
    using tracker_run_delivers_peers [of ?io sample_tracker 3 sample_calls "[]" 9 1800 0 1 "[(0x0A000002, 6881)]"
        sample_queue "[]" True "the (torrent_data_new True ''/tmp'')" 6881 "replicate 20 7"]
    using sample_port sample_queue_rep
    by (auto simp: sample_defs answers_def tracker_should_announce_def connect_wait_def fresh_nodes_def fresh_in_def sample_queue_def)
qed

lemma sample_failing_run:
  "tracker_run True (sample_run_io (Some [])) (the (torrent_data_new True ''/tmp'')) 6881 (replicate 20 7)
     (sample_queue :: peer option queue) sample_tracker
   = Some (EXIT_FAILURE, sample_tracker\<lparr>message_attempts := 2, tracker_running := 0\<rparr>, sample_queue, [])"
  by (simp add: tracker_run_def run_scrape_def tracker_connect_def tracker_should_announce_def tracker_should_scrape_def
      tracker_update_defs sample_defs dec_int_def dec_nat.simps)

theorem tracker_run_invariant_witness:
  "\<exists>r tr' out. tracker_run True (sample_run_io (Some [])) (the (torrent_data_new True ''/tmp'')) 6881 (replicate 20 7)
       sample_queue sample_tracker = Some (r, tr', sample_queue, out) \<and> tracker_ok tr' \<and> length out \<le> 300"
proof -
  have "tracker_ok sample_tracker" by (simp add: tracker_ok_def sample_tracker_def)
  from tracker_run_invariant [OF sample_failing_run this] sample_failing_run show ?thesis by blast
qed

theorem tracker_unresolved_is_lost_witness:
  "\<exists>tr'. tracker_run True (sample_run_io None) (the (torrent_data_new True ''/tmp'')) 6881 (replicate 20 7) sample_queue sample_tracker
      = Some (EXIT_FAILURE, tr', sample_queue, []) \<and> \<not> tracker_should_run 5000 5000 tr'"
  using tracker_unresolved_is_lost [of "sample_run_io None" sample_tracker] sample_port
  by (fastforce simp: sample_defs tracker_should_announce_def)

end
