(* ===== verification/Uvg_Torrent.thy ===== *)
theory Uvg_Torrent
  imports Uvg_Tracker Uvg_ThreadPool Uvg_PeerRun Uvg_TorrentFiles
begin

text \<open>
  The torrent of \<^verbatim>\<open>src/src/torrent/torrent.c\<close> as the main thread sees it: its table of peers, the jobs it
  schedules for trackers and peers, the assignment of upload slots, the socket it listens on, and
  the handling of a received chunk.

  The peers live in a store \<open>peer_mem\<close>, because the hash map, the jobs and the upload slots hold
  pointers to them. The list of \<open>struct PeerIp\<close> is the list of its texts.
\<close>

subsection \<open>State\<close>

abbreviation (input) MAX_TRACKERS :: nat where "MAX_TRACKERS \<equiv> 5"

record torrent =
  magnet_uri :: string
  path :: string
  t_port :: u16
  t_name :: "string option"
  t_info_hash :: "string option"
  info_hash_hex :: "u8 list"
  tracker_count :: nat
  trackers :: "tracker option list"
  peers :: "addr hash_map option"
  peer_ips :: "string list"
  peer_count :: u32
  assign_upload_slots_deadline :: nat
  torrent_metadata :: torrent_data
  torrent_content :: torrent_data
  peer_mem :: "addr \<rightharpoonup> peer"

text \<open>The functions that run as jobs, and what their arguments point at.\<close>

datatype job_fn = TrackerRun | PeerRun | ListenForPeers

datatype job_arg =
    ArgTracker nat
  | ArgPeer addr
  | ArgTorrent
  | ArgMetadata
  | ArgContent
  | ArgPort
  | ArgInfoHash
  | ArgPeerQueue
  | ArgMetadataQueue
  | ArgDataQueue

type_synonym t_job = "(job_fn, job_arg) job"

record spawn_io =
  item_ok :: bool
  job_ok :: bool
  spawn_create :: bool
  job_node :: "addr option"

subsection \<open>Trackers\<close>

definition torrent_add_tracker ::
  "(string \<Rightarrow> string option) \<Rightarrow> tracker_new_io \<Rightarrow> torrent \<Rightarrow> string \<Rightarrow> string option \<Rightarrow> (status \<times> torrent) option" where
  "torrent_add_tracker unescape io t u ip =
     (if tracker_count t < MAX_TRACKERS then do {
        tr \<leftarrow> tracker_new unescape io u ip;
        case tr of
          None \<Rightarrow> Some (EXIT_FAILURE, t)
        | Some tr \<Rightarrow>
            if tracker_count t < length (trackers t)
            then Some (EXIT_SUCCESS, t\<lparr>trackers := (trackers t)[tracker_count t := Some tr], tracker_count := tracker_count t + 1\<rparr>)
            else None
      }
      else Some (EXIT_SUCCESS, t))"

definition tracker_job :: "nat \<Rightarrow> job_arg list" where
  "tracker_job i = [ArgTracker i, ArgContent, ArgPort, ArgInfoHash, ArgPeerQueue]"

text \<open>One tracker of the loop; the flag is false when the loop is left with an error.\<close>

definition run_tracker ::
  "spawn_io \<Rightarrow> int \<times> int \<Rightarrow> nat \<Rightarrow> torrent \<times> t_job pool \<Rightarrow> (bool \<times> torrent \<times> t_job pool) option" where
  "run_tracker io now i = (\<lambda>(t, tp). do {
     tr \<leftarrow> (if i < length (trackers t) then trackers t ! i else None);
     if tracker_should_run (fst now) (snd now) tr then do {
       let t = t\<lparr>trackers := (trackers t)[i := Some (tr\<lparr>tracker_running := 1\<rparr>)]\<rparr>;
       j \<leftarrow> job_new (job_ok io) TrackerRun 5 (tracker_job i);
       case j of
         None \<Rightarrow> Some (False, t, tp)
       | Some j \<Rightarrow> do {
           (r, tp) \<leftarrow> thread_pool_add_job (spawn_create io) (job_node io) j tp;
           Some (r \<noteq> EXIT_FAILURE, t, tp)
         }
     }
     else Some (True, t, tp)
   })"

primrec run_trackers_loop ::
  "(nat \<Rightarrow> spawn_io) \<Rightarrow> (nat \<Rightarrow> int \<times> int) \<Rightarrow> nat list \<Rightarrow> torrent \<times> t_job pool \<Rightarrow> (status \<times> torrent \<times> t_job pool) option" where
  "run_trackers_loop io now [] s = Some (EXIT_SUCCESS, s)"
| "run_trackers_loop io now (i # is) s = do {
     (ok, s) \<leftarrow> run_tracker (io i) (now i) i s;
     if ok then run_trackers_loop io now is s else Some (EXIT_FAILURE, s)
   }"

definition torrent_run_trackers ::
  "(nat \<Rightarrow> spawn_io) \<Rightarrow> (nat \<Rightarrow> int \<times> int) \<Rightarrow> torrent \<times> t_job pool \<Rightarrow> (status \<times> torrent \<times> t_job pool) option" where
  "torrent_run_trackers io now s = run_trackers_loop io now [0..<tracker_count (fst s)] s"

subsection \<open>The table of peers\<close>

text \<open>\<open>torrent_add_peer\<close>: the flags are the allocations of the map entry, whose result is ignored, and
  of the list node. \<open>a\<close> is the address of the peer.\<close>

definition torrent_add_peer ::
  "bool \<Rightarrow> bool \<Rightarrow> disconnect_io \<Rightarrow> torrent \<Rightarrow> addr \<Rightarrow> (status \<times> torrent) option" where
  "torrent_add_peer item_malloc ip_malloc d t a = do {
     p \<leftarrow> peer_mem t a;
     hm \<leftarrow> peers t;
     has \<leftarrow> hashmap_has_key hm (str_ip p);
     if has = 0 then do {
       (_, hm) \<leftarrow> hashmap_set item_malloc hm (str_ip p) a;
       let t = t\<lparr>peers := Some hm\<rparr>;
       if \<not> ip_malloc then Some (EXIT_FAILURE, t)
       else Some (EXIT_SUCCESS, t\<lparr>peer_ips := peer_ips t @ [str_ip p], peer_count := peer_count t + 1\<rparr>)
     }
     else do {
       _ \<leftarrow> peer_free d (Some p);
       Some (EXIT_SUCCESS, t\<lparr>peer_mem := (peer_mem t)(a := None)\<rparr>)
     }
   }"

text \<open>How every loop over the peers reaches one: it is taken out of the map and put back, and the
  result of putting it back is ignored.\<close>

definition fetch_peer :: "bool \<Rightarrow> torrent \<Rightarrow> string \<Rightarrow> (addr \<times> peer \<times> torrent) option" where
  "fetch_peer item_malloc t ip = do {
     hm \<leftarrow> peers t;
     (a, hm) \<leftarrow> hashmap_get hm ip;
     a \<leftarrow> a;
     p \<leftarrow> peer_mem t a;
     (_, hm) \<leftarrow> hashmap_set item_malloc hm (str_ip p) a;
     Some (a, p, t\<lparr>peers := Some hm\<rparr>)
   }"

definition set_peer :: "addr \<Rightarrow> peer \<Rightarrow> torrent \<Rightarrow> torrent" where
  "set_peer a p t = t\<lparr>peer_mem := (peer_mem t)(a \<mapsto> p)\<rparr>"

subsection \<open>Scheduling peers\<close>

definition peer_job :: "addr \<Rightarrow> job_arg list" where
  "peer_job a = [ArgPeer a, ArgInfoHash, ArgMetadata, ArgContent, ArgMetadataQueue, ArgDataQueue]"

definition run_peer ::
  "spawn_io \<Rightarrow> string \<Rightarrow> torrent \<times> t_job pool \<Rightarrow> (bool \<times> torrent \<times> t_job pool) option" where
  "run_peer io ip = (\<lambda>(t, tp). do {
     (a, p, t) \<leftarrow> fetch_peer (item_ok io) t ip;
     if running p = 0 then do {
       let t = set_peer a (p\<lparr>running := 1\<rparr>) t;
       j \<leftarrow> job_new (job_ok io) PeerRun 6 (peer_job a);
       case j of
         None \<Rightarrow> Some (False, t, tp)
       | Some j \<Rightarrow> do {
           (r, tp) \<leftarrow> thread_pool_add_job (spawn_create io) (job_node io) j tp;
           Some (r \<noteq> EXIT_FAILURE, t, tp)
         }
     }
     else Some (True, t, tp)
   })"

primrec run_peers_loop ::
  "(string \<Rightarrow> spawn_io) \<Rightarrow> string list \<Rightarrow> torrent \<times> t_job pool \<Rightarrow> (status \<times> torrent \<times> t_job pool) option" where
  "run_peers_loop io [] s = Some (EXIT_SUCCESS, s)"
| "run_peers_loop io (ip # ips) s = do {
     (ok, s) \<leftarrow> run_peer (io ip) ip s;
     if ok then run_peers_loop io ips s else Some (EXIT_FAILURE, s)
   }"

definition torrent_run_peers ::
  "(string \<Rightarrow> spawn_io) \<Rightarrow> torrent \<times> t_job pool \<Rightarrow> (status \<times> torrent \<times> t_job pool) option" where
  "torrent_run_peers io s = run_peers_loop io (peer_ips (fst s)) s"

subsection \<open>Upload slots\<close>

text \<open>\<open>randr\<close>, with \<open>r\<close> the result of \<open>rand\<close> between 0 and \<open>RAND_MAX\<close>. As \<open>RAND_MAX\<close> is prime the exact
  quotient is at least \<open>2 ^ - 31\<close> away from the next integer unless \<open>r\<close> is an end of its range, so that
  for ranges below \<open>2 ^ 20\<close> the rounding of \<open>double\<close> does not change it.\<close>

abbreviation (input) RAND_MAX :: nat where "RAND_MAX \<equiv> 2147483647"

definition randr :: "nat \<Rightarrow> nat \<Rightarrow> nat \<Rightarrow> nat" where
  "randr r mn mx = (mx - mn + 1) * r div RAND_MAX + mn"

text \<open>The interested peers, in the order of the list.\<close>

primrec collect_interested ::
  "(string \<Rightarrow> bool) \<Rightarrow> string list \<Rightarrow> torrent \<Rightarrow> (addr list \<times> torrent) option" where
  "collect_interested item_malloc [] t = Some ([], t)"
| "collect_interested item_malloc (ip # ips) t = do {
     (a, p, t) \<leftarrow> fetch_peer (item_malloc ip) t ip;
     (as, t) \<leftarrow> collect_interested item_malloc ips t;
     Some (if peer_interested p = 1 \<and> peer_state p = PEER_HANDSHAKE_COMPLETE then a # as else as, t)
   }"

definition set_uploader :: "addr \<Rightarrow> int \<Rightarrow> torrent \<Rightarrow> torrent option" where
  "set_uploader a v t = do { p \<leftarrow> peer_mem t a; Some (set_peer a (p\<lparr>uploader := v\<rparr>) t) }"

primrec slot_loop :: "int \<Rightarrow> addr list \<Rightarrow> nat \<Rightarrow> nat \<Rightarrow> torrent \<Rightarrow> torrent option" where
  "slot_loop optimistic [] i uploading t = Some t"
| "slot_loop optimistic (a # as) i uploading t =
     (if uploading < 3 then do {
        t \<leftarrow> set_uploader a 1 t;
        slot_loop optimistic as (i + 1) (uploading + 1) t
      }
      else do {
        t \<leftarrow> set_uploader a (if int i = optimistic then 1 else 0) t;
        slot_loop optimistic as (i + 1) uploading t
      })"

record slots_io =
  slots_now1 :: int
  slots_now2 :: int
  slots_item :: "string \<Rightarrow> bool"
  sorted_by_speed :: "addr list \<Rightarrow> addr list"
  slots_rand :: nat

text \<open>\<open>torrent_assign_upload_slots\<close>. \<open>sorted_by_speed\<close> is the order in which \<open>qsort\<close> leaves the array: the
  comparison subtracts two \<open>float\<close> rates and truncates the difference, so that the order of peers
  whose rates differ by less than one is unspecified. More interested peers than \<open>peer_count\<close> overrun
  the array.\<close>

definition torrent_assign_upload_slots :: "slots_io \<Rightarrow> torrent \<Rightarrow> (status \<times> torrent) option" where
  "torrent_assign_upload_slots io t =
     (if assign_upload_slots_deadline t > size_t_of (slots_now1 io) then Some (EXIT_SUCCESS, t)
      else if peer_count t > 0 then do {
        let t = t\<lparr>assign_upload_slots_deadline := size_t_of (slots_now2 io + 10 * 1000)\<rparr>;
        (as, t) \<leftarrow> collect_interested (slots_item io) (peer_ips t) t;
        _ \<leftarrow> (if length as \<le> unat (peer_count t) then Some () else None);
        let optimistic = (if length as > 3 then int (randr (slots_rand io) 3 (length as)) else - 1);
        t \<leftarrow> slot_loop optimistic (sorted_by_speed io as) 0 0 t;
        Some (EXIT_SUCCESS, t)
      }
      else Some (EXIT_SUCCESS, t))"

subsection \<open>Listening\<close>

record accept_io =
  listen_cancelled :: bool
  listen_poll :: int
  accept_fd :: int
  accept_ip :: u32
  accept_port :: u16
  accept_alloc :: "bool \<times> bool \<times> bool"
  accept_now :: "int \<times> int \<times> int"
  accept_socket :: bool
  accept_flags :: "int \<times> int"
  accept_node :: "addr option"

text \<open>A peer that connected. The port is passed on in network byte order; what the calls return is not
  tested, so that a missing peer or socket is undefined.\<close>

definition accept_peer :: "bool \<Rightarrow> accept_io \<Rightarrow> peer option queue \<Rightarrow> peer option queue option" where
  "accept_peer le io q = do {
     p \<leftarrow> (case accept_alloc io of (m, q, s) \<Rightarrow> peer_new le m q s (fst (accept_now io)) (ntohl_util le (accept_ip io)) (accept_port io));
     p \<leftarrow> p;
     s \<leftarrow> buffered_socket_new (accept_socket io) (fst (snd (accept_now io))) (snd (snd (accept_now io)));
     let s = snd (buffered_socket_set_socket_fd s (accept_fd io) (fst (accept_flags io)) (snd (accept_flags io)));
     (_, q) \<leftarrow> queue_push q (accept_node io) (Some (peer_set_socket (Some s) p));
     Some q
   }"

text \<open>The loop; \<open>None\<close> when it is still polling after all the rounds.\<close>

primrec listen_loop :: "bool \<Rightarrow> accept_io list \<Rightarrow> peer option queue \<Rightarrow> (status \<times> peer option queue) option" where
  "listen_loop le [] q = None"
| "listen_loop le (io # ios) q =
     (if listen_cancelled io then Some (EXIT_SUCCESS, q)
      else if listen_poll io = 0 then listen_loop le ios q
      else if listen_poll io = - 1 then Some (EXIT_FAILURE, q)
      else do {
        q \<leftarrow> accept_peer le io q;
        listen_loop le ios q
      })"

record listen_io =
  listen_fd :: int
  reuse_result :: int
  bind_result :: int
  listen_result :: int
  accepts_io :: "accept_io list"

text \<open>The second component are the descriptors that are closed.\<close>

definition torrent_listen_for_peers ::
  "bool \<Rightarrow> listen_io \<Rightarrow> peer option queue \<Rightarrow> (status \<times> int list \<times> peer option queue) option" where
  "torrent_listen_for_peers le io q =
     (let closed = (if listen_fd io > 0 then [listen_fd io] else []) in
      if listen_fd io = - 1 then Some (EXIT_FAILURE, closed, q)
      else if reuse_result io < 0 then Some (EXIT_FAILURE, closed, q)
      else if bind_result io \<noteq> 0 then Some (EXIT_FAILURE, closed, q)
      else if listen_result io \<noteq> 0 then Some (EXIT_FAILURE, closed, q)
      else map_option (\<lambda>(r, q). (r, closed, q)) (listen_loop le (accepts_io io) q))"

subsection \<open>A received chunk\<close>

record chunk_io =
  chunk_env :: disk_env
  chunk_piece_malloc :: bool
  chunk_item_malloc :: bool
  chunk_stack :: "u8 list"
  chunk_fetch :: "string \<Rightarrow> bool"
  progress_malloc :: "addr \<Rightarrow> bool"
  progress_node :: "addr \<Rightarrow> addr option"

text \<open>Telling the connected peers about a finished piece. A failed push is ignored.\<close>

primrec announce_piece :: "chunk_io \<Rightarrow> int \<Rightarrow> string list \<Rightarrow> torrent \<Rightarrow> torrent option" where
  "announce_piece io pid [] t = Some t"
| "announce_piece io pid (ip # ips) t = do {
     (a, p, t) \<leftarrow> fetch_peer (chunk_fetch io ip) t ip;
     t \<leftarrow> (if peer_state p = PEER_HANDSHAKE_COMPLETE then
             if progress_malloc io a then do {
               (_, q) \<leftarrow> queue_push (progress_queue p) (progress_node io a) pid;
               Some (set_peer a (p\<lparr>progress_queue := q\<rparr>) t)
             }
             else None
           else Some t);
     announce_piece io pid ips t
   }"

text \<open>The chunk a piece message carries: the piece and the number of the chunk. When the torrent is not
  initialised \<open>piece_info\<close> is indeterminate, and without a chunk size the division is undefined.\<close>

definition message_chunk :: "bool \<Rightarrow> torrent_data \<Rightarrow> u8 list \<Rightarrow> (int \<times> int) option" where
  "message_chunk le td m = do {
     index \<leftarrow> field32 m 5;
     let pid = int32_of (uint (ntohl_util le (load32 le index)));
     pi \<leftarrow> snd (torrent_data_get_piece_info td pid);
     begin \<leftarrow> field32 m 9;
     let off = (piece_offset pi + unat (ntohl_util le (load32 le begin))) mod 2 ^ 64;
     if chunk_size td = 0 then None
     else Some (pid, int32_of (int (off div chunk_size td)))
   }"

definition torrent_process_data_chunk ::
  "bool \<Rightarrow> chunk_io \<Rightarrow> torrent \<Rightarrow> disk \<Rightarrow> u8 list \<Rightarrow> (status \<times> torrent \<times> disk) option" where
  "torrent_process_data_chunk le io t disk m = do {
     buffer_size \<leftarrow> get_msg_buffer_size le m;
     (pid, cid) \<leftarrow> message_chunk le (torrent_content t) m;
     (r, td, disk) \<leftarrow> torrent_data_write_chunk (chunk_env io) (chunk_piece_malloc io) (chunk_item_malloc io) (chunk_stack io)
       (torrent_content t) disk cid (drop 13 m) (size_sub buffer_size 13);
     let t = t\<lparr>torrent_content := td\<rparr>;
     if r = EXIT_SUCCESS then do {
       t \<leftarrow> announce_piece io pid (peer_ips t) t;
       Some (EXIT_SUCCESS, t, disk)
     }
     else Some (EXIT_SUCCESS, t, disk)
   }"

subsection \<open>The invariant of the table\<close>

definition peer_addr :: "torrent \<Rightarrow> string \<Rightarrow> addr option" where
  "peer_addr t ip = Option.bind (peers t) (\<lambda>hm. hm_lookup hm ip)"

text \<open>The list and the map hold the same texts, each once; every entry points at a live peer with that
  text, and the count is right.\<close>

definition torrent_ok :: "torrent \<Rightarrow> bool" where
  "torrent_ok t \<longleftrightarrow> (\<exists>hm. peers t = Some hm \<and> hm_wf hm) \<and> distinct (peer_ips t)
     \<and> dom (peer_addr t) = set (peer_ips t) \<and> unat (peer_count t) = length (peer_ips t)
     \<and> (\<forall>ip a. peer_addr t ip = Some a \<longrightarrow> (\<exists>p. peer_mem t a = Some p \<and> str_ip p = ip))"

lemma torrent_ok_live:
  assumes "torrent_ok t" "ip \<in> set (peer_ips t)"
  obtains a p where "peer_addr t ip = Some a" "peer_mem t a = Some p" "str_ip p = ip"
  using assms unfolding torrent_ok_def by blast

lemma torrent_ok_entry:
  assumes "torrent_ok t" "peer_addr t ip = Some a"
  obtains p where "peer_mem t a = Some p" "str_ip p = ip"
  using assms unfolding torrent_ok_def by blast

lemma torrent_ok_inj: "torrent_ok t \<Longrightarrow> peer_addr t ip = Some a \<Longrightarrow> peer_addr t ip2 = Some a \<Longrightarrow> ip = ip2"
  by (metis option.inject torrent_ok_entry)

text \<open>\<open>same_table t t'\<close>: only the inside of the hash map has changed.\<close>

definition same_table :: "torrent \<Rightarrow> torrent \<Rightarrow> bool" where
  "same_table t t' \<longleftrightarrow> (\<exists>hm. t' = t\<lparr>peers := Some hm\<rparr> \<and> hm_wf hm \<and> hm_lookup hm = peer_addr t)"

lemma same_table_view:
  assumes "same_table t t'"
  shows "peer_addr t' = peer_addr t" "peer_mem t' = peer_mem t" "peer_ips t' = peer_ips t" "peer_count t' = peer_count t"
    "torrent_content t' = torrent_content t" "torrent_metadata t' = torrent_metadata t" "trackers t' = trackers t"
    "assign_upload_slots_deadline t' = assign_upload_slots_deadline t"
  using assms by (auto simp: same_table_def peer_addr_def fun_eq_iff)

lemma same_table_ok: "same_table t t' \<Longrightarrow> torrent_ok t \<Longrightarrow> torrent_ok t'"
  by (auto simp: torrent_ok_def same_table_view simp del: dom_def) (auto simp: same_table_def)

lemma fetch_peer_run:
  assumes ok: "torrent_ok t" and ip: "ip \<in> set (peer_ips t)"
  obtains a p t' where "fetch_peer True t ip = Some (a, p, t')" "same_table t t'" "peer_addr t ip = Some a"
    "peer_mem t a = Some p" "str_ip p = ip"
proof -
  from torrent_ok_live [OF ok ip] obtain a p where
    a: "peer_addr t ip = Some a" "peer_mem t a = Some p" "str_ip p = ip" by blast
  from ok obtain hm where hm: "peers t = Some hm" "hm_wf hm" by (auto simp: torrent_ok_def)
  then have l: "hm_lookup hm ip = Some a" using a(1) by (simp add: peer_addr_def)
  from hmi.take_put_back [OF hm(2) l] obtain m1 m2 where m: "hashmap_get hm ip = Some (Some a, m1)"
    "hashmap_set True m1 ip a = Some (EXIT_SUCCESS, m2)" "hm_wf m2" "hm_lookup m2 = hm_lookup hm" by blast
  show thesis
  proof (rule that [OF _ _ a])
    show "fetch_peer True t ip = Some (a, p, t\<lparr>peers := Some m2\<rparr>)" using hm m a by (simp add: fetch_peer_def)
    show "same_table t (t\<lparr>peers := Some m2\<rparr>)"
      using hm m by (auto simp: same_table_def peer_addr_def fun_eq_iff)
  qed
qed

lemma set_peer_view [simp]:
  "peer_addr (set_peer a p t) = peer_addr t" "peer_mem (set_peer a p t) = (peer_mem t)(a \<mapsto> p)"
  "peer_ips (set_peer a p t) = peer_ips t" "peer_count (set_peer a p t) = peer_count t" "peers (set_peer a p t) = peers t"
  "torrent_content (set_peer a p t) = torrent_content t"
  by (auto simp: set_peer_def peer_addr_def fun_eq_iff)

lemma set_peer_ok: "torrent_ok t \<Longrightarrow> peer_mem t a = Some p \<Longrightarrow> str_ip p' = str_ip p \<Longrightarrow> torrent_ok (set_peer a p' t)"
proof -
  assume ok: "torrent_ok t" and p: "peer_mem t a = Some p" and s: "str_ip p' = str_ip p"
  have "str_ip p = ip" if "peer_addr t ip = Some a" for ip
    using torrent_ok_entry [OF ok that] p by auto
  with ok s show ?thesis by (auto simp: torrent_ok_def)
qed

subsection \<open>Adding a peer\<close>

lemma torrent_add_peer_run:
  assumes ok: "torrent_ok t" and p: "peer_mem t a = Some p" and new: "\<forall>ip. peer_addr t ip \<noteq> Some a"
    and room: "length (peer_ips t) < 2 ^ 32 - 1" and free: "str_ip p \<in> set (peer_ips t) \<Longrightarrow> peer_free d (Some p) = Some None"
  shows "\<exists>t'. torrent_add_peer True True d t a = Some (EXIT_SUCCESS, t') \<and> torrent_ok t'
    \<and> (if str_ip p \<in> set (peer_ips t)
        then peer_ips t' = peer_ips t \<and> peer_addr t' = peer_addr t \<and> peer_mem t' = (peer_mem t)(a := None)
        else peer_ips t' = peer_ips t @ [str_ip p] \<and> peer_addr t' = (peer_addr t)(str_ip p \<mapsto> a) \<and> peer_mem t' = peer_mem t)"
proof -
  from ok obtain hm where hm: "peers t = Some hm" "hm_wf hm" by (auto simp: torrent_ok_def)
  then have pa: "peer_addr t = hm_lookup hm" by (auto simp: peer_addr_def fun_eq_iff)
  have d: "str_ip p \<in> set (peer_ips t) \<longleftrightarrow> peer_addr t (str_ip p) \<noteq> None" using ok by (auto simp: torrent_ok_def)
  show ?thesis
  proof (cases "str_ip p \<in> set (peer_ips t)")
    case True
    let ?t = "t\<lparr>peer_mem := (peer_mem t)(a := None)\<rparr>"
    have "peer_addr ?t = peer_addr t" by (simp add: peer_addr_def fun_eq_iff)
    moreover from this have "torrent_ok ?t" using ok new by (auto simp: torrent_ok_def)
    moreover have "torrent_add_peer True True d t a = Some (EXIT_SUCCESS, ?t)"
      using hm p free True d pa by (auto simp: torrent_add_peer_def hmi.has_law)
    ultimately show ?thesis using True by simp
  next
    case False
    with d pa obtain m where m: "hashmap_set True hm (str_ip p) a = Some (EXIT_SUCCESS, m)" "hm_wf m"
      "hm_lookup m = (hm_lookup hm)(str_ip p \<mapsto> a)"
      using hmi.put_law [OF hm(2)] by auto
    let ?t = "t\<lparr>peers := Some m, peer_ips := peer_ips t @ [str_ip p], peer_count := peer_count t + 1\<rparr>"
    have v: "peer_addr ?t = (peer_addr t)(str_ip p \<mapsto> a)" using m pa by (simp add: peer_addr_def fun_eq_iff)
    have c: "unat (peer_count t + 1) = length (peer_ips t) + 1"
      using ok room by (subst unat_add_lem [THEN iffD1]) (auto simp: torrent_ok_def)
    have "torrent_ok ?t"
      using ok v c m(2) p False by (auto simp: torrent_ok_def)
    moreover have "torrent_add_peer True True d t a = Some (EXIT_SUCCESS, ?t)"
      using hm p False d pa m by (simp add: torrent_add_peer_def hmi.has_law)
    ultimately show ?thesis using False v by simp
  qed
qed

text \<open>
  Adding a new peer object keeps the table well formed. A peer with an address text that is
  not in the table yet is entered at the end of the list and can be found; the object of a peer that
  is known already is freed and the table stays as it is, so that there is at most one peer per address.
\<close>

theorem torrent_add_peer_spec:
  assumes ok: "torrent_ok t" and p: "peer_mem t a = Some p" and new: "\<forall>ip. peer_addr t ip \<noteq> Some a"
    and room: "length (peer_ips t) < 2 ^ 32 - 1" and free: "peer_free d (Some p) = Some None"
  shows "\<exists>t'. torrent_add_peer True True d t a = Some (EXIT_SUCCESS, t') \<and> torrent_ok t'
    \<and> (if str_ip p \<in> set (peer_ips t)
        then peer_ips t' = peer_ips t \<and> peer_addr t' = peer_addr t \<and> peer_mem t' = (peer_mem t)(a := None)
        else peer_ips t' = peer_ips t @ [str_ip p] \<and> peer_addr t' = (peer_addr t)(str_ip p \<mapsto> a) \<and> peer_mem t' = peer_mem t)"
  using assms by (intro torrent_add_peer_run) auto

subsection \<open>Scheduling\<close>

text \<open>What the system grants to schedule jobs for \<open>ips\<close>: memory, threads, and nodes that are not in use.\<close>

definition spawns :: "('k \<Rightarrow> spawn_io) \<Rightarrow> 'k set \<Rightarrow> 'j queue \<Rightarrow> bool" where
  "spawns io K q \<longleftrightarrow> (\<forall>k \<in> K. item_ok (io k) \<and> job_ok (io k) \<and> spawn_create (io k)
     \<and> (\<exists>a. job_node (io k) = Some a \<and> fresh_in (nodes q) a)) \<and> inj_on (\<lambda>k. job_node (io k)) K"

lemma spawns_insertD:
  assumes "spawns io (insert k K) q" "k \<notin> K" "queue_push q (job_node (io k)) j = Some (r, q')"
  shows "spawns io K q'"
proof -
  from assms(1) obtain a where a: "job_node (io k) = Some a" by (auto simp: spawns_def)
  have "\<exists>b. job_node (io l) = Some b \<and> fresh_in (nodes q') b" if l: "l \<in> K" for l
  proof -
    from assms(1) l obtain b where b: "job_node (io l) = Some b" "fresh_in (nodes q) b" by (auto simp: spawns_def)
    have inj: "inj_on (\<lambda>k. job_node (io k)) (insert k K)" using assms(1) by (simp add: spawns_def)
    have "a \<noteq> b" using inj_onD [OF inj, of k l] assms(2) a b(1) l by auto
    with queue_push_nodes [OF assms(3) [unfolded a] b(2)] b(1) show ?thesis by simp
  qed
  with assms(1) show ?thesis by (auto simp: spawns_def)
qed

lemma spawns_mono: "spawns io (insert k K) q \<Longrightarrow> spawns io K q"
  by (auto simp: spawns_def)

lemma thread_pool_add_job_run:
  assumes "spawns io (insert k K) (job_queue tp)" "k \<notin> K" "queue_rep (job_queue tp) js"
  obtains tp' where "thread_pool_add_job (spawn_create (io k)) (job_node (io k)) j tp = Some (EXIT_SUCCESS, tp')"
    "queue_rep (job_queue tp') (js @ [j])" "spawns io K (job_queue tp')" "job_semaphore tp' = job_semaphore tp + 1"
proof -
  from assms(1) obtain a where a: "job_node (io k) = Some a" "fresh_in (nodes (job_queue tp)) a" "spawn_create (io k)"
    by (auto simp: spawns_def)
  from qi.push_law [OF assms(3) a(2), of j] obtain q where q: "queue_push (job_queue tp) (Some a) j = Some (EXIT_SUCCESS, q)"
    "queue_rep q (js @ [j])" by blast
  have "spawns io K q" using assms(1,2) q(1) by (intro spawns_insertD [of io k K]) (auto simp: a)
  with a q show thesis
    by (cases "thread_count tp < max_threads tp")
       (auto intro!: that simp: thread_pool_add_job_def start_thread_def push_job_def sem_post_def)
qed

definition idle_jobs :: "torrent \<Rightarrow> string list \<Rightarrow> t_job list" where
  "idle_jobs t ips = map (\<lambda>ip. \<lparr>execute = PeerRun, arg_count = 6, args = peer_job (the (peer_addr t ip))\<rparr>)
     (filter (\<lambda>ip. running (the (peer_mem t (the (peer_addr t ip)))) = 0) ips)"

definition mark_running :: "torrent \<Rightarrow> string list \<Rightarrow> addr \<rightharpoonup> peer" where
  "mark_running t ips a = map_option (\<lambda>p. if (\<exists>ip \<in> set ips. peer_addr t ip = Some a) \<and> running p = 0
     then p\<lparr>running := 1\<rparr> else p) (peer_mem t a)"

lemma run_peers_loop_run:
  assumes "torrent_ok t" "set ips \<subseteq> set (peer_ips t)" "distinct ips" "spawns io (set ips) (job_queue tp)" "queue_rep (job_queue tp) js"
  shows "\<exists>t' tp'. run_peers_loop io ips (t, tp) = Some (EXIT_SUCCESS, t', tp') \<and> torrent_ok t'
    \<and> peer_ips t' = peer_ips t \<and> peer_addr t' = peer_addr t \<and> peer_mem t' = mark_running t ips
    \<and> queue_rep (job_queue tp') (js @ idle_jobs t ips)"
  using assms
proof (induction ips arbitrary: t tp js)
  case Nil
  then show ?case by (simp add: idle_jobs_def mark_running_def [abs_def] option.map_ident)
next
  case (Cons ip ips)
  from fetch_peer_run [OF Cons.prems(1), of ip] Cons.prems(2) obtain a p t1 where
    f: "fetch_peer True t ip = Some (a, p, t1)" "same_table t t1" "peer_addr t ip = Some a" "peer_mem t a = Some p" "str_ip p = ip"
    by auto
  note v = same_table_view [OF f(2)]
  have io: "item_ok (io ip)" "job_ok (io ip)" using Cons.prems(4) by (auto simp: spawns_def)
  have ok1: "torrent_ok t1" by (rule same_table_ok [OF f(2) Cons.prems(1)])
  have other: "peer_addr t jp \<noteq> Some a" "the (peer_addr t jp) \<noteq> a" if "jp \<in> set ips" for jp
  proof -
    have "jp \<in> set (peer_ips t)" using that Cons.prems(2) by auto
    then obtain b where "peer_addr t jp = Some b" by (rule torrent_ok_live [OF Cons.prems(1)])
    then show "peer_addr t jp \<noteq> Some a" "the (peer_addr t jp) \<noteq> a"
      using torrent_ok_inj [OF Cons.prems(1) f(3), of jp] that Cons.prems(3) by auto
  qed
  show ?case
  proof (cases "running p = 0")
    case True
    let ?t = "set_peer a (p\<lparr>running := 1\<rparr>) t1"
    let ?j = "\<lparr>execute = PeerRun, arg_count = 6, args = peer_job a\<rparr>"
    have sp: "spawns io (insert ip (set ips)) (job_queue tp)" using Cons.prems(4) by simp
    obtain tp1 where tp1: "thread_pool_add_job (spawn_create (io ip)) (job_node (io ip)) ?j tp = Some (EXIT_SUCCESS, tp1)"
      "queue_rep (job_queue tp1) (js @ [?j])" "spawns io (set ips) (job_queue tp1)"
      using thread_pool_add_job_run [OF sp _ Cons.prems(5), of ?j] Cons.prems(3) by auto
    have ok2: "torrent_ok ?t" using ok1 f(4) v by (intro set_peer_ok [where p = p]) auto
    have run: "run_peer (io ip) ip (t, tp) = Some (True, ?t, tp1)"
      using f(1) io True tp1(1) by (simp add: run_peer_def job_new_def peer_job_def)
    obtain t2 tp2 where IH: "run_peers_loop io ips (?t, tp1) = Some (EXIT_SUCCESS, t2, tp2)" "torrent_ok t2"
      "peer_ips t2 = peer_ips ?t" "peer_addr t2 = peer_addr ?t" "peer_mem t2 = mark_running ?t ips"
      "queue_rep (job_queue tp2) ((js @ [?j]) @ idle_jobs ?t ips)"
      using Cons.IH [OF ok2 _ _ tp1(3,2)] Cons.prems(2,3) v by auto
    have "idle_jobs ?t ips = idle_jobs t ips"
      using other v unfolding idle_jobs_def by (intro map_cong filter_cong) auto
    then have "idle_jobs t (ip # ips) = ?j # idle_jobs ?t ips" using f True by (simp add: idle_jobs_def)
    moreover have "mark_running ?t ips = mark_running t (ip # ips)"
      using v f(3,4) True other by (auto simp: mark_running_def fun_eq_iff)
    ultimately show ?thesis using run IH v by simp
  next
    case False
    have run: "run_peer (io ip) ip (t, tp) = Some (True, t1, tp)"
      using f(1) io False by (simp add: run_peer_def)
    have sp: "spawns io (set ips) (job_queue tp)" using Cons.prems(4) by (auto intro: spawns_mono)
    obtain t2 tp2 where IH: "run_peers_loop io ips (t1, tp) = Some (EXIT_SUCCESS, t2, tp2)" "torrent_ok t2"
      "peer_ips t2 = peer_ips t1" "peer_addr t2 = peer_addr t1" "peer_mem t2 = mark_running t1 ips"
      "queue_rep (job_queue tp2) (js @ idle_jobs t1 ips)"
      using Cons.IH [OF ok1 _ _ sp Cons.prems(5)] Cons.prems(2,3) v by auto
    have "idle_jobs t (ip # ips) = idle_jobs t1 ips" using f False v by (simp add: idle_jobs_def)
    moreover have "mark_running t1 ips = mark_running t (ip # ips)"
      using v f(3,4) False by (auto simp: mark_running_def fun_eq_iff intro!: option.map_cong)
    ultimately show ?thesis using run IH v by simp
  qed
qed

lemma mark_running_idle:
  assumes "torrent_ok t" "peer_addr t' = peer_addr t" "peer_ips t' = peer_ips t" "peer_mem t' = mark_running t (peer_ips t)"
  shows "idle_jobs t' (peer_ips t) = []"
proof -
  have "running (the (peer_mem t' (the (peer_addr t' ip)))) \<noteq> 0" if ip: "ip \<in> set (peer_ips t)" for ip
  proof -
    from torrent_ok_live [OF assms(1) ip] obtain a p where "peer_addr t ip = Some a" "peer_mem t a = Some p" by blast
    then show ?thesis using assms ip by (auto simp: mark_running_def)
  qed
  then show ?thesis by (simp add: idle_jobs_def filter_empty_conv)
qed

text \<open>
  C32: \<open>torrent_run_peers\<close> schedules, in the order of the table, one \<open>peer_run\<close> job for every peer that is
  not running and for no other, marks these peers as running and changes nothing else of the table.
  A second call before any of the jobs has run schedules nothing, so that no peer is worked on by two
  threads.
\<close>

theorem torrent_run_peers_schedules:
  assumes ok: "torrent_ok t" and io: "spawns io (set (peer_ips t)) (job_queue tp)" and q: "queue_rep (job_queue tp) js"
  shows "\<exists>t' tp'. torrent_run_peers io (t, tp) = Some (EXIT_SUCCESS, t', tp') \<and> torrent_ok t'
    \<and> peer_addr t' = peer_addr t \<and> peer_mem t' = mark_running t (peer_ips t)
    \<and> queue_rep (job_queue tp') (js @ idle_jobs t (peer_ips t)) \<and> idle_jobs t' (peer_ips t') = []"
proof -
  have "distinct (peer_ips t)" using ok by (simp add: torrent_ok_def)
  from run_peers_loop_run [OF ok subset_refl this io q] obtain t' tp' where
    r: "run_peers_loop io (peer_ips t) (t, tp) = Some (EXIT_SUCCESS, t', tp')" "torrent_ok t'" "peer_ips t' = peer_ips t"
      "peer_addr t' = peer_addr t" "peer_mem t' = mark_running t (peer_ips t)"
      "queue_rep (job_queue tp') (js @ idle_jobs t (peer_ips t))" by blast
  with mark_running_idle [OF ok r(4,3,5)] show ?thesis by (simp add: torrent_run_peers_def)
qed

subsection \<open>Upload slots\<close>

definition is_interested :: "peer \<Rightarrow> bool" where
  "is_interested p \<longleftrightarrow> peer_interested p = 1 \<and> peer_state p = PEER_HANDSHAKE_COMPLETE"

definition interested_addrs :: "torrent \<Rightarrow> string list \<Rightarrow> addr list" where
  "interested_addrs t ips = filter (\<lambda>a. is_interested (the (peer_mem t a))) (map (\<lambda>ip. the (peer_addr t ip)) ips)"

lemma same_table_trans: "same_table t t1 \<Longrightarrow> same_table t1 t2 \<Longrightarrow> same_table t t2"
  by (auto simp: same_table_def peer_addr_def fun_eq_iff)

lemma same_table_refl: "torrent_ok t \<Longrightarrow> same_table t t"
  by (auto simp: same_table_def torrent_ok_def peer_addr_def fun_eq_iff intro!: exI [where x = "the (peers t)"])

lemma collect_interested_run:
  assumes "torrent_ok t" "set ips \<subseteq> set (peer_ips t)" "\<forall>ip \<in> set ips. io ip"
  shows "\<exists>t'. collect_interested io ips t = Some (interested_addrs t ips, t') \<and> same_table t t'"
  using assms
proof (induction ips arbitrary: t)
  case Nil
  then show ?case by (simp add: interested_addrs_def same_table_refl)
next
  case (Cons ip ips)
  have ip: "ip \<in> set (peer_ips t)" using Cons.prems(2) by simp
  from fetch_peer_run [OF Cons.prems(1) ip] obtain a p t1 where
    f: "fetch_peer True t ip = Some (a, p, t1)" "same_table t t1" "peer_addr t ip = Some a" "peer_mem t a = Some p" by blast
  note v = same_table_view [OF f(2)]
  obtain t2 where t2: "collect_interested io ips t1 = Some (interested_addrs t1 ips, t2)" "same_table t1 t2"
    using Cons.IH [OF same_table_ok [OF f(2) Cons.prems(1)]] Cons.prems(2,3) v by auto
  have "interested_addrs t1 ips = interested_addrs t ips" using v by (simp add: interested_addrs_def)
  with f t2 Cons.prems(3) same_table_trans [OF f(2) t2(2)] show ?case
    by (auto simp: interested_addrs_def is_interested_def)
qed

text \<open>Which positions of the sorted array get a slot.\<close>

definition slot_at :: "int \<Rightarrow> nat \<Rightarrow> int" where
  "slot_at optimistic k = (if k < 3 \<or> int k = optimistic then 1 else 0)"

lemma slot_loop_run:
  assumes "distinct as" "set as \<subseteq> dom (peer_mem t)" "torrent_ok t"
  shows "\<exists>t'. slot_loop ob as i (min i 3) t = Some t' \<and> torrent_ok t' \<and> peer_addr t' = peer_addr t \<and> peer_ips t' = peer_ips t
    \<and> (\<forall>a. a \<notin> set as \<longrightarrow> peer_mem t' a = peer_mem t a)
    \<and> (\<forall>k < length as. peer_mem t' (as ! k) = Some ((the (peer_mem t (as ! k)))\<lparr>uploader := slot_at ob (i + k)\<rparr>))"
  using assms
proof (induction as arbitrary: i t)
  case Nil
  then show ?case by simp
next
  case (Cons a as)
  then obtain p where p: "peer_mem t a = Some p" by auto
  let ?t = "set_peer a (p\<lparr>uploader := slot_at ob i\<rparr>) t"
  have step: "slot_loop ob (a # as) i (min i 3) t = slot_loop ob as (i + 1) (min (i + 1) 3) ?t"
    using p by (auto simp: set_uploader_def slot_at_def min_def)
  have ok: "torrent_ok ?t" using Cons.prems(3) p by (intro set_peer_ok) auto
  have d: "distinct as" "set as \<subseteq> dom (peer_mem ?t)" using Cons.prems(1,2) by auto
  obtain t' where t': "slot_loop ob as (i + 1) (min (i + 1) 3) ?t = Some t'" "torrent_ok t'" "peer_addr t' = peer_addr ?t"
    "peer_ips t' = peer_ips ?t" "\<forall>b. b \<notin> set as \<longrightarrow> peer_mem t' b = peer_mem ?t b"
    "\<forall>k < length as. peer_mem t' (as ! k) = Some ((the (peer_mem ?t (as ! k)))\<lparr>uploader := slot_at ob (i + 1 + k)\<rparr>)"
    using Cons.IH [OF d ok, of "i + 1"] by blast
  have "peer_mem t' ((a # as) ! k) = Some ((the (peer_mem t ((a # as) ! k)))\<lparr>uploader := slot_at ob (i + k)\<rparr>)"
    if k: "k < length (a # as)" for k
  proof (cases k)
    case 0
    then show ?thesis using t'(5) Cons.prems(1) p by simp
  next
    case (Suc l)
    then have "as ! l \<noteq> a" using Cons.prems(1) k by (auto simp: in_set_conv_nth)
    with Suc t'(6) k show ?thesis by simp
  qed
  with step t' show ?case by auto
qed

lemma interested_distinct:
  assumes "torrent_ok t"
  shows "distinct (interested_addrs t (peer_ips t))" "set (interested_addrs t (peer_ips t)) \<subseteq> dom (peer_mem t)"
    "length (interested_addrs t (peer_ips t)) \<le> unat (peer_count t)"
proof -
  have l: "\<exists>a p. peer_addr t ip = Some a \<and> peer_mem t a = Some p" if "ip \<in> set (peer_ips t)" for ip
    using torrent_ok_live [OF assms that] by metis
  have "inj_on (\<lambda>ip. the (peer_addr t ip)) (set (peer_ips t))"
    by (rule inj_onI) (metis l option.sel torrent_ok_inj [OF assms])
  with assms show "distinct (interested_addrs t (peer_ips t))"
    by (simp add: interested_addrs_def distinct_map torrent_ok_def)
  show "set (interested_addrs t (peer_ips t)) \<subseteq> dom (peer_mem t)"
    using l by (fastforce simp: interested_addrs_def)
  have "length (interested_addrs t (peer_ips t)) \<le> length (peer_ips t)"
    unfolding interested_addrs_def by (metis length_filter_le length_map)
  with assms show "length (interested_addrs t (peer_ips t)) \<le> unat (peer_count t)" by (simp add: torrent_ok_def)
qed

lemma slots_card:
  assumes "\<forall>k < length xs. f (xs ! k) = slot_at ob k"
  shows "card {a \<in> set xs. f a = 1} \<le> 4"
proof -
  have slot: "k \<in> {0, 1, 2, nat ob}" if "slot_at ob k = 1" for k
    using that by (auto simp: slot_at_def split: if_splits)
  have "{a \<in> set xs. f a = 1} \<subseteq> (!) xs ` {0, 1, 2, nat ob}"
  proof
    fix a
    assume "a \<in> {a \<in> set xs. f a = 1}"
    then obtain k where k: "k < length xs" "a = xs ! k" "f a = 1" by (auto simp: in_set_conv_nth)
    then have "slot_at ob k = 1" using assms by simp
    from imageI [OF slot [OF this], of "(!) xs"] k(2) show "a \<in> (!) xs ` {0, 1, 2, nat ob}" by simp
  qed
  then have "card {a \<in> set xs. f a = 1} \<le> card ((!) xs ` {0, 1, 2, nat ob})" by (rule card_mono [rotated]) simp
  also have "\<dots> \<le> card {0, 1, 2, nat ob}" by (rule card_image_le) simp
  also have "\<dots> \<le> 4" by (simp add: card_insert_if)
  finally show ?thesis .
qed


subsection \<open>A received chunk\<close>

definition progress_ready :: "chunk_io \<Rightarrow> torrent \<Rightarrow> string list \<Rightarrow> bool" where
  "progress_ready io t ips \<longleftrightarrow> (\<forall>ip. chunk_fetch io ip) \<and> (\<forall>a. progress_malloc io a)
     \<and> (\<forall>ip \<in> set ips. \<forall>a p. peer_addr t ip = Some a \<longrightarrow> peer_mem t a = Some p \<longrightarrow>
          (\<exists>xs b. queue_rep (progress_queue p) xs \<and> progress_node io a = Some b \<and> fresh_in (nodes (progress_queue p)) b))"

text \<open>\<open>told pid p p'\<close>: a connected peer has \<open>pid\<close> as the last of the pieces to report.\<close>

definition told :: "int \<Rightarrow> peer \<Rightarrow> peer \<Rightarrow> bool" where
  "told pid p p' \<longleftrightarrow> (if peer_state p = PEER_HANDSHAKE_COMPLETE
     then \<exists>q. p' = p\<lparr>progress_queue := q\<rparr> \<and> (\<forall>xs. queue_rep (progress_queue p) xs \<longrightarrow> queue_rep q (xs @ [pid]))
     else p' = p)"

lemma told_push:
  assumes "queue_rep (progress_queue p) xs" "fresh_in (nodes (progress_queue p)) b" "peer_state p = PEER_HANDSHAKE_COMPLETE"
  obtains q where "queue_push (progress_queue p) (Some b) pid = Some (EXIT_SUCCESS, q)" "told pid p (p\<lparr>progress_queue := q\<rparr>)"
proof -
  obtain q where q: "queue_push (progress_queue p) (Some b) pid = Some (EXIT_SUCCESS, q)"
    using qi.push_law [OF assms(1,2), of pid] by blast
  have "queue_rep q (ys @ [pid])" if "queue_rep (progress_queue p) ys" for ys
    using qi.push_law [OF that assms(2), of pid] q by auto
  with q assms(3) that show thesis by (auto simp: told_def)
qed

lemma announce_piece_run:
  assumes "torrent_ok t" "set ips \<subseteq> set (peer_ips t)" "distinct ips" "progress_ready io t ips"
  shows "\<exists>t'. announce_piece io pid ips t = Some t' \<and> torrent_ok t' \<and> peer_addr t' = peer_addr t \<and> peer_ips t' = peer_ips t
    \<and> torrent_content t' = torrent_content t
    \<and> (\<forall>ip \<in> set ips. \<exists>p'. peer_mem t' (the (peer_addr t ip)) = Some p' \<and> told pid (the (peer_mem t (the (peer_addr t ip)))) p')
    \<and> (\<forall>a. (\<forall>ip \<in> set ips. peer_addr t ip \<noteq> Some a) \<longrightarrow> peer_mem t' a = peer_mem t a)"
  using assms
proof (induction ips arbitrary: t)
  case Nil
  then show ?case by simp
next
  case (Cons ip ips)
  have ip: "ip \<in> set (peer_ips t)" using Cons.prems(2) by simp
  from fetch_peer_run [OF Cons.prems(1) ip] obtain a p t1 where
    f: "fetch_peer True t ip = Some (a, p, t1)" "same_table t t1" "peer_addr t ip = Some a" "peer_mem t a = Some p" by blast
  note v = same_table_view [OF f(2)]
  have ok1: "torrent_ok t1" by (rule same_table_ok [OF f(2) Cons.prems(1)])
  have io: "chunk_fetch io ip" "progress_malloc io a" using Cons.prems(4) by (simp_all add: progress_ready_def)
  obtain p1 where p1: "told pid p p1" "str_ip p1 = str_ip p"
    and step: "announce_piece io pid (ip # ips) t = announce_piece io pid ips (set_peer a p1 t1)"
      "torrent_ok (set_peer a p1 t1)"
  proof (cases "peer_state p = PEER_HANDSHAKE_COMPLETE")
    case True
    from Cons.prems(4) f(3,4) obtain xs b where b: "queue_rep (progress_queue p) xs" "progress_node io a = Some b"
      "fresh_in (nodes (progress_queue p)) b" unfolding progress_ready_def by auto
    obtain q where q: "queue_push (progress_queue p) (Some b) pid = Some (EXIT_SUCCESS, q)" "told pid p (p\<lparr>progress_queue := q\<rparr>)"
      by (rule told_push [OF b(1,3) True, of pid])
    show thesis
    proof (rule that [OF q(2)])
      show "announce_piece io pid (ip # ips) t = announce_piece io pid ips (set_peer a (p\<lparr>progress_queue := q\<rparr>) t1)"
        using f(1) io True b(2) q(1) by simp
      show "torrent_ok (set_peer a (p\<lparr>progress_queue := q\<rparr>) t1)"
        using ok1 f(4) v by (intro set_peer_ok [where p = p]) auto
    qed simp
  next
    case False
    show thesis
    proof (rule that [of p])
      have "set_peer a p t1 = t1" using f(4) v by (simp add: set_peer_def map_upd_triv)
      then show "announce_piece io pid (ip # ips) t = announce_piece io pid ips (set_peer a p t1)"
        and "torrent_ok (set_peer a p t1)" using f(1) io False ok1 by simp_all
    qed (use False in \<open>simp_all add: told_def\<close>)
  qed
  have other: "peer_addr t jp \<noteq> Some a" if "jp \<in> set ips" for jp
    using torrent_ok_inj [OF Cons.prems(1) f(3), of jp] that Cons.prems(3) by auto
  have ready: "progress_ready io (set_peer a p1 t1) ips"
    using Cons.prems(4) v other by (auto simp: progress_ready_def)
  obtain t2 where t2: "announce_piece io pid ips (set_peer a p1 t1) = Some t2" "torrent_ok t2" "peer_addr t2 = peer_addr t"
    "peer_ips t2 = peer_ips t" "torrent_content t2 = torrent_content t"
    "\<forall>ip \<in> set ips. \<exists>p'. peer_mem t2 (the (peer_addr t ip)) = Some p'
       \<and> told pid (the (peer_mem (set_peer a p1 t1) (the (peer_addr t ip)))) p'"
    "\<forall>b. (\<forall>ip \<in> set ips. peer_addr t ip \<noteq> Some b) \<longrightarrow> peer_mem t2 b = peer_mem (set_peer a p1 t1) b"
    using Cons.IH [OF step(2) _ _ ready] Cons.prems(2,3) v by (auto simp del: set_peer_view(2))
  have "\<exists>p'. peer_mem t2 (the (peer_addr t jp)) = Some p' \<and> told pid (the (peer_mem t (the (peer_addr t jp)))) p'"
    if jp: "jp \<in> set (ip # ips)" for jp
  proof (cases "jp = ip")
    case True
    with t2(7) other f(3,4) p1(1) show ?thesis by simp
  next
    case False
    then have j: "jp \<in> set ips" using jp by simp
    then have "jp \<in> set (peer_ips t)" using Cons.prems(2) by auto
    from torrent_ok_live [OF Cons.prems(1) this] obtain b where "peer_addr t jp = Some b" by blast
    with t2(6) j other [OF j] v show ?thesis by auto
  qed
  moreover have "peer_mem t2 b = peer_mem t b" if "\<forall>jp \<in> set (ip # ips). peer_addr t jp \<noteq> Some b" for b
    using t2(7) that f(3) v by auto
  ultimately show ?case using step(1) t2 by auto
qed

text \<open>A piece message that answers a request is recognised as the requested chunk.\<close>

lemma message_chunk_answer:
  assumes g: "geometry td" "i < chunk_total td"
    and ci: "torrent_data_get_chunk_info td (int i) = Some (r, Some ci)"
    and pi: "torrent_data_get_piece_info td (chunk_piece_id ci) = (r', Some pi)"
    and m: "m = piece_msg le (take 4 (drop 5 (request_msg le pi ci))) (take 4 (drop 9 (request_msg le pi ci))) block"
  shows "message_chunk le td m = Some (int (piece_of td i), int i)"
proof -
  let ?p = "piece_of td i"
  note s = piece_start [OF g]
  have p: "?p < 10 ^ 8" using piece_of_offset(1) [OF g(1) chunk_start [OF g]] by (simp add: piece_of_def)
  have c: "ci = \<lparr>chunk_id = int i, chunk_piece_id = int ?p, info_chunk_size = chunk_len td i, chunk_offset = chunk_size td * i\<rparr>"
    using ci get_chunk_info_run [OF g] by (simp add: piece_of_def chunk_len_def)
  have q: "pi = \<lparr>piece_id = int ?p, info_piece_size = piece_len td ?p, piece_offset = piece_size td * ?p\<rparr>"
    using pi get_piece_info_run [OF g(1) s(2)] c by (simp add: piece_len_def)
  define d where "d = chunk_size td * i - piece_size td * ?p"
  have d: "d < 2 ^ 31" "piece_size td * ?p + d = chunk_size td * i" "chunk_size td * i < 2 ^ 64"
    using chunk_in_piece [OF g(1), of i] g(1) s(1) chunk_start [OF g] by (auto simp: d_def geometry_def piece_of_def)
  have ix: "take 4 (drop 5 (request_msg le pi ci)) = be32 (of_nat ?p)" using q by (simp add: request_msg_def)
  have bg: "take 4 (drop 9 (request_msg le pi ci)) = be32 (of_nat d)"
    using q c s(1) d(3) by (simp add: request_msg_def size_sub_id d_def)
  have f: "field32 m 5 = Some (be32 (of_nat ?p))" "field32 m 9 = Some (be32 (of_nat d))"
    unfolding m ix bg piece_msg_def by (simp_all add: field32_def)
  have n: "int32_of (uint (of_nat ?p :: u32)) = int ?p" "unat (of_nat d :: u32) = d"
    using s(3) d(1) by (simp_all add: uint_nat unat_of_nat int32_of_id)
  have "chunk_size td \<noteq> 0" "int32_of (int i) = int i"
    using g by (auto simp: geometry_def intro!: int32_of_id)
  moreover have "piece_offset pi + d = chunk_size td * i" "snd (torrent_data_get_piece_info td (int ?p)) = Some pi"
    using q d(2) pi c by simp_all
  ultimately show ?thesis using f n d(3) by (simp add: message_chunk_def)
qed

lemma torrent_content_frame:
  "peer_addr (t\<lparr>torrent_content := td\<rparr>) = peer_addr t" "torrent_ok (t\<lparr>torrent_content := td\<rparr>) = torrent_ok t"
  "progress_ready io (t\<lparr>torrent_content := td\<rparr>) ips = progress_ready io t ips"
proof -
  show a: "peer_addr (t\<lparr>torrent_content := td\<rparr>) = peer_addr t" by (simp add: peer_addr_def fun_eq_iff)
  show "torrent_ok (t\<lparr>torrent_content := td\<rparr>) = torrent_ok t"
    "progress_ready io (t\<lparr>torrent_content := td\<rparr>) ips = progress_ready io t ips"
    by (simp_all add: torrent_ok_def a progress_ready_def)
qed

lemma process_data_chunk_run:
  assumes ok: "torrent_ok t" and ready: "progress_ready io t (peer_ips t)"
    and msg: "message_chunk le (torrent_content t) m = Some (pid, cid)" "m = piece_msg le ix bg block" "length ix = 4" "length bg = 4"
      "length block < 2 ^ 31"
    and w: "torrent_data_write_chunk (chunk_env io) (chunk_piece_malloc io) (chunk_item_malloc io) (chunk_stack io)
      (torrent_content t) disk cid block (length block) = Some (r, td, disk')"
  shows "\<exists>t'. torrent_process_data_chunk le io t disk m = Some (EXIT_SUCCESS, t', disk') \<and> torrent_ok t' \<and> torrent_content t' = td
    \<and> peer_addr t' = peer_addr t \<and> peer_ips t' = peer_ips t
    \<and> (\<forall>ip \<in> set (peer_ips t). \<exists>p'. peer_mem t' (the (peer_addr t ip)) = Some p'
         \<and> (if r = EXIT_SUCCESS then told pid else (=)) (the (peer_mem t (the (peer_addr t ip)))) p')"
proof -
  have "unat (9 + of_nat (length block) :: u32) = 9 + length block"
    using msg(5) unat_of_nat [of "9 + length block", where 'a = 32] by simp
  then have size: "get_msg_buffer_size le m = Some (13 + length block)" "drop 13 m = block"
    using msg(2-5) by (simp_all add: get_msg_buffer_size_def get_msg_length_def field32_def piece_msg_def unat_of_nat)
  have sub: "size_sub (13 + length block) 13 = length block" using msg(5) by (simp add: size_sub_id)
  let ?t = "t\<lparr>torrent_content := td\<rparr>"
  have step: "torrent_process_data_chunk le io t disk m = (if r = EXIT_SUCCESS
      then map_option (\<lambda>t'. (EXIT_SUCCESS, t', disk')) (announce_piece io pid (peer_ips t) ?t) else Some (EXIT_SUCCESS, ?t, disk'))"
    using size sub msg(1) w by (simp add: torrent_process_data_chunk_def map_option_case split: option.splits)
  show ?thesis
  proof (cases "r = EXIT_SUCCESS")
    case True
    have "distinct (peer_ips t)" using ok by (simp add: torrent_ok_def)
    with announce_piece_run [of ?t "peer_ips t" io pid] ok ready obtain t' where "announce_piece io pid (peer_ips t) ?t = Some t'"
      "torrent_ok t'" "peer_addr t' = peer_addr t" "peer_ips t' = peer_ips t" "torrent_content t' = td"
      "\<forall>ip \<in> set (peer_ips t). \<exists>p'. peer_mem t' (the (peer_addr t ip)) = Some p'
         \<and> told pid (the (peer_mem t (the (peer_addr t ip)))) p'"
      by (auto simp: torrent_content_frame)
    with step True show ?thesis by simp
  next
    case False
    have "\<exists>p'. peer_mem t (the (peer_addr t ip)) = Some p'" if "ip \<in> set (peer_ips t)" for ip
      using torrent_ok_live [OF ok that] by (metis option.sel)
    with step False ok show ?thesis by (auto simp: torrent_content_frame)
  qed
qed

text \<open>
  C9: a piece message that answers a request for chunk \<open>i\<close>, with any block, is handled without
  undefined behaviour: the table of peers and the download state stay consistent, the chunk counts as
  completed afterwards exactly when it did before or the block has the length of the chunk, and when
  the block finishes a piece every connected peer of the table gets its number queued, otherwise no
  peer changes.
\<close>

theorem torrent_process_data_chunk_spec:
  assumes ok: "torrent_ok t" "td_good (torrent_content t) disk" and ready: "progress_ready io t (peer_ips t)"
    and env: "env_good (chunk_env io)" "length (chunk_stack io) = 64" "chunk_piece_malloc io" "chunk_item_malloc io"
    and i: "i < chunk_total (torrent_content t)"
    and ci: "torrent_data_get_chunk_info (torrent_content t) (int i) = Some (s1, Some ci)"
    and pi: "torrent_data_get_piece_info (torrent_content t) (chunk_piece_id ci) = (s2, Some pi)"
    and m: "m = piece_msg le (take 4 (drop 5 (request_msg le pi ci))) (take 4 (drop 9 (request_msg le pi ci))) block"
      "length block < 2 ^ 31"
  shows "\<exists>t' disk' r. torrent_process_data_chunk le io t disk m = Some (EXIT_SUCCESS, t', disk')
    \<and> torrent_ok t' \<and> td_good (torrent_content t') disk' \<and> peer_addr t' = peer_addr t
    \<and> is_completed (torrent_content t') i = (is_completed (torrent_content t) i \<or> length block = chunk_len (torrent_content t) i)
    \<and> (r = EXIT_SUCCESS \<longleftrightarrow> completed_pieces (torrent_content t') \<noteq> completed_pieces (torrent_content t))
    \<and> (\<forall>ip \<in> set (peer_ips t). \<exists>p'. peer_mem t' (the (peer_addr t ip)) = Some p'
         \<and> (if r = EXIT_SUCCESS then told (int (piece_of (torrent_content t) i)) else (=))
              (the (peer_mem t (the (peer_addr t ip)))) p')"
proof -
  let ?td = "torrent_content t"
  have g: "geometry ?td" using ok(2) by (simp add: td_good_def)
  have msg: "message_chunk le ?td m = Some (int (piece_of ?td i), int i)" by (rule message_chunk_answer [OF g i ci pi m(1)])
  obtain r td disk' where w: "torrent_data_write_chunk (chunk_env io) True True (chunk_stack io) ?td disk (int i) block (length block)
      = Some (r, td, disk')" "td_good td disk'"
    "is_completed td i = (is_completed ?td i \<or> length block = chunk_len ?td i)"
    "r = EXIT_SUCCESS \<longleftrightarrow> completed_pieces td \<noteq> completed_pieces ?td"
  proof (cases "is_completed ?td i \<or> length block \<noteq> chunk_len ?td i")
    case True
    from write_chunk_refused [OF ok(2) i True] ok(2) True show thesis by (intro that) auto
  next
    case False
    then have "\<not> is_completed ?td i" "length block = chunk_len ?td i" by auto
    from write_chunk_accepted [OF ok(2) env(1,2) i this] False show thesis by (auto intro!: that)
  qed
  have len: "length (take 4 (drop 5 (request_msg le pi ci))) = 4" "length (take 4 (drop 9 (request_msg le pi ci))) = 4"
    by (simp_all add: request_msg_def)
  from process_data_chunk_run [OF ok(1) ready msg m(1) len m(2), of disk r td disk'] w env(3,4) show ?thesis by auto
qed

subsection \<open>A concrete torrent\<close>

definition demo_peer :: peer where
  "demo_peer = (the (found_peer True 0 (0x0A000002, 6881)))\<lparr>str_ip := ''10.0.0.2'', peer_state := PEER_HANDSHAKE_COMPLETE,
     peer_interested := 1, progress_queue := sample_queue\<rparr>"

definition demo_torrent :: "addr hash_map \<Rightarrow> torrent" where
  "demo_torrent hm = \<lparr>magnet_uri = ''magnet:'', path = ''/tmp'', t_port = 5000, t_name = None, t_info_hash = None,
     info_hash_hex = replicate 20 0, tracker_count = 0, trackers = replicate 5 None, peers = Some hm,
     peer_ips = [''10.0.0.2''], peer_count = 1, assign_upload_slots_deadline = 0, torrent_metadata = demo_dl,
     torrent_content = demo_dl, peer_mem = [7 \<mapsto> demo_peer, 8 \<mapsto> demo_peer]\<rparr>"

definition demo_table :: "addr hash_map \<Rightarrow> bool" where
  "demo_table hm \<longleftrightarrow> hm_wf hm \<and> hm_lookup hm = [''10.0.0.2'' \<mapsto> 7]"

lemma demo_table_exists: "\<exists>hm. demo_table hm"
proof -
  have e: "hm_wf (\<lparr>max_buckets = 1, buckets = [[]]\<rparr> :: addr hash_map)" by (simp add: hm_wf_def)
  have n: "hm_lookup (\<lparr>max_buckets = 1, buckets = [[]]\<rparr> :: addr hash_map) = Map.empty"
    by (auto simp: fun_eq_iff hm_lookup_def bucket_index_def Let_def u32_of_def split: bind_splits if_splits)
  from hmi.put_law [OF e, of "''10.0.0.2''" 7] show ?thesis unfolding n demo_table_def by (metis fun_upd_apply)
qed

lemma demo_view:
  assumes "demo_table hm"
  shows "peer_addr (demo_torrent hm) = [''10.0.0.2'' \<mapsto> 7]" "torrent_ok (demo_torrent hm)"
proof -
  show v: "peer_addr (demo_torrent hm) = [''10.0.0.2'' \<mapsto> 7]"
    using assms by (simp add: demo_table_def demo_torrent_def peer_addr_def fun_eq_iff)
  show "torrent_ok (demo_torrent hm)"
    unfolding torrent_ok_def v using assms by (simp add: demo_table_def demo_torrent_def demo_peer_def)
qed

definition demo_disconnect :: disconnect_io where
  "demo_disconnect = \<lparr>free_steps = 0, reset_now = 0, deadline_now = 0\<rparr>"

lemma demo_peer_free: "peer_free demo_disconnect (Some demo_peer) = Some None"
proof -
  have "psocket (the (found_peer True 0 (0x0A000002, 6881))) = None"
    by (simp add: found_peer_def peer_new_def queue_new_def peer_reset_def)
  moreover obtain q where "queue_drain (sample_queue :: int queue) = Some ([], q)"
    using queue_drain_run [OF sample_queue_rep] by auto
  ultimately show ?thesis
    by (auto simp: peer_free_def peer_disconnect_def demo_peer_def buffered_socket_free_def peer_reset_def queue_free_def)
qed

theorem torrent_add_peer_spec_witness:
  "\<exists>hm t'. demo_table hm \<and> torrent_add_peer True True demo_disconnect (demo_torrent hm) 8 = Some (EXIT_SUCCESS, t')
     \<and> torrent_ok t' \<and> peer_mem t' 8 = None \<and> peer_ips t' = [''10.0.0.2'']"
proof -
  obtain hm where hm: "demo_table hm" using demo_table_exists by blast
  have "peer_mem (demo_torrent hm) 8 = Some demo_peer" "peer_ips (demo_torrent hm) = [''10.0.0.2'']" "str_ip demo_peer = ''10.0.0.2''"
    by (simp_all add: demo_torrent_def demo_peer_def)
  moreover have "\<forall>ip. peer_addr (demo_torrent hm) ip \<noteq> Some 8" by (simp add: demo_view(1) [OF hm])
  ultimately show ?thesis using torrent_add_peer_spec [OF demo_view(2) [OF hm] _ _ _ demo_peer_free, of 8] hm by fastforce
qed

definition demo_tp :: "t_job pool" where
  "demo_tp = \<lparr>cancel_flag = 0, working_threads = 0, thread_count = 0, max_threads = 10, job_semaphore = 0, job_queue = sample_queue\<rparr>"

definition demo_spawn :: "string \<Rightarrow> spawn_io" where
  "demo_spawn ip = \<lparr>item_ok = True, job_ok = True, spawn_create = True, job_node = Some 1\<rparr>"

theorem torrent_run_peers_schedules_witness:
  "\<exists>hm t' tp'. demo_table hm \<and> torrent_run_peers demo_spawn (demo_torrent hm, demo_tp) = Some (EXIT_SUCCESS, t', tp')
     \<and> queue_rep (job_queue tp') [\<lparr>execute = PeerRun, arg_count = 6, args = peer_job 7\<rparr>] \<and> idle_jobs t' (peer_ips t') = []"
proof -
  obtain hm where hm: "demo_table hm" using demo_table_exists by blast
  have r: "running demo_peer = 0" by (simp add: demo_peer_def found_peer_def peer_new_def queue_new_def peer_reset_def)
  have i: "idle_jobs (demo_torrent hm) [''10.0.0.2''] = [\<lparr>execute = PeerRun, arg_count = 6, args = peer_job 7\<rparr>]"
    using r by (simp add: idle_jobs_def demo_view(1) [OF hm]) (simp add: demo_torrent_def)
  have s: "spawns demo_spawn (set (peer_ips (demo_torrent hm))) (job_queue demo_tp)" "queue_rep (job_queue demo_tp) []"
    by (simp_all add: spawns_def demo_spawn_def demo_tp_def sample_queue_rep demo_torrent_def)
       (simp add: sample_queue_def fresh_in_def)
  have ips: "peer_ips (demo_torrent hm) = [''10.0.0.2'']" by (simp add: demo_torrent_def)
  from torrent_run_peers_schedules [OF demo_view(2) [OF hm] s] hm show ?thesis
    unfolding ips i append_Nil by blast
qed

definition demo_slots :: slots_io where
  "demo_slots = \<lparr>slots_now1 = 5, slots_now2 = 6, slots_item = \<lambda>_. True, sorted_by_speed = \<lambda>xs. xs, slots_rand = 0\<rparr>"

text \<open>Five interested peers, of which the fifth is drawn.\<close>

lemma table_exists:
  assumes "distinct (map fst kvs)"
  shows "\<exists>hm :: addr hash_map. hm_wf hm \<and> hm_lookup hm = map_of kvs"
  using assms
proof (induction kvs)
  case Nil
  have "hm_lookup (\<lparr>max_buckets = 1, buckets = [[]]\<rparr> :: addr hash_map) = Map.empty"
    by (auto simp: fun_eq_iff hm_lookup_def bucket_index_def Let_def u32_of_def split: bind_splits if_splits)
  then show ?case by (intro exI [of _ "\<lparr>max_buckets = 1, buckets = [[]]\<rparr>"]) (simp add: hm_wf_def)
next
  case (Cons kv kvs)
  then obtain hm :: "addr hash_map" where hm: "hm_wf hm" "hm_lookup hm = map_of kvs" by auto
  have "hm_lookup hm (fst kv) = None" using hm(2) Cons.prems by (simp add: map_of_eq_None_iff)
  with hmi.put_law [OF hm(1), of "fst kv" "snd kv"] hm(2) show ?case by (cases kv) auto
qed

abbreviation (input) five :: "(string \<times> addr) list" where
  "five \<equiv> [(''a'', 1), (''b'', 2), (''c'', 3), (''d'', 4), (''e'', 5)]"

definition five_torrent :: "addr hash_map \<Rightarrow> torrent" where
  "five_torrent hm = (demo_torrent hm)\<lparr>peer_ips := map fst five, peer_count := 5,
     peer_mem := map_of (map (\<lambda>(ip, a). (a, demo_peer\<lparr>str_ip := ip\<rparr>)) five)\<rparr>"


definition demo_chunk :: chunk_io where
  "demo_chunk = \<lparr>chunk_env = demo_env, chunk_piece_malloc = True, chunk_item_malloc = True, chunk_stack = replicate 64 0,
     chunk_fetch = \<lambda>_. True, progress_malloc = \<lambda>_. True, progress_node = \<lambda>_. Some 3\<rparr>"

theorem torrent_process_data_chunk_spec_witness:
  "\<exists>hm ci pi t' disk'. demo_table hm \<and> torrent_data_get_chunk_info demo_dl 3 = Some (EXIT_SUCCESS, Some ci)
    \<and> torrent_data_get_piece_info demo_dl (chunk_piece_id ci) = (EXIT_SUCCESS, Some pi)
    \<and> torrent_process_data_chunk True demo_chunk (demo_torrent hm) Map.empty
        (piece_msg True (take 4 (drop 5 (request_msg True pi ci))) (take 4 (drop 9 (request_msg True pi ci))) [8, 9])
      = Some (EXIT_SUCCESS, t', disk') \<and> is_completed (torrent_content t') 3"
proof -
  obtain hm where hm: "demo_table hm" using demo_table_exists by blast
  note g = get_chunk_info_run [OF demo_dl_facts(2), of 3] get_piece_info_run [OF demo_dl_facts(2), of 0]
  obtain ci pi where i: "torrent_data_get_chunk_info demo_dl (int 3) = Some (EXIT_SUCCESS, Some ci)"
    "torrent_data_get_piece_info demo_dl (chunk_piece_id ci) = (EXIT_SUCCESS, Some pi)"
    using g by (auto simp: demo_dl_facts) (simp add: demo_dl_def demo_td_def)
  have c: "torrent_content (demo_torrent hm) = demo_dl" by (simp add: demo_torrent_def)
  have r: "progress_ready demo_chunk (demo_torrent hm) (peer_ips (demo_torrent hm))"
    by (simp add: progress_ready_def demo_view(1) [OF hm])
       (auto simp: demo_chunk_def demo_torrent_def demo_peer_def sample_queue_rep intro!: exI [of _ "[]"], simp add: sample_queue_def fresh_in_def)
  from torrent_process_data_chunk_spec [OF demo_view(2) [OF hm] _ r, of Map.empty 3 EXIT_SUCCESS ci EXIT_SUCCESS pi _ True "[8, 9]"]
    i hm show ?thesis
    unfolding c by (auto simp: demo_dl_good demo_dl_facts demo_chunk_def demo_env_good)
qed

end
