(* ===== verification/Uvg_Metadata.thy ===== *)
theory Uvg_Metadata
  imports Uvg_Torrent Uvg_BencodeCodec
begin

text \<open>
  What the torrent does with the metadata it downloads from its peers (\<open>torrent_process_metadata_piece\<close>
  of \<^verbatim>\<open>src/src/torrent/torrent.c\<close>): the received part is stored, and once the metadata is complete the
  info dictionary is read and the download of the content is set up from it.
\<close>

subsection \<open>Texts\<close>

text \<open>The text in a buffer up to its terminator; \<open>strlen\<close> reads past a buffer without one.\<close>

definition c_text :: "u8 list \<Rightarrow> string option" where
  "c_text b = (if 0 \<in> set b then Some (map (\<lambda>x. char_of (unat x)) (takeWhile (\<lambda>x. x \<noteq> 0) b)) else None)"

text \<open>\<open>strncat\<close> of at most \<open>n\<close> bytes of \<open>b\<close> to a text in an array of 4096 bytes.\<close>

definition strncat_4096 :: "string \<Rightarrow> u8 list \<Rightarrow> nat \<Rightarrow> string option" where
  "strncat_4096 s b n =
     (if n > length b \<and> 0 \<notin> set b then None
      else let t = s @ map (\<lambda>x. char_of (unat x)) (takeWhile (\<lambda>x. x \<noteq> 0) (take n b))
        in if length t < 4096 then Some t else None)"

subsection \<open>The files of the torrent\<close>

record file_io =
  file_malloc :: bool
  file_strndup :: bool

text \<open>The path of one file: \<open>None\<close> inside when a component is longer than what is taken to remain. A
  component that is not a string is read through the wrong member of the union: undefined.\<close>

primrec path_loop :: "be_node list \<Rightarrow> string \<Rightarrow> nat \<Rightarrow> string option option" where
  "path_loop [] acc remaining = Some (Some acc)"
| "path_loop (x # xs) acc remaining = (case x of
      BE_STR s \<Rightarrow>
        if remaining < size_t_of (slen s) then Some None
        else do {
          acc \<leftarrow> strncat_4096 acc [of_char (CHR ''/''), 0] 1;
          b \<leftarrow> sbuf s;
          acc \<leftarrow> strncat_4096 acc b (size_t_of (slen s));
          path_loop xs acc (size_sub remaining (size_t_of (slen s)))
        }
    | _ \<Rightarrow> None)"

text \<open>One entry of the list of files. The flag is false when the path is too long; the result of adding
  the file is ignored.\<close>

definition add_listed_file :: "file_io \<Rightarrow> be_node \<Rightarrow> torrent_data \<Rightarrow> (bool \<times> torrent_data) option" where
  "add_listed_file io file td = do {
     (pn, _) \<leftarrow> be_dict_lookup file (keystr ''path'');
     (case pn of
        Some (BE_LIST xs) \<Rightarrow> do {
          fp \<leftarrow> path_loop xs [] 4096;
          case fp of
            None \<Rightarrow> Some (False, td)
          | Some p \<Rightarrow> do {
              len \<leftarrow> be_dict_lookup_num file (keystr ''length'');
              (_, td) \<leftarrow> torrent_data_add_file (file_malloc io) (file_strndup io) td p (size_t_of len);
              Some (True, td)
            }
        }
      | _ \<Rightarrow> None)
   }"

primrec add_files :: "(nat \<Rightarrow> file_io) \<Rightarrow> nat \<Rightarrow> be_node list \<Rightarrow> torrent_data \<Rightarrow> (bool \<times> torrent_data) option" where
  "add_files io k [] td = Some (True, td)"
| "add_files io k (file # rest) td = do {
     (ok, td) \<leftarrow> add_listed_file (io k) file td;
     if ok then add_files io (Suc k) rest td else Some (False, td)
   }"

text \<open>Torrents of a single file have no list: the file is named like the torrent.\<close>

definition add_single_file :: "file_io \<Rightarrow> be_node \<Rightarrow> u8 list option \<Rightarrow> torrent_data \<Rightarrow> torrent_data option" where
  "add_single_file io info name td = do {
     len \<leftarrow> be_dict_lookup_num info (keystr ''length'');
     path \<leftarrow> strncat_4096 [] [of_char (CHR ''/''), 0] 1;
     name \<leftarrow> name;
     n \<leftarrow> c_text name;
     path \<leftarrow> strncat_4096 path name (length n);
     (_, td) \<leftarrow> torrent_data_add_file (file_malloc io) (file_strndup io) td path (size_t_of len);
     Some td
   }"

subsection \<open>The info dictionary\<close>

record info_io =
  hashes_malloc :: bool
  files_io :: "nat \<Rightarrow> file_io"
  size_mallocs :: "bool \<times> bool \<times> bool"

abbreviation (input) TORRENT_CHUNK_SIZE :: nat where "TORRENT_CHUNK_SIZE \<equiv> 16384"

text \<open>What the complete metadata says about the content. The flag is false when the loop over the files
  threw an error; a missing \<open>pieces\<close> is copied from NULL.\<close>

definition apply_info :: "info_io \<Rightarrow> be_node \<Rightarrow> torrent_data \<Rightarrow> (bool \<times> torrent_data) option" where
  "apply_info io info td = do {
     name \<leftarrow> be_dict_lookup_cstr info (keystr ''name'');
     hashes \<leftarrow> be_dict_lookup_cstr info (keystr ''pieces'');
     hashes_len \<leftarrow> be_dict_lookup_cstr_len info (keystr ''pieces'');
     piece_length \<leftarrow> be_dict_lookup_num info (keystr ''piece length'');
     hashes \<leftarrow> hashes;
     td \<leftarrow> torrent_data_set_sha1_hashes (hashes_malloc io) td hashes (size_t_of hashes_len);
     (fs, _) \<leftarrow> be_dict_lookup info (keystr ''files'');
     (ok, td) \<leftarrow> (case fs of
         None \<Rightarrow> map_option (\<lambda>td. (True, td)) (add_single_file (files_io io 0) info name td)
       | Some (BE_LIST xs) \<Rightarrow> add_files (files_io io) 0 xs td
       | Some _ \<Rightarrow> None);
     if \<not> ok then Some (False, td)
     else do {
       let td = torrent_data_set_piece_size td (size_t_of piece_length);
       let td = torrent_data_set_chunk_size td TORRENT_CHUNK_SIZE;
       (_, td) \<leftarrow> (case size_mallocs io of (a, b, c) \<Rightarrow> torrent_data_set_data_size a b c td (files_size td));
       Some (True, td\<lparr>needed := 1\<rparr>)
     }
   }"

subsection \<open>A metadata message\<close>

record metadata_msg_io =
  msg_allocs :: outcomes
  part_env :: disk_env
  part_piece_malloc :: bool
  part_item_malloc :: bool
  part_stack :: "u8 list"
  read_fuel :: nat
  info_allocs :: outcomes
  setup_io :: info_io

definition torrent_process_metadata_piece ::
  "bool \<Rightarrow> metadata_msg_io \<Rightarrow> torrent \<Rightarrow> disk \<Rightarrow> u8 list \<Rightarrow> (status \<times> torrent \<times> disk) option" where
  "torrent_process_metadata_piece le io t disk m = do {
     buffer_size \<leftarrow> get_msg_buffer_size le m;
     let len = size_sub buffer_size 6;
     (r, msg_size, _) \<leftarrow> be_decode (msg_allocs io) (drop 6 m) len new_heap;
     case r of
       Inl _ \<Rightarrow> Some (EXIT_FAILURE, t, disk)
     | Inr msg \<Rightarrow> do {
         piece \<leftarrow> be_dict_lookup_num msg (keystr ''piece'');
         (_, md, disk) \<leftarrow> torrent_data_write_chunk (part_env io) (part_piece_malloc io) (part_item_malloc io) (part_stack io)
           (torrent_metadata t) disk (int32_of piece) (drop (6 + msg_size) m) (size_sub len msg_size);
         let t = t\<lparr>torrent_metadata := md\<rparr>;
         if torrent_data_is_complete md = 1 \<and> needed (torrent_content t) = 0 then do {
           (s, buf) \<leftarrow> torrent_data_read_data (read_fuel io) (part_env io) md disk 0 (torrent_data.data_size md);
           if s = EXIT_FAILURE then Some (EXIT_FAILURE, t, disk)
           else do {
             (r, _, _) \<leftarrow> be_decode (info_allocs io) buf (torrent_data.data_size md) new_heap;
             case r of
               Inl _ \<Rightarrow> Some (EXIT_FAILURE, t, disk)
             | Inr info \<Rightarrow> do {
                 (ok, td) \<leftarrow> apply_info (setup_io io) info (torrent_content t);
                 Some (if ok then EXIT_SUCCESS else EXIT_FAILURE, t\<lparr>torrent_content := td\<rparr>, disk)
               }
           }
         }
         else Some (EXIT_SUCCESS, t, disk)
       }
   }"

subsection \<open>Info dictionaries\<close>

text \<open>The dictionary of a torrent with the given files, each a path and a length.\<close>

definition be_text :: "string \<Rightarrow> be_str" where
  "be_text s = \<lparr>sbuf = Some (keystr s), slen = int (length s)\<rparr>"

definition file_node :: "string list \<times> nat \<Rightarrow> be_node" where
  "file_node f = BE_DICT [(be_text ''length'', Some (BE_NUM (int (snd f)))),
     (be_text ''path'', Some (BE_LIST (map (\<lambda>c. BE_STR (be_text c)) (fst f))))]"

definition info_node :: "string \<Rightarrow> nat \<Rightarrow> u8 list \<Rightarrow> (string list \<times> nat) list \<Rightarrow> be_node" where
  "info_node name pl hashes fs = BE_DICT [(be_text ''files'', Some (BE_LIST (map file_node fs))),
     (be_text ''name'', Some (BE_STR (be_text name))), (be_text ''piece length'', Some (BE_NUM (int pl))),
     (be_text ''pieces'', Some (BE_STR \<lparr>sbuf = Some (hashes @ [0]), slen = int (length hashes)\<rparr>))]"

definition path_text :: "string list \<Rightarrow> string" where
  "path_text cs = concat (map (\<lambda>c. ''/'' @ c) cs)"

lemma byte_of_char [simp]: "(of_char c :: u8) = 0 \<longleftrightarrow> c = NUL" "char_of (unat (of_char c :: u8)) = c"
proof -
  have u: "unat (of_char c :: u8) = of_char c" by (rule unat_ascii)
  have "(of_char c :: u8) = 0 \<longleftrightarrow> (of_char c :: nat) = of_char NUL" using u by (simp add: unat_eq_zero [symmetric])
  then show "(of_char c :: u8) = 0 \<longleftrightarrow> c = NUL" by (simp only: of_char_eq_iff)
  show "char_of (unat (of_char c :: u8)) = c" unfolding u by simp
qed

lemma text_bytes_nonzero [simp]: "NUL \<notin> set s \<Longrightarrow> (0 :: u8) \<notin> of_char ` set s"
  by auto

lemma takeWhile_text [simp]: "NUL \<notin> set s \<Longrightarrow> takeWhile (\<lambda>x. x \<noteq> 0) (text_bytes s) = text_bytes s"
  by (auto simp: takeWhile_eq_all_conv)

lemma lookup_key:
  assumes "NUL \<notin> set k" "NUL \<notin> set s"
  shows "lookup_loop ((be_text s, v) # es) (keystr k) = (if k = s then Some (Some (be_text s, v)) else lookup_loop es (keystr k))"
proof -
  obtain d where d: "strcmp (keystr k) (keystr s) = Some d" "d = 0 \<longleftrightarrow> text_bytes k = text_bytes s"
    using strcmp_cstring [of "text_bytes k" "text_bytes s"] assms by auto
  have "text_bytes k = text_bytes s \<longleftrightarrow> k = s"
    by (rule inj_map_eq_map) (metis byte_of_char(2) injI)
  with d show ?thesis by (simp add: be_text_def)
qed

lemma strncat_run:
  assumes "NUL \<notin> set c" "length s + length c < 4096" "n = length c"
  shows "strncat_4096 s (keystr c) n = Some (s @ c)"
proof -
  have "takeWhile (\<lambda>x. x \<noteq> 0) (take n (keystr c)) = text_bytes c"
    using assms(1,3) by (simp add: cstring_def)
  then show ?thesis using assms by (simp add: strncat_4096_def cstring_def comp_def)
qed

lemma slash_run: "length s < 4095 \<Longrightarrow> strncat_4096 s [of_char (CHR ''/''), 0] 1 = Some (s @ ''/'')"
  using strncat_run [of "''/''" s 1] by (simp add: cstring_def)

lemma path_loop_run:
  assumes "\<forall>c \<in> set cs. NUL \<notin> set c" "length acc + length (path_text cs) < 4096" "length (path_text cs) \<le> r" "r \<le> 4096"
  shows "path_loop (map (\<lambda>c. BE_STR (be_text c)) cs) acc r = Some (Some (acc @ path_text cs))"
  using assms
proof (induction cs arbitrary: acc r)
  case Nil
  then show ?case by (simp add: path_text_def)
next
  case (Cons c cs)
  have l: "length (path_text (c # cs)) = 1 + length c + length (path_text cs)" by (simp add: path_text_def)
  have n: "size_t_of (int (length c)) = length c" "size_sub r (length c) = r - length c"
    using Cons.prems l by (auto simp: size_t_of_nat size_sub_id)
  have "path_loop (map (\<lambda>c. BE_STR (be_text c)) cs) (acc @ ''/'' @ c) (r - length c) = Some (Some ((acc @ ''/'' @ c) @ path_text cs))"
    using Cons.prems l by (intro Cons.IH) auto
  with Cons.prems l n show ?case
    by (simp add: be_text_def slash_run [simplified] strncat_run path_text_def)
qed

definition file_ok :: "string \<Rightarrow> string list \<times> nat \<Rightarrow> bool" where
  "file_ok root f \<longleftrightarrow> (\<forall>c \<in> set (fst f). NUL \<notin> set c) \<and> length root + length (path_text (fst f)) < 4096
     \<and> root @ path_text (fst f) \<noteq> [] \<and> snd f < 2 ^ 63"

lemma file_lookups:
  "be_dict_lookup (file_node f) (keystr ''path'')
     = Some (Some (BE_LIST (map (\<lambda>c. BE_STR (be_text c)) (fst f))), Some (be_text ''path'', Some (BE_LIST (map (\<lambda>c. BE_STR (be_text c)) (fst f)))))"
  "be_dict_lookup_num (file_node f) (keystr ''length'') = Some (int (snd f))"
  unfolding file_node_def be_dict_lookup_def be_dict_lookup_num_def be_node.case
  by (simp_all add: lookup_key del: list.map lookup_loop.simps(2))

lemma add_listed_file_run:
  assumes "file_ok (root_path td) f" "file_malloc io" "file_strndup io"
  shows "add_listed_file io (file_node f) td = Some (True, td\<lparr>files := files td @
      [\<lparr>fp_open = False, file_path = root_path td @ path_text (fst f), file_offset = files_size td, file_size = snd f\<rparr>],
      files_size := (files_size td + snd f) mod 2 ^ 64\<rparr>)"
proof -
  have "path_loop (map (\<lambda>c. BE_STR (be_text c)) (fst f)) [] 4096 = Some (Some (path_text (fst f)))"
    using path_loop_run [of "fst f" "[]" 4096] assms(1) by (auto simp: file_ok_def)
  moreover have "size_t_of (int (snd f)) = snd f" using assms(1) by (simp add: file_ok_def size_t_of_nat)
  ultimately show ?thesis
    using assms
    unfolding add_listed_file_def file_lookups by (simp add: torrent_data_add_file_def file_ok_def)
qed

text \<open>The files as the download keeps them, from offset \<open>off\<close> on.\<close>

fun layout :: "string \<Rightarrow> nat \<Rightarrow> (string list \<times> nat) list \<Rightarrow> torrent_data_file_info list" where
  "layout root off [] = []"
| "layout root off (f # fs) =
     \<lparr>fp_open = False, file_path = root @ path_text (fst f), file_offset = off, file_size = snd f\<rparr> # layout root (off + snd f) fs"

lemma add_files_run:
  assumes "\<forall>f \<in> set fs. file_ok (root_path td) f" "\<forall>k. file_malloc (io k) \<and> file_strndup (io k)"
    "files_size td + sum_list (map snd fs) < 2 ^ 64"
  shows "add_files io k (map file_node fs) td = Some (True, td\<lparr>files := files td @ layout (root_path td) (files_size td) fs,
      files_size := files_size td + sum_list (map snd fs)\<rparr>)"
  using assms
proof (induction fs arbitrary: k td)
  case (Cons f fs)
  let ?td = "td\<lparr>files := files td @ layout (root_path td) (files_size td) [f], files_size := files_size td + snd f\<rparr>"
  have "add_listed_file (io k) (file_node f) td = Some (True, ?td)"
    using Cons.prems by (subst add_listed_file_run) auto
  moreover have "add_files io (Suc k) (map file_node fs) ?td = Some (True, ?td\<lparr>files := files ?td @ layout (root_path ?td) (files_size ?td) fs,
      files_size := files_size ?td + sum_list (map snd fs)\<rparr>)"
    using Cons.prems by (intro Cons.IH) auto
  ultimately show ?case by (simp add: add.assoc)
qed simp

lemma layout_facts:
  assumes "\<forall>f \<in> set fs. file_ok root f" "distinct (map (\<lambda>f. path_text (fst f)) fs)"
  shows "laid_out off (layout root off fs)" "files_end off (layout root off fs) = off + sum_list (map snd fs)"
    "map file_path (layout root off fs) = map (\<lambda>f. root @ path_text (fst f)) fs" "\<forall>x \<in> set (layout root off fs). \<not> fp_open x"
proof -
  show p: "map file_path (layout root off fs) = map (\<lambda>f. root @ path_text (fst f)) fs" for off
    by (induction fs arbitrary: off) auto
  have s: "file_path ` set (layout root off gs) = (\<lambda>f. root @ path_text (fst f)) ` set gs" for off gs
    by (induction gs arbitrary: off) auto
  show "laid_out off (layout root off fs)"
    using assms by (induction fs arbitrary: off) (auto simp: s file_ok_def)
  show "files_end off (layout root off fs) = off + sum_list (map snd fs)"
    by (induction fs arbitrary: off) (auto simp: files_end_def)
  show "\<forall>x \<in> set (layout root off fs). \<not> fp_open x" by (induction fs arbitrary: off) auto
qed

subsection \<open>Setting up the download\<close>

lemma info_lookups:
  assumes "NUL \<notin> set name"
  shows "be_dict_lookup_cstr (info_node name pl hashes fs) (keystr ''name'') = Some (Some (keystr name))"
    "be_dict_lookup_cstr (info_node name pl hashes fs) (keystr ''pieces'') = Some (Some (hashes @ [0]))"
    "be_dict_lookup_cstr_len (info_node name pl hashes fs) (keystr ''pieces'') = Some (int (length hashes))"
    "be_dict_lookup_num (info_node name pl hashes fs) (keystr ''piece length'') = Some (int pl)"
    "\<exists>e. be_dict_lookup (info_node name pl hashes fs) (keystr ''files'') = Some (Some (BE_LIST (map file_node fs)), e)"
  unfolding info_node_def be_dict_lookup_def be_dict_lookup_num_def be_dict_lookup_cstr_def be_dict_lookup_cstr_len_def be_node.case
  by (simp_all add: lookup_key be_text_def [of name] del: list.map lookup_loop.simps(2))

text \<open>A torrent whose sizes the program can represent.\<close>

definition info_ok :: "string \<Rightarrow> string \<Rightarrow> nat \<Rightarrow> u8 list \<Rightarrow> (string list \<times> nat) list \<Rightarrow> bool" where
  "info_ok root name pl hashes fs \<longleftrightarrow> NUL \<notin> set name \<and> (\<forall>f \<in> set fs. file_ok root f) \<and> distinct (map (\<lambda>f. path_text (fst f)) fs)
     \<and> 0 < sum_list (map snd fs) \<and> sum_list (map snd fs) < 2 ^ 44 \<and> 16384 dvd pl \<and> 0 < pl \<and> pl < 2 ^ 31
     \<and> sum_list (map snd fs) \<le> pl * 10 ^ 8 \<and> 20 \<le> length hashes \<and> length hashes < 2 ^ 31"

definition info_alloc :: "info_io \<Rightarrow> bool" where
  "info_alloc io \<longleftrightarrow> hashes_malloc io \<and> (\<forall>k. file_malloc (files_io io k) \<and> file_strndup (files_io io k))
     \<and> size_mallocs io = (True, True, True)"

lemma chunk_count_bound:
  fixes n :: nat
  assumes "0 < n" "n < 2 ^ 44"
  shows "(n + (16384 - 1)) mod 2 ^ 64 div 16384 = (n + (16384 - 1)) div 16384" "(n + (16384 - 1)) div 16384 < 2 ^ 31"
proof -
  show "(n + (16384 - 1)) mod 2 ^ 64 div 16384 = (n + (16384 - 1)) div 16384" using assms(2) by simp
  have "(n + (16384 - 1)) div 16384 \<le> (2 ^ 44 + 16383) div 16384" using assms(2) by (intro div_le_mono) simp
  then show "(n + (16384 - 1)) div 16384 < 2 ^ 31" by simp
qed

lemma apply_info_run:
  assumes ok: "info_ok root name pl hashes fs" "info_alloc io" and td: "torrent_data_new True root = Some td"
  shows "\<exists>td'. apply_info io (info_node name pl hashes fs) td = Some (True, td') \<and> (\<forall>disk. td_good td' disk) \<and> needed td' = 1
    \<and> files td' = layout root 0 fs \<and> sizes_of td' = (pl, 16384, sum_list (map snd fs)) \<and> sha1_hashes td' = Some hashes
    \<and> (\<forall>i < chunk_total td'. \<not> is_claimed td' i \<and> \<not> is_completed td' i)"
proof -
  define n where "n = sum_list (map snd fs)"
  define cc where "cc = (n + (16384 - 1)) div 16384"
  have o: "0 < n" "n < 2 ^ 44" "16384 dvd pl" "0 < pl" "pl < 2 ^ 31" "n \<le> pl * 10 ^ 8" "20 \<le> length hashes" "length hashes < 2 ^ 31"
    using ok(1) by (simp_all add: info_ok_def n_def)
  note cb = chunk_count_bound [OF o(1,2), folded cc_def]
  have root: "root_path td = root" "files td = []" "files_size td = 0" "claims td = []" "initialized td = 0"
    using td by (auto simp: torrent_data_new_def)
  let ?td1 = "td\<lparr>sha1_hashes_len := length hashes, sha1_hashes := Some hashes\<rparr>"
  let ?td2 = "?td1\<lparr>files := layout root 0 fs, files_size := n\<rparr>"
  have files: "add_files (files_io io) 0 (map file_node fs) ?td1 = Some (True, ?td2)"
    using ok o(2) root by (subst add_files_run) (auto simp: info_ok_def info_alloc_def n_def)
  obtain cl where cl: "bitfield_new True cc 0 0xFF = Some (Some cl)" "bf_wf cl" "bit_count cl = cc" "\<forall>i < cc. \<not> bf_bit cl i"
    using bitfield_new_run [of cc 0 "0xFF"] cb(2) by auto
  obtain hm :: "u8 list hash_map" where hm: "hashmap_new True 1000 = Some hm" "hm_wf hm" "hm_lookup hm = Map.empty"
    using hashmap_new_run [of 1000] by auto
  define pc where "pc = int32_of (int ((n + (pl - 1)) mod 2 ^ 64 div pl))"
  define td' where "td' = ?td2\<lparr>piece_size := pl, chunk_size := 16384, data_size := n, piece_count := pc, chunk_count := int cc,
    claimed := Some cl, completed := Some cl, downloaded := 0, left := int64_of (int n), uploaded := 0, pieces := Some hm,
    initialized := 1, needed := 1\<rparr>"
  have nums: "size_t_of (int pl) = pl" "size_t_of (int (length hashes)) = length hashes" "int32_of (int cc) = int cc" "size_t_of (int cc) = cc"
    using o(5,8) cb(2) by (simp_all add: size_t_of_nat int32_of_nat)
  have name: "NUL \<notin> set name" using ok(1) by (simp add: info_ok_def)
  obtain e where e: "be_dict_lookup (info_node name pl hashes fs) (keystr ''files'') = Some (Some (BE_LIST (map file_node fs)), e)"
    using info_lookups(5) [OF name] by blast
  have "torrent_data_set_data_size True True True (?td2\<lparr>piece_size := pl, chunk_size := 16384\<rparr>) n
      = Some (EXIT_SUCCESS, td'\<lparr>needed := needed td\<rparr>)"
    using o(4) root(5) cl(1) hm(1) nums cb(1)
    by (simp add: torrent_data_set_data_size_def td'_def pc_def cc_def)
  with files ok(2) have run: "apply_info io (info_node name pl hashes fs) td = Some (True, td')"
    unfolding apply_info_def info_lookups(1-4) [OF name] e
    by (simp add: nums torrent_data_set_sha1_hashes_def info_alloc_def torrent_data_set_piece_size_def
        torrent_data_set_chunk_size_def td'_def)
  have total: "chunk_total td' = cc" using cl(3) by (simp add: chunk_total_def td'_def)
  have ok': "td_ok td'" using cl root hm by (auto simp: td_ok_def claims_ok_def td'_def)
  have geo: "geometry td'" using o total cb(2) by (auto simp: geometry_def td'_def cc_def)
  note l = layout_facts [of fs root 0]
  have "laid_out 0 (files td')" "files_end 0 (files td') = n" "\<forall>disk. disk_opened (files td') disk"
    using ok(1) l by (auto simp: info_ok_def td'_def n_def disk_opened_def)
  with ok' geo o hm have "\<forall>disk. td_good td' disk" by (auto simp: td_good_def hashes_ok_def td'_def)
  moreover have "\<forall>i < chunk_total td'. \<not> is_claimed td' i \<and> \<not> is_completed td' i"
    unfolding total using cl(4) by (simp add: is_claimed_def is_completed_def td'_def)
  ultimately show ?thesis using run by (auto simp: td'_def sizes_of_def n_def)
qed

subsection \<open>Reading the dictionaries back\<close>

lemma be_text_facts: "str_ok (be_text s)" "norm_str (be_text s) = be_text s"
  by (simp_all add: str_ok_def be_text_def norm_str_def str_bytes_def cstring_def)

lemma bytes_str_facts:
  "str_ok \<lparr>sbuf = Some (b @ [0]), slen = int (length b)\<rparr>"
  "norm_str \<lparr>sbuf = Some (b @ [0]), slen = int (length b)\<rparr> = \<lparr>sbuf = Some (b @ [0]), slen = int (length b)\<rparr>"
  by (simp_all add: str_ok_def norm_str_def str_bytes_def)

lemma list_facts:
  assumes "\<And>x. x \<in> set xs \<Longrightarrow> node_ok (g x) \<and> be_norm (g x) = g x \<and> be_depth (g x) \<le> d"
  shows "list_ok (map g xs)" "norm_list (map g xs) = map g xs" "depth_list (map g xs) \<le> d"
  using assms by (induction xs) auto

lemma file_node_facts:
  assumes "snd f < 2 ^ 63"
  shows "node_ok (file_node f)" "be_norm (file_node f) = file_node f" "be_depth (file_node f) \<le> 3"
proof -
  have "list_ok (map (\<lambda>c. BE_STR (be_text c)) cs)" "norm_list (map (\<lambda>c. BE_STR (be_text c)) cs) = map (\<lambda>c. BE_STR (be_text c)) cs"
    "depth_list (map (\<lambda>c. BE_STR (be_text c)) cs) \<le> 1" for cs
    by (rule list_facts [where d = 1]; simp add: be_text_facts)+
  with assms show "node_ok (file_node f)" "be_norm (file_node f) = file_node f" "be_depth (file_node f) \<le> 3"
    by (auto simp: file_node_def be_text_facts)
qed

lemma info_node_facts:
  assumes "\<forall>f \<in> set fs. snd f < 2 ^ 63" "pl < 2 ^ 63"
  shows "node_ok (info_node name pl hashes fs)" "be_norm (info_node name pl hashes fs) = info_node name pl hashes fs"
    "be_depth (info_node name pl hashes fs) \<le> BE_MAX_DEPTH"
proof -
  have f: "list_ok (map file_node fs)" "norm_list (map file_node fs) = map file_node fs" "depth_list (map file_node fs) \<le> 3"
    by (rule list_facts [where d = 3]; use assms(1) file_node_facts in auto)+
  with assms(2) show "node_ok (info_node name pl hashes fs)" "be_norm (info_node name pl hashes fs) = info_node name pl hashes fs"
    "be_depth (info_node name pl hashes fs) \<le> BE_MAX_DEPTH"
    by (simp_all add: info_node_def be_text_facts bytes_str_facts BE_MAX_DEPTH_def)
qed

lemma be_decode_benc:
  assumes "node_ok x" "be_norm x = x" "be_depth x \<le> BE_MAX_DEPTH" "length (benc x @ rest) < 2 ^ 31" "\<forall>i. ok i"
  shows "\<exists>h'. be_decode ok (benc x @ rest) (length (benc x @ rest)) h = Some (Inr x, length (benc x), h')"
proof -
  have "reads_node ok (benc x @ rest) x" using assms by (intro be_decode1_benc(1)) auto
  from reads_nodeD [OF this, of 0 rest BE_MAX_DEPTH "length (benc x @ rest)" h] assms(2-4) show ?thesis
    by (simp add: be_decode_def)
qed

text \<open>A message with part \<open>k\<close> of the metadata.\<close>

definition part_node :: "nat \<Rightarrow> nat \<Rightarrow> be_node" where
  "part_node k tot = BE_DICT [(be_text ''msg_type'', Some (BE_NUM 1)), (be_text ''piece'', Some (BE_NUM (int k))),
     (be_text ''total_size'', Some (BE_NUM (int tot)))]"

definition part_msg :: "bool \<Rightarrow> nat \<Rightarrow> nat \<Rightarrow> u8 list \<Rightarrow> u8 list" where
  "part_msg le k tot dat = extension_msg le 3 (benc (part_node k tot) @ dat)"

lemma part_node_facts:
  assumes "k < 2 ^ 31" "tot < 2 ^ 63"
  shows "node_ok (part_node k tot)" "be_norm (part_node k tot) = part_node k tot"
    "be_depth (part_node k tot) \<le> BE_MAX_DEPTH" "be_dict_lookup_num (part_node k tot) (keystr ''piece'') = Some (int k)"
proof -
  show "node_ok (part_node k tot)" "be_norm (part_node k tot) = part_node k tot" "be_depth (part_node k tot) \<le> BE_MAX_DEPTH"
    using assms by (simp_all add: part_node_def be_text_facts BE_MAX_DEPTH_def)
  show "be_dict_lookup_num (part_node k tot) (keystr ''piece'') = Some (int k)"
    unfolding part_node_def be_dict_lookup_def be_dict_lookup_num_def be_node.case
    by (simp add: lookup_key del: list.map lookup_loop.simps(2))
qed

text \<open>
  C8: when the message with the last missing part of the metadata arrives and the stored metadata
  is the encoding of an info dictionary, the download of the content is set up as the dictionary says:
  the files lie end to end under the download folder in the order of the dictionary, the piece length
  and hashes are taken over, the total size is the sum of the file lengths, no chunk is claimed or
  completed, and the invariant of the download state holds from then on.
\<close>

theorem metadata_sets_up_download:
  assumes ok: "info_ok root name pl hashes fs" "info_alloc (setup_io io)" "\<forall>i. msg_allocs io i" "\<forall>i. info_allocs io i"
    and new: "torrent_data_new True root = Some (torrent_content t)"
    and m: "m = part_msg le k tot dat" "k < 2 ^ 31" "tot < 2 ^ 63" "length (benc (part_node k tot) @ dat) < 2 ^ 30"
    and wr: "torrent_data_write_chunk (part_env io) (part_piece_malloc io) (part_item_malloc io) (part_stack io)
      (torrent_metadata t) disk (int k) dat (length dat) = Some (r, md, disk')"
    and complete: "torrent_data_is_complete md = 1"
    and read: "torrent_data_read_data (read_fuel io) (part_env io) md disk' 0 (torrent_data.data_size md)
      = Some (EXIT_SUCCESS, benc (info_node name pl hashes fs))"
      "torrent_data.data_size md = length (benc (info_node name pl hashes fs))" "torrent_data.data_size md < 2 ^ 31"
  shows "\<exists>t'. torrent_process_metadata_piece le io t disk m = Some (EXIT_SUCCESS, t', disk') \<and> torrent_metadata t' = md
    \<and> td_good (torrent_content t') disk' \<and> needed (torrent_content t') = 1 \<and> files (torrent_content t') = layout root 0 fs
    \<and> sizes_of (torrent_content t') = (pl, 16384, sum_list (map snd fs)) \<and> sha1_hashes (torrent_content t') = Some hashes
    \<and> (\<forall>i < chunk_total (torrent_content t'). \<not> is_claimed (torrent_content t') i \<and> \<not> is_completed (torrent_content t') i)"
proof -
  let ?b = "benc (part_node k tot)" and ?i = "info_node name pl hashes fs"
  note p = part_node_facts [OF m(2,3)]
  have n: "unat (of_nat (2 + length (?b @ dat)) :: u32) = 2 + length (?b @ dat)"
    using m(4) by (subst unat_of_nat) simp
  then have size: "get_msg_buffer_size le m = Some (6 + length (?b @ dat))" "drop 6 m = ?b @ dat" "drop (6 + length ?b) m = dat"
    by (simp_all add: m(1) part_msg_def extension_msg_def get_msg_buffer_size_def get_msg_length_def field32_def)
  have sub: "size_sub (6 + length (?b @ dat)) 6 = length (?b @ dat)" "size_sub (length (?b @ dat)) (length ?b) = length dat"
    using m(4) by (simp_all add: size_sub_id)
  obtain h1 where d1: "be_decode (msg_allocs io) (?b @ dat) (length (?b @ dat)) new_heap = Some (Inr (part_node k tot), length ?b, h1)"
    using be_decode_benc [OF p(1-3) _ ok(3), of dat new_heap] m(4) by auto
  have "\<forall>f \<in> set fs. snd f < 2 ^ 63" "pl < 2 ^ 63" using ok(1) by (auto simp: info_ok_def file_ok_def)
  note q = info_node_facts [OF this, of name hashes]
  obtain h2 where d2: "be_decode (info_allocs io) (benc ?i) (torrent_data.data_size md) new_heap = Some (Inr ?i, length (benc ?i), h2)"
    using be_decode_benc [OF q _ ok(4), of "[]" new_heap] read by auto
  obtain td where td: "apply_info (setup_io io) ?i (torrent_content t) = Some (True, td)" "\<forall>disk. td_good td disk" "needed td = 1"
    "files td = layout root 0 fs" "sizes_of td = (pl, 16384, sum_list (map snd fs))" "sha1_hashes td = Some hashes"
    "\<forall>i < chunk_total td. \<not> is_claimed td i \<and> \<not> is_completed td i"
    using apply_info_run [OF ok(1,2) new] by blast
  have "needed (torrent_content t) = 0" using new [symmetric] by (simp add: torrent_data_new_def)
  moreover have "int32_of (int k) = int k" using m(2) by (simp add: int32_of_nat)
  ultimately have "torrent_process_metadata_piece le io t disk m
      = Some (EXIT_SUCCESS, t\<lparr>torrent_metadata := md, torrent_content := td\<rparr>, disk')"
    using size sub d1 p(4) wr complete read(1) d2 td(1)
    by (simp add: torrent_process_metadata_piece_def)
  with td show ?thesis by auto
qed

subsection \<open>A concrete torrent\<close>

definition demo_info :: be_node where
  "demo_info = info_node ''n'' 16384 (replicate 20 1) [([''f''], 5)]"

definition demo_md :: torrent_data where
  "demo_md = demo_td\<lparr>completed := Some (demo_bits 0xFF), piece_count := 1, completed_pieces := 1,
     piece_size := length (benc demo_info), chunk_size := length (benc demo_info), data_size := length (benc demo_info),
     files := [\<lparr>fp_open = False, file_path = ''/m'', file_offset = 0, file_size = length (benc demo_info)\<rparr>]\<rparr>"

definition demo_meta_io :: metadata_msg_io where
  "demo_meta_io = \<lparr>msg_allocs = \<lambda>_. True, part_env = demo_env, part_piece_malloc = True, part_item_malloc = True,
     part_stack = replicate 64 0, read_fuel = 1, info_allocs = \<lambda>_. True,
     setup_io = \<lparr>hashes_malloc = True, files_io = \<lambda>_. \<lparr>file_malloc = True, file_strndup = True\<rparr>, size_mallocs = (True, True, True)\<rparr>\<rparr>"

definition demo_meta_torrent :: torrent where
  "demo_meta_torrent = (demo_torrent \<lparr>max_buckets = 1, buckets = [[]]\<rparr>)
     \<lparr>torrent_metadata := demo_md, torrent_content := the (torrent_data_new True ''/d'')\<rparr>"

lemma demo_info_length: "0 < length (benc demo_info)" "length (benc demo_info) < 1000"
  by (simp_all add: demo_info_def info_node_def file_node_def be_text_def benc_str_def str_bytes_def dec_int_def dec_nat.simps cstring_def)

lemma demo_md_write:
  "torrent_data_write_chunk demo_env True True (replicate 64 0) demo_md disk 0 [] 0 = Some (EXIT_FAILURE, demo_md, disk)"
proof -
  have "bitfield_get_bit (demo_bits 0xFF) (int 0) = Some 1"
    using bf.get_in [OF demo_bits_wf(1), of 0 "0xFF"] demo_dl_bits(1) [of 0] demo_bits_wf by simp
  then show ?thesis by (simp add: torrent_data_write_chunk_def demo_md_def)
qed

lemma read_one_file:
  assumes "0 < length b" "length b < 1000" "piece_size td = length b" "torrent_data.data_size td = length b"
    "files td = [\<lparr>fp_open = False, file_path = p, file_offset = 0, file_size = length b\<rparr>]" "disk p = Some b"
  shows "torrent_data_read_data 1 demo_env td disk 0 (length b) = Some (EXIT_SUCCESS, b)"
proof -
  have "torrent_data_get_piece_info td 0 = (EXIT_SUCCESS, Some \<lparr>piece_id = 0, info_piece_size = length b, piece_offset = 0\<rparr>)"
    using assms by (simp add: torrent_data_get_piece_info_def size_t_of_def size_sub_id)
  moreover have "read_files demo_env 0 (length b) (files td) disk [] = Some (True, b)"
    using assms by (simp add: size_sub_id int32_of_nat demo_env_def)
  moreover have "int32_of 0 = 0" "size_sub (length b) 0 = length b" "size_t_of (int (length b)) = length b"
    "int32_of (int (length b)) = int (length b)"
    using assms(2) by (simp_all add: int32_of_def size_sub_id size_t_of_nat int32_of_nat)
  ultimately show ?thesis
    using assms(1,3) by (simp add: torrent_data_read_data_def)
qed

theorem metadata_sets_up_download_witness:
  "\<exists>t'. torrent_process_metadata_piece True demo_meta_io demo_meta_torrent [''/m'' \<mapsto> benc demo_info] (part_msg True 0 0 [])
      = Some (EXIT_SUCCESS, t', [''/m'' \<mapsto> benc demo_info])
    \<and> files (torrent_content t') = [\<lparr>fp_open = False, file_path = ''/d/f'', file_offset = 0, file_size = 5\<rparr>]
    \<and> sizes_of (torrent_content t') = (16384, 16384, 5)"
proof -
  have i: "info_ok ''/d'' ''n'' 16384 (replicate 20 1) [([''f''], 5)]" by (simp add: info_ok_def file_ok_def path_text_def)
  have a: "info_alloc (setup_io demo_meta_io)" "\<forall>i. msg_allocs demo_meta_io i" "\<forall>i. info_allocs demo_meta_io i"
    by (simp_all add: info_alloc_def demo_meta_io_def)
  have n: "torrent_data_new True ''/d'' = Some (torrent_content demo_meta_torrent)"
    by (simp add: demo_meta_torrent_def torrent_data_new_def)
  have io: "part_env demo_meta_io = demo_env" "part_piece_malloc demo_meta_io" "part_item_malloc demo_meta_io"
    "part_stack demo_meta_io = replicate 64 0" "read_fuel demo_meta_io = 1" "torrent_metadata demo_meta_torrent = demo_md"
    by (simp_all add: demo_meta_io_def demo_meta_torrent_def)
  have sz: "torrent_data.data_size demo_md = length (benc demo_info)" "torrent_data_is_complete demo_md = 1"
    by (simp_all add: demo_md_def torrent_data_is_complete_def)
  have rd: "torrent_data_read_data 1 demo_env demo_md [''/m'' \<mapsto> benc demo_info] 0 (length (benc demo_info)) = Some (EXIT_SUCCESS, benc demo_info)"
    by (rule read_one_file [OF demo_info_length, of _ "''/m''"]) (simp_all add: demo_md_def)
  have l: "length (benc (part_node 0 0) @ []) < 2 ^ 30"
    by (simp add: part_node_def be_text_def benc_str_def str_bytes_def dec_int_def dec_nat.simps cstring_def)
  have "\<exists>t'. torrent_process_metadata_piece True demo_meta_io demo_meta_torrent [''/m'' \<mapsto> benc demo_info] (part_msg True 0 0 [])
      = Some (EXIT_SUCCESS, t', [''/m'' \<mapsto> benc demo_info])
    \<and> files (torrent_content t') = layout ''/d'' 0 [([''f''], 5)] \<and> sizes_of (torrent_content t') = (16384, 16384, sum_list (map snd [([''f''], 5)]))"
    using metadata_sets_up_download [OF i a n refl _ _ l, of "[''/m'' \<mapsto> benc demo_info]" EXIT_FAILURE demo_md "[''/m'' \<mapsto> benc demo_info]" True]
      io sz rd demo_md_write [of "[''/m'' \<mapsto> benc demo_info]"] demo_info_length(2)
    unfolding demo_info_def [symmetric] by auto
  then show ?thesis by (simp add: path_text_def)
qed

end
