(* ===== verification/Uvg_Magnet.thy ===== *)
theory Uvg_Magnet
  imports Uvg_Torrent
begin

text \<open>
  Creating a torrent from a magnet link and releasing it (\<open>torrent_new\<close>, \<open>torrent_parse_magnet_uri\<close> and
  \<open>torrent_free\<close> of \<^verbatim>\<open>src/src/torrent/torrent.c\<close>).
\<close>

subsection \<open>Hexadecimal bytes\<close>

definition hex_value :: "char \<Rightarrow> nat option" where
  "hex_value c = (let n = of_char c in
     if 48 \<le> n \<and> n \<le> 57 then Some (n - 48)
     else if 97 \<le> n \<and> n \<le> 102 then Some (n - 87)
     else if 65 \<le> n \<and> n \<le> 70 then Some (n - 55)
     else None)"

text \<open>\<open>sscanf (s, "%2hhx", &old)\<close>: the byte afterwards. Leading space, a sign and the prefix \<open>0x\<close>, which
  \<open>sscanf\<close> also accepts, are outside the model.\<close>

definition sscanf_2hhx :: "string \<Rightarrow> u8 \<Rightarrow> u8 option" where
  "sscanf_2hhx s old = (case s of
      [] \<Rightarrow> Some old
    | c # r \<Rightarrow> (case hex_value c of
        None \<Rightarrow> if is_space c \<or> c = CHR ''+'' \<or> c = CHR ''-'' then None else Some old
      | Some a \<Rightarrow> (case r of
          [] \<Rightarrow> Some (of_nat a)
        | d # _ \<Rightarrow>
            if c = CHR ''0'' \<and> (d = CHR ''x'' \<or> d = CHR ''X'') then None
            else (case hex_value d of None \<Rightarrow> Some (of_nat a) | Some b \<Rightarrow> Some (of_nat (16 * a + b))))))"

text \<open>The text behind the last occurrence; without one \<open>strrchr\<close> is NULL.\<close>

fun strrchr_rest :: "string \<Rightarrow> char \<Rightarrow> string option" where
  "strrchr_rest [] c = None"
| "strrchr_rest (x # xs) c = (case strrchr_rest xs c of
      Some r \<Rightarrow> Some r
    | None \<Rightarrow> if x = c then Some xs else None)"

text \<open>The loop over the twenty bytes; a position behind the terminator is outside the text.\<close>

primrec hash_loop :: "nat list \<Rightarrow> string \<Rightarrow> u8 list \<Rightarrow> u8 list option" where
  "hash_loop [] s hex = Some hex"
| "hash_loop (i # is) s hex =
     (if length s < 2 * i \<or> length hex \<le> i then None
      else do {
        b \<leftarrow> sscanf_2hhx (drop (2 * i) s) (hex ! i);
        hash_loop is s (hex[i := b])
      })"

subsection \<open>Magnet links\<close>

record magnet_io =
  stack_char :: char
  param_dup :: "nat \<Rightarrow> bool"
  param_tracker :: "nat \<Rightarrow> tracker_new_io"

text \<open>The buffer \<open>url_string\<close>: \<open>strncpy\<close> pads the second part with NUL; its last byte is never written.\<close>

definition url_string :: "magnet_io \<Rightarrow> string \<Rightarrow> string" where
  "url_string io uri = ''http://blank.com'' @ drop 7 uri @ replicate 8 NUL @ [stack_char io]"

text \<open>One parameter. The value is NULL when it has no equals sign.\<close>

definition magnet_param ::
  "(string \<Rightarrow> string option) \<Rightarrow> magnet_io \<Rightarrow> string option \<Rightarrow> string \<Rightarrow> nat \<Rightarrow> nat \<times> nat option \<Rightarrow> torrent \<Rightarrow> (status \<times> torrent) option" where
  "magnet_param unescape io ip m i kv t = do {
     key \<leftarrow> text_at m (fst kv);
     if key = ''dn'' then do {
       v \<leftarrow> snd kv;
       s \<leftarrow> text_at m v;
       if param_dup io i then Some (EXIT_SUCCESS, t\<lparr>t_name := Some s\<rparr>) else Some (EXIT_FAILURE, t\<lparr>t_name := None\<rparr>)
     }
     else if key = ''xt'' then do {
       v \<leftarrow> snd kv;
       s \<leftarrow> text_at m v;
       if param_dup io i then do {
         h \<leftarrow> strrchr_rest s (CHR '':'');
         hex \<leftarrow> hash_loop [0..<20] h (info_hash_hex t);
         Some (EXIT_SUCCESS, t\<lparr>t_info_hash := Some s, info_hash_hex := hex\<rparr>)
       }
       else Some (EXIT_FAILURE, t\<lparr>t_info_hash := None\<rparr>)
     }
     else if key = ''tr'' then do {
       v \<leftarrow> snd kv;
       s \<leftarrow> text_at m v;
       torrent_add_tracker unescape (param_tracker io i) t s ip
     }
     else Some (EXIT_SUCCESS, t)
   }"

text \<open>The loop runs from the last parameter to the first.\<close>

primrec params_loop ::
  "(string \<Rightarrow> string option) \<Rightarrow> magnet_io \<Rightarrow> string option \<Rightarrow> string \<Rightarrow> params \<Rightarrow> nat \<Rightarrow> torrent \<Rightarrow> (status \<times> torrent) option" where
  "params_loop unescape io ip m ps 0 t = Some (EXIT_SUCCESS, t)"
| "params_loop unescape io ip m ps (Suc p) t = do {
     kv \<leftarrow> (if p < length ps then ps ! p else None);
     (r, t) \<leftarrow> magnet_param unescape io ip m p kv t;
     if r = EXIT_FAILURE then Some (EXIT_FAILURE, t) else params_loop unescape io ip m ps p t
   }"

definition torrent_parse_magnet_uri ::
  "(string \<Rightarrow> string option) \<Rightarrow> magnet_io \<Rightarrow> string option \<Rightarrow> torrent \<Rightarrow> (status \<times> torrent) option" where
  "torrent_parse_magnet_uri unescape io ip t =
     (if take 7 (magnet_uri t) \<noteq> ''magnet:'' then Some (EXIT_FAILURE, t)
      else do {
        (r, url, m) \<leftarrow> yuarel_parse (Some (url_string io (magnet_uri t)));
        if r = - 1 then Some (EXIT_FAILURE, t)
        else do {
          (p, m, ps) \<leftarrow> yuarel_parse_query m (y_query url) (CHR ''&'') (replicate 10 None) 10;
          params_loop unescape io ip m ps (nat p) t
        }
      })"

subsection \<open>Releasing a torrent\<close>

text \<open>The peers are freed one by one; freeing a peer twice is undefined.\<close>

primrec free_peers :: "(addr \<Rightarrow> disconnect_io) \<Rightarrow> addr list \<Rightarrow> (addr \<rightharpoonup> peer) \<Rightarrow> (addr \<rightharpoonup> peer) option" where
  "free_peers d [] mem = Some mem"
| "free_peers d (a # as) mem = do {
     p \<leftarrow> mem a;
     _ \<leftarrow> peer_free (d a) (Some p);
     free_peers d as (mem(a := None))
   }"

text \<open>The result is NULL; the other components are what is left of the peers and the sockets and pieces
  that are released with the trackers and the data.\<close>

definition torrent_free ::
  "(addr \<Rightarrow> disconnect_io) \<Rightarrow> torrent option \<Rightarrow> (torrent option \<times> (addr \<rightharpoonup> peer) \<times> int list \<times> u8 list list) option" where
  "torrent_free d t = (case t of
      None \<Rightarrow> Some (None, Map.empty, [], [])
    | Some t \<Rightarrow> do {
        mem \<leftarrow> (case peers t of
            None \<Rightarrow> Some (peer_mem t)
          | Some hm \<Rightarrow> free_peers d (fst (hashmap_drain hm)) (peer_mem t));
        Some (None, mem, concat (map (\<lambda>tr. snd (tracker_free tr)) (take (tracker_count t) (trackers t))),
          snd (torrent_data_free (Some (torrent_metadata t))) @ snd (torrent_data_free (Some (torrent_content t))))
      })"

subsection \<open>Creating a torrent\<close>

record new_io =
  t_malloc :: bool
  uri_dup :: bool
  path_dup :: bool
  metadata_malloc :: bool
  content_malloc :: bool
  hash_bytes :: "u8 list"
  magnet :: magnet_io
  peers_malloc :: bool

text \<open>The two \<open>struct TorrentData\<close> are used without a test. The bytes of the hash are indeterminate until
  an \<open>xt\<close> parameter sets them. The name and the text of the hash are logged with \<open>%s\<close>: without them, NULL is passed,
  which is undefined.\<close>

definition torrent_new ::
  "(string \<Rightarrow> string option) \<Rightarrow> new_io \<Rightarrow> string \<Rightarrow> string \<Rightarrow> int \<Rightarrow> string option \<Rightarrow> torrent option option" where
  "torrent_new unescape io uri pth prt ip =
     (if \<not> t_malloc io then Some None
      else if \<not> uri_dup io then Some None
      else if \<not> path_dup io then Some None
      else do {
        md \<leftarrow> torrent_data_new (metadata_malloc io) pth;
        td \<leftarrow> torrent_data_new (content_malloc io) pth;
        (r, t) \<leftarrow> torrent_parse_magnet_uri unescape (magnet io) ip
          \<lparr>magnet_uri = uri, path = pth, t_port = of_int prt, t_name = None, t_info_hash = None, info_hash_hex = hash_bytes io,
           tracker_count = 0, trackers = replicate MAX_TRACKERS None, peers = None, peer_ips = [], peer_count = 0,
           assign_upload_slots_deadline = 0, torrent_metadata = md\<lparr>needed := 1\<rparr>, torrent_content = td\<lparr>needed := 0\<rparr>,
           peer_mem = Map.empty\<rparr>;
        if r = EXIT_FAILURE then map_option (\<lambda>_. None) (torrent_free (\<lambda>_. \<lparr>free_steps = 0, reset_now = 0, deadline_now = 0\<rparr>) (Some t))
        else if t_name t = None \<or> t_info_hash t = None then None
        else case hashmap_new (peers_malloc io) 500 of
          None \<Rightarrow> map_option (\<lambda>_. None) (torrent_free (\<lambda>_. \<lparr>free_steps = 0, reset_now = 0, deadline_now = 0\<rparr>) (Some t))
        | Some hm \<Rightarrow> Some (Some (t\<lparr>peers := Some hm\<rparr>))
      })"

subsection \<open>Hash texts\<close>

definition hex_digit :: "nat \<Rightarrow> char" where
  "hex_digit n = (if n < 10 then char_of (48 + n) else char_of (87 + n))"

definition hex_text :: "u8 list \<Rightarrow> string" where
  "hex_text bs = concat (map (\<lambda>b. [hex_digit (unat b div 16), hex_digit (unat b mod 16)]) bs)"

lemma of_char_hex_digit: "n < 16 \<Longrightarrow> of_char (hex_digit n) = (if n < 10 then 48 + n else 87 + n)"
  by (simp add: hex_digit_def of_char_of take_bit_eq_mod)

lemma hex_value_digit: "n < 16 \<Longrightarrow> hex_value (hex_digit n) = Some n"
  by (auto simp: hex_value_def of_char_hex_digit Let_def)

lemma hex_digit_not: "n < 16 \<Longrightarrow> c \<in> {CHR ''x'', CHR ''X'', CHR '':'', CHR ''&'', CHR ''#'', NUL} \<Longrightarrow> hex_digit n \<noteq> c"
  using of_char_hex_digit [of n] by (auto split: if_splits)

lemma byte_halves: "unat (b :: u8) div 16 < 16" "unat b mod 16 < 16"
proof -
  have "unat b < 256" using unsigned_less [of b, where ?'a = nat] by simp
  then show "unat b div 16 < 16" by simp
qed simp

lemma sscanf_hex:
  "sscanf_2hhx (hex_digit (unat (b :: u8) div 16) # hex_digit (unat b mod 16) # r) old = Some b"
proof -
  note d = byte_halves [of b]
  have "16 * (unat b div 16) + unat b mod 16 = unat b" by (rule mult_div_mod_eq)
  then have "of_nat (16 * (unat b div 16) + unat b mod 16) = b" by (simp only: of_nat_unat ucast_id)
  with d hex_digit_not [OF d(2)] show ?thesis by (auto simp: sscanf_2hhx_def hex_value_digit)
qed

lemma hex_text_drop: "i < length bs \<Longrightarrow> drop (2 * i) (hex_text bs)
    = hex_digit (unat (bs ! i) div 16) # hex_digit (unat (bs ! i) mod 16) # hex_text (drop (Suc i) bs)"
proof (induction bs arbitrary: i)
  case (Cons b bs)
  then show ?case by (cases i) (auto simp: hex_text_def)
qed simp

lemma length_hex_text: "length (hex_text bs) = 2 * length bs"
  by (induction bs) (auto simp: hex_text_def)

lemma hash_loop_run:
  assumes "length bs = n" "length hex = n" "i \<le> n"
  shows "hash_loop [i..<n] (hex_text bs) hex = Some (take i hex @ drop i bs)"
  using assms(2,3)
proof (induction "n - i" arbitrary: i hex)
  case 0
  then show ?case using assms(1) by simp
next
  case (Suc k)
  then have i: "i < n" by simp
  have "hash_loop [Suc i..<n] (hex_text bs) (hex[i := bs ! i]) = Some (take (Suc i) (hex[i := bs ! i]) @ drop (Suc i) bs)"
    using Suc i by (intro Suc.hyps) auto
  moreover have "take (Suc i) (hex[i := bs ! i]) @ drop (Suc i) bs = take i hex @ drop i bs"
    using i Suc.prems(1) assms(1) by (simp add: take_Suc_update Cons_nth_drop_Suc)
  ultimately show ?case
    using i Suc.prems assms(1) by (simp add: upt_conv_Cons hex_text_drop sscanf_hex length_hex_text del: upt_Suc)
qed

lemma strrchr_rest_last: "CHR '':'' \<notin> set r \<Longrightarrow> strrchr_rest (a @ CHR '':'' # r) (CHR '':'') = Some r"
proof -
  assume r: "CHR '':'' \<notin> set r"
  then have "strrchr_rest r (CHR '':'') = None" by (induction r) auto
  then show ?thesis by (induction a) auto
qed

lemma hex_text_free: "c \<in> {CHR ''x'', CHR ''X'', CHR '':'', CHR ''&'', CHR ''#'', NUL} \<Longrightarrow> c \<notin> set (hex_text bs)"
proof (induction bs)
  case (Cons b bs)
  from byte_halves [of b, THEN hex_digit_not] Cons show ?case by (fastforce simp: hex_text_def)
qed (simp add: hex_text_def)

subsection \<open>Reading a link back\<close>

lemma parse_no_path:
  assumes "find_fragment m 0 = Some (None, m)" "find_query m 0 = Some (Some qp, m1)" "is_relative m1 0 = Some False"
    "parse_scheme m1 0 = Some (Some u, m2)" "char_at m2 u = Some c" "c \<noteq> NUL" "find_path m2 u = Some (None, m2)"
    "\<And>url. parse_credentials m2 u url = Some (0, u, url, m2)" "\<And>url. parse_port m2 u url = Some (0, url, m2)"
  shows "\<exists>url. yuarel_parse (Some m) = Some (0, url, m2) \<and> y_query url = Some qp"
  using assms by (simp add: yuarel_parse_def parse_authority_def)

lemma magnet_url:
  assumes "free_of {CHR ''#'', NUL} q"
  shows "\<exists>url. yuarel_parse (Some (''http://blank.com?'' @ q @ NUL # r)) = Some (0, url, (''http'' @ NUL # ''//blank.com'' @ [NUL]) @ q @ NUL # r)
    \<and> y_query url = Some 17"
proof -
  let ?m = "''http://blank.com?'' @ q @ NUL # r"
  let ?m1 = "''http://blank.com'' @ NUL # q @ NUL # r"
  let ?m2 = "''http'' @ NUL # ''//blank.com'' @ NUL # q @ NUL # r"
  have f: "find_fragment ?m 0 = Some (None, ?m)"
    unfolding find_fragment_def find_and_terminate_def
    by (subst strchr_miss [of _ "[]" "''http://blank.com?'' @ q" r]) (use assms in auto)
  have q: "find_query ?m 0 = Some (Some 17, ?m1)"
    unfolding find_query_def find_and_terminate_def
    by (subst strchr_find [of _ "[]" "''http://blank.com''" "CHR ''?''" "q @ NUL # r"]) (auto simp: set_char_def)
  have s: "parse_scheme ?m1 0 = Some (Some 7, ?m2)"
    unfolding parse_scheme_def
    by (subst strchr_find [of _ "[]" "''http''" "CHR '':''" "''//blank.com'' @ NUL # q @ NUL # r"]) (auto simp: char_at_def set_char_def)
  have miss: "strchr ?m2 7 c = Some None" if "c \<in> {CHR ''/'', CHR ''@'', CHR '':''}" for c
    by (rule strchr_miss [of _ "''http'' @ NUL # ''//''" "''blank.com''" "q @ NUL # r"]) (use that in auto)
  have p: "find_path ?m2 7 = Some (None, ?m2)" "parse_credentials ?m2 7 url = Some (0, 7, url, ?m2)"
    "parse_port ?m2 7 url = Some (0, url, ?m2)" for url
    using miss by (simp_all add: find_path_def find_and_terminate_def parse_credentials_def parse_port_def)
  have c: "char_at ?m2 7 = Some (CHR ''b'')" "is_relative ?m1 0 = Some False" by (simp_all add: char_at_def is_relative_def)
  from parse_no_path [OF f q c(2) s c(1) _ p] show ?thesis by simp
qed

text \<open>The loop over the parameters, on the texts themselves.\<close>

definition link_param ::
  "(string \<Rightarrow> string option) \<Rightarrow> magnet_io \<Rightarrow> string option \<Rightarrow> nat \<Rightarrow> string \<times> string \<Rightarrow> torrent \<Rightarrow> (status \<times> torrent) option" where
  "link_param unescape io ip i kv t =
     (if fst kv = ''dn'' then if param_dup io i then Some (EXIT_SUCCESS, t\<lparr>t_name := Some (snd kv)\<rparr>) else Some (EXIT_FAILURE, t\<lparr>t_name := None\<rparr>)
      else if fst kv = ''xt'' then
        if param_dup io i then do {
          h \<leftarrow> strrchr_rest (snd kv) (CHR '':'');
          hex \<leftarrow> hash_loop [0..<20] h (info_hash_hex t);
          Some (EXIT_SUCCESS, t\<lparr>t_info_hash := Some (snd kv), info_hash_hex := hex\<rparr>)
        }
        else Some (EXIT_FAILURE, t\<lparr>t_info_hash := None\<rparr>)
      else if fst kv = ''tr'' then torrent_add_tracker unescape (param_tracker io i) t (snd kv) ip
      else Some (EXIT_SUCCESS, t))"

primrec link_loop ::
  "(string \<Rightarrow> string option) \<Rightarrow> magnet_io \<Rightarrow> string option \<Rightarrow> (string \<times> string) list \<Rightarrow> nat \<Rightarrow> torrent \<Rightarrow> (status \<times> torrent) option" where
  "link_loop unescape io ip kvs 0 t = Some (EXIT_SUCCESS, t)"
| "link_loop unescape io ip kvs (Suc p) t = do {
     (r, t) \<leftarrow> link_param unescape io ip p (kvs ! p) t;
     if r = EXIT_FAILURE then Some (EXIT_FAILURE, t) else link_loop unescape io ip kvs p t
   }"

lemma params_loop_link:
  assumes "\<forall>i < length kvs. \<exists>kp vp. ps ! i = Some (kp, Some vp) \<and> text_at m kp = Some (fst (kvs ! i)) \<and> text_at m vp = Some (snd (kvs ! i))"
    "n \<le> length kvs" "length kvs \<le> length ps"
  shows "params_loop unescape io ip m ps n t = link_loop unescape io ip kvs n t"
  using assms(2)
proof (induction n arbitrary: t)
  case (Suc n)
  then obtain kp vp where "ps ! n = Some (kp, Some vp)" "text_at m kp = Some (fst (kvs ! n))" "text_at m vp = Some (snd (kvs ! n))"
    using assms(1) Suc_le_eq by blast
  then have "magnet_param unescape io ip m n (kp, Some vp) t = link_param unescape io ip n (kvs ! n) t" for t
    by (simp add: magnet_param_def link_param_def)
  then show ?case using Suc assms(3) \<open>ps ! n = Some (kp, Some vp)\<close> by (simp add: split_def cong: if_cong)
qed simp

lemma parse_magnet_link:
  assumes kvs: "kvs \<noteq> []" "length kvs \<le> 10" "\<forall>kv \<in> set kvs. plain_param (CHR ''&'') kv" "free_of {CHR ''#''} (query_text (CHR ''&'') kvs)"
    and uri: "magnet_uri t = ''magnet:?'' @ query_text (CHR ''&'') kvs"
  shows "torrent_parse_magnet_uri unescape io ip t = link_loop unescape io ip kvs (length kvs) t"
proof -
  let ?q = "query_text (CHR ''&'') kvs"
  define r where "r = replicate 7 NUL @ [stack_char io]"
  define pre where "pre = ''http'' @ NUL # ''//blank.com'' @ [NUL]"
  have "free_of {NUL} ?q" using kvs(1,3)
    by (induction "CHR ''&''" kvs rule: query_text.induct) (auto simp: plain_param_def free_of_def)
  with kvs(4) have "free_of {CHR ''#'', NUL} ?q" by (auto simp: free_of_def)
  from magnet_url [OF this, of r, folded pre_def] obtain url where url: "yuarel_parse (Some (''http://blank.com?'' @ ?q @ NUL # r))
      = Some (0, url, pre @ ?q @ NUL # r)" "y_query url = Some (length pre)" by (auto simp: pre_def)
  have "replicate 8 NUL = NUL # replicate 7 NUL" by (simp add: numeral_eq_Suc)
  then have u: "url_string io (magnet_uri t) = ''http://blank.com?'' @ ?q @ NUL # r"
    unfolding url_string_def uri r_def by simp
  obtain m ps where ps: "yuarel_parse_query (pre @ ?q @ NUL # r) (Some (length pre)) (CHR ''&'') (replicate 10 None) 10
      = Some (int (length kvs), m, ps)" "length ps = 10"
    "\<forall>i < length kvs. \<exists>kp vp. ps ! i = Some (kp, Some vp) \<and> text_at m kp = Some (fst (kvs ! i)) \<and> text_at m vp = Some (snd (kvs ! i))"
    using yuarel_query_run [OF kvs(1,3), of "replicate 10 None" 10 pre r] kvs(2) by auto
  have "take 7 (magnet_uri t) = ''magnet:''" by (simp add: uri)
  then have "torrent_parse_magnet_uri unescape io ip t = params_loop unescape io ip m ps (length kvs) t"
    unfolding torrent_parse_magnet_uri_def u using url ps(1) by simp
  also have "\<dots> = link_loop unescape io ip kvs (length kvs) t"
    by (rule params_loop_link [OF ps(3)]) (use kvs(2) ps(2) in auto)
  finally show ?thesis .
qed

subsection \<open>The link of a torrent\<close>

definition link_params :: "u8 list \<Rightarrow> string \<Rightarrow> string list \<Rightarrow> (string \<times> string) list" where
  "link_params hash name us = (''xt'', ''urn:btih:'' @ hex_text hash) # (''dn'', name) # map (\<lambda>u. (''tr'', u)) us"

definition magnet_link :: "u8 list \<Rightarrow> string \<Rightarrow> string list \<Rightarrow> string" where
  "magnet_link hash name us = ''magnet:?'' @ query_text (CHR ''&'') (link_params hash name us)"

lemma link_trackers:
  assumes "\<forall>i. \<forall>u \<in> set us. tracker_new unescape (param_tracker io i) u ip = Some (Some (trk u))"
    and "n \<le> length us" "trackers t = map Some xs @ replicate (5 - length xs) None" "tracker_count t = length xs" "length xs + n \<le> 5"
  shows "link_loop unescape io ip (link_params hash name us) (2 + n) t
    = link_loop unescape io ip (link_params hash name us) 2
        (t\<lparr>trackers := map Some (xs @ map trk (rev (take n us))) @ replicate (5 - length xs - n) None, tracker_count := length xs + n\<rparr>)"
  using assms(2-)
proof (induction n arbitrary: t xs)
  case 0
  then have "t\<lparr>trackers := map Some xs @ replicate (5 - length xs) None, tracker_count := length xs\<rparr> = t" by (cases t) simp
  then show ?case by simp
next
  case (Suc n)
  let ?u = "us ! n"
  have u: "link_params hash name us ! (2 + n) = (''tr'', ?u)" "?u \<in> set us" using Suc.prems(1) by (simp_all add: link_params_def)
  let ?xs = "xs @ [trk ?u]"
  let ?t = "t\<lparr>trackers := map Some ?xs @ replicate (5 - length ?xs) None, tracker_count := length ?xs\<rparr>"
  have r: "replicate (5 - length xs) (None :: tracker option) = None # replicate (5 - length ?xs) None"
    using Suc.prems(4) by (simp add: replicate_Suc [symmetric] Suc_diff_le del: replicate_Suc)
  have "torrent_add_tracker unescape (param_tracker io (2 + n)) t ?u ip = Some (EXIT_SUCCESS, ?t)"
    using assms(1) u(2) Suc.prems r by (simp add: torrent_add_tracker_def list_update_append)
  moreover have "link_loop unescape io ip (link_params hash name us) (2 + n) ?t
    = link_loop unescape io ip (link_params hash name us) 2
        (?t\<lparr>trackers := map Some (?xs @ map trk (rev (take n us))) @ replicate (5 - length ?xs - n) None, tracker_count := length ?xs + n\<rparr>)"
    using Suc.prems by (intro Suc.IH) auto
  ultimately show ?case using u Suc.prems(1)
    by (simp add: link_param_def take_Suc_conv_app_nth)
qed

text \<open>
  C12: a magnet link with an info hash in hexadecimal, a name and at most five tracker addresses is read
  back completely: the new torrent has the twenty bytes of the hash, the name and one tracker for each
  address, in reverse order; its table of peers is empty and well formed, the metadata is wanted and
  the content is not yet. The characters of the parts must not be separators, and \<open>unescape\<close> must yield
  addresses for which a tracker can be created.
\<close>

theorem magnet_link_roundtrip:
  assumes hash: "length hash = 20" and us: "length us \<le> 5"
    and plain: "free_of {CHR ''&'', CHR ''#'', NUL} name" "\<forall>u \<in> set us. free_of {CHR ''&'', CHR ''#'', NUL} u"
    and trk: "\<forall>i. \<forall>u \<in> set us. tracker_new unescape (param_tracker (magnet io) i) u ip = Some (Some (trk u))"
    and ok: "t_malloc io" "uri_dup io" "path_dup io" "metadata_malloc io" "content_malloc io" "peers_malloc io"
      "\<forall>i. param_dup (magnet io) i" "length (hash_bytes io) = 20"
  shows "\<exists>t. torrent_new unescape io (magnet_link hash name us) pth prt ip = Some (Some t) \<and> torrent_ok t \<and> peer_ips t = []
    \<and> info_hash_hex t = hash \<and> t_name t = Some name \<and> t_port t = of_int prt \<and> tracker_count t = length us
    \<and> trackers t = map (\<lambda>u. Some (trk u)) (rev us) @ replicate (5 - length us) None
    \<and> needed (torrent_metadata t) = 1 \<and> needed (torrent_content t) = 0"
proof -
  let ?kvs = "link_params hash name us"
  obtain td where td: "torrent_data_new True pth = Some td" by (simp add: torrent_data_new_def)
  define t0 where "t0 = \<lparr>magnet_uri = magnet_link hash name us, path = pth, t_port = of_int prt, t_name = None, t_info_hash = None,
    info_hash_hex = hash_bytes io, tracker_count = 0, trackers = replicate MAX_TRACKERS None, peers = None, peer_ips = [], peer_count = 0,
    assign_upload_slots_deadline = 0, torrent_metadata = td\<lparr>needed := 1\<rparr>, torrent_content = td\<lparr>needed := 0\<rparr>, peer_mem = Map.empty\<rparr>"
  define t1 where "t1 = t0\<lparr>trackers := map Some (map trk (rev us)) @ replicate (5 - length us) None, tracker_count := length us,
    t_name := Some name, t_info_hash := Some (''urn:btih:'' @ hex_text hash), info_hash_hex := hash\<rparr>"
  have free: "c \<notin> set (hex_text hash)" if "c \<in> {CHR ''&'', CHR ''#'', CHR '':'', NUL}" for c
    using hex_text_free [of c hash] that by auto
  have p: "\<forall>kv \<in> set ?kvs. plain_param (CHR ''&'') kv \<and> free_of {CHR ''#''} (fst kv) \<and> free_of {CHR ''#''} (snd kv)"
    using plain free by (auto simp: link_params_def plain_param_def free_of_def)
  have q: "free_of {CHR ''#''} (query_text (CHR ''&'') kvs)" if "\<forall>kv \<in> set kvs. free_of {CHR ''#''} (fst kv) \<and> free_of {CHR ''#''} (snd kv)" for kvs
    using that by (induction "CHR ''&''" kvs rule: query_text.induct) auto
  have "torrent_parse_magnet_uri unescape (magnet io) ip t0 = link_loop unescape (magnet io) ip ?kvs (length ?kvs) t0"
    using p us q [of ?kvs] by (intro parse_magnet_link) (auto simp: t0_def magnet_link_def link_params_def)
  also have "\<dots> = link_loop unescape (magnet io) ip ?kvs 2
      (t0\<lparr>trackers := map Some ([] @ map trk (rev (take (length us) us))) @ replicate (5 - length ([] :: tracker list) - length us) None,
        tracker_count := length ([] :: tracker list) + length us\<rparr>)"
    using link_trackers [OF trk, of "length us" t0 "[]" hash name] us by (simp add: link_params_def t0_def)
  also have "\<dots> = Some (EXIT_SUCCESS, t1)"
    using hash ok(7,8) free hash_loop_run [OF hash, of "hash_bytes io" 0] strrchr_rest_last [of "hex_text hash" "''urn:btih''"]
    by (simp add: numeral_2_eq_2 link_param_def link_params_def t1_def t0_def)
  finally have parse: "torrent_parse_magnet_uri unescape (magnet io) ip t0 = Some (EXIT_SUCCESS, t1)" .
  obtain hm :: "addr hash_map" where hm: "hashmap_new True 500 = Some hm" "hm_wf hm" "hm_lookup hm = Map.empty"
    using hashmap_new_run [of 500] by auto
  let ?t = "t1\<lparr>peers := Some hm\<rparr>"
  have "torrent_new unescape io (magnet_link hash name us) pth prt ip = Some (Some ?t)"
    using ok td parse [unfolded t0_def] hm(1) by (simp add: torrent_new_def) (simp add: t1_def)
  moreover have "peer_addr ?t = Map.empty" using hm(3) by (simp add: peer_addr_def fun_eq_iff)
  moreover from this have "torrent_ok ?t" using hm(2) by (simp add: torrent_ok_def t1_def t0_def)
  ultimately show ?thesis by (auto simp: t1_def t0_def comp_def)
qed

text \<open>The instance for the witness: a decoder that leaves the text as it is.\<close>

definition demo_new :: new_io where
  "demo_new = \<lparr>t_malloc = True, uri_dup = True, path_dup = True, metadata_malloc = True, content_malloc = True, hash_bytes = replicate 20 0,
     magnet = \<lparr>stack_char = CHR ''x'', param_dup = \<lambda>_. True, param_tracker = \<lambda>_. \<lparr>new_malloc = True, dup_url = True, dup_ip = True, dup_host = True\<rparr>\<rparr>,
     peers_malloc = True\<rparr>"

lemma demo_tracker:
  "\<exists>tr. tracker_new Some \<lparr>new_malloc = True, dup_url = True, dup_ip = True, dup_host = True\<rparr> ''udp://t:80/a'' (Some ''10.0.0.1'') = Some (Some tr)"
proof -
  have "(case tracker_new Some \<lparr>new_malloc = True, dup_url = True, dup_ip = True, dup_host = True\<rparr> ''udp://t:80/a'' (Some ''10.0.0.1'') of
      Some (Some tr) \<Rightarrow> True | _ \<Rightarrow> False)"
    by code_simp
  then show ?thesis by (auto split: option.splits)
qed

theorem magnet_link_roundtrip_witness:
  "\<exists>t. torrent_new Some demo_new (magnet_link (replicate 20 7) ''n'' [''udp://t:80/a'']) ''/tmp'' 5000 (Some ''10.0.0.1'') = Some (Some t)
     \<and> torrent_ok t \<and> info_hash_hex t = replicate 20 7 \<and> t_name t = Some ''n'' \<and> tracker_count t = 1"
proof -
  obtain tr where tr: "tracker_new Some \<lparr>new_malloc = True, dup_url = True, dup_ip = True, dup_host = True\<rparr> ''udp://t:80/a'' (Some ''10.0.0.1'') = Some (Some tr)"
    using demo_tracker by blast
  then have t: "\<forall>i. \<forall>u \<in> set [''udp://t:80/a'']. tracker_new Some (param_tracker (magnet demo_new) i) u (Some ''10.0.0.1'') = Some (Some ((\<lambda>_. tr) u))"
    by (simp add: demo_new_def)
  have "\<exists>t. torrent_new Some demo_new (magnet_link (replicate 20 7) ''n'' [''udp://t:80/a'']) ''/tmp'' 5000 (Some ''10.0.0.1'') = Some (Some t) \<and> torrent_ok t
    \<and> peer_ips t = [] \<and> info_hash_hex t = replicate 20 7 \<and> t_name t = Some ''n'' \<and> t_port t = of_int 5000 \<and> tracker_count t = length [''udp://t:80/a'']
    \<and> trackers t = map (\<lambda>u. Some ((\<lambda>_. tr) u)) (rev [''udp://t:80/a'']) @ replicate (5 - length [''udp://t:80/a'']) None
    \<and> needed (torrent_metadata t) = 1 \<and> needed (torrent_content t) = 0"
    by (rule magnet_link_roundtrip [OF _ _ _ _ t]) (simp_all add: demo_new_def)
  then show ?thesis by auto
qed

subsection \<open>The type of a new torrent\<close>

text \<open>The shape the rest of the program relies on: five slots, filled from the front, and a hash of twenty bytes.\<close>

definition torrent_shape :: "torrent \<Rightarrow> bool" where
  "torrent_shape t \<longleftrightarrow> length (trackers t) = MAX_TRACKERS \<and> tracker_count t \<le> MAX_TRACKERS
     \<and> (\<forall>i < MAX_TRACKERS. trackers t ! i \<noteq> None \<longleftrightarrow> i < tracker_count t) \<and> length (info_hash_hex t) = 20"

lemma hash_loop_length: "hash_loop is s hex = Some hex' \<Longrightarrow> length hex' = length hex"
  by (induction "is" arbitrary: hex) (auto split: if_splits bind_splits)

text \<open>What a parameter does not touch.\<close>

definition same_peers :: "torrent \<Rightarrow> torrent \<Rightarrow> bool" where
  "same_peers t t' \<longleftrightarrow> peer_ips t' = peer_ips t \<and> peer_count t' = peer_count t \<and> peer_mem t' = peer_mem t
     \<and> torrent_metadata t' = torrent_metadata t \<and> torrent_content t' = torrent_content t"

lemma add_tracker_shape:
  assumes "torrent_add_tracker unescape io t u ip = Some (r, t')" "torrent_shape t"
  shows "torrent_shape t' \<and> same_peers t t'"
  using assms
  by (auto simp: torrent_add_tracker_def torrent_shape_def same_peers_def nth_list_update split: if_splits bind_splits option.splits)

lemma magnet_param_shape:
  assumes "magnet_param unescape io ip m i kv t = Some (r, t')" "torrent_shape t"
  shows "torrent_shape t' \<and> same_peers t t'"
proof -
  have "torrent_shape (t\<lparr>t_name := x\<rparr>)" "torrent_shape (t\<lparr>t_info_hash := y\<rparr>)" for x y
    using assms(2) by (simp_all add: torrent_shape_def)
  moreover have "torrent_shape (t\<lparr>t_info_hash := y, info_hash_hex := hex\<rparr>)" if "length hex = length (info_hash_hex t)" for y hex
    using assms(2) that by (simp add: torrent_shape_def)
  ultimately show ?thesis using assms
    by (auto simp: magnet_param_def same_peers_def hash_loop_length split: if_splits bind_splits
        dest!: add_tracker_shape [unfolded same_peers_def])
qed

lemma params_loop_shape:
  assumes "params_loop unescape io ip m ps n t = Some (r, t')" "torrent_shape t"
  shows "torrent_shape t' \<and> same_peers t t'"
  using assms
proof (induction n arbitrary: t)
  case (Suc n)
  then show ?case
    by (auto simp: same_peers_def split: if_splits bind_splits dest!: magnet_param_shape [unfolded same_peers_def])
qed (simp add: same_peers_def)

lemma parse_magnet_shape:
  assumes "torrent_parse_magnet_uri unescape io ip t = Some (r, t')" "torrent_shape t"
  shows "torrent_shape t' \<and> same_peers t t'"
  using assms by (auto simp: torrent_parse_magnet_uri_def same_peers_def split: if_splits bind_splits
      dest!: params_loop_shape [unfolded same_peers_def])

lemma torrent_new_shape:
  assumes new: "torrent_new unescape io uri pth prt ip = Some (Some t)" and hash: "length (hash_bytes io) = 20"
  shows "torrent_shape t \<and> torrent_ok t \<and> peer_ips t = [] \<and> peer_mem t = Map.empty \<and> needed (torrent_metadata t) = 1 \<and> needed (torrent_content t) = 0"
proof -
  obtain hm :: "addr hash_map" where hm: "hashmap_new True 500 = Some hm" "hm_wf hm" "hm_lookup hm = Map.empty"
    using hashmap_new_run [of 500] by auto
  have fail: "map_option (\<lambda>_. None) x \<noteq> Some (Some t)" for x :: "(torrent option \<times> (addr \<rightharpoonup> peer) \<times> int list \<times> u8 list list) option" by (cases x) auto
  from new obtain md td t0 r t1 where t0: "torrent_parse_magnet_uri unescape (magnet io) ip t0 = Some (r, t1)"
    "t0 = \<lparr>magnet_uri = uri, path = pth, t_port = of_int prt, t_name = None, t_info_hash = None, info_hash_hex = hash_bytes io,
       tracker_count = 0, trackers = replicate MAX_TRACKERS None, peers = None, peer_ips = [], peer_count = 0,
       assign_upload_slots_deadline = 0, torrent_metadata = md\<lparr>needed := 1\<rparr>, torrent_content = td\<lparr>needed := 0\<rparr>, peer_mem = Map.empty\<rparr>"
    "t = t1\<lparr>peers := Some hm\<rparr>"
    using hm(1) fail by (auto simp: torrent_new_def hashmap_new_def split: if_splits bind_splits)
  have "torrent_shape t0" using hash by (simp add: t0(2) torrent_shape_def)
  with parse_magnet_shape [OF t0(1)] have s: "torrent_shape t1" "same_peers t0 t1" by auto
  have "peer_addr t = Map.empty" using hm(3) by (simp add: t0(3) peer_addr_def fun_eq_iff)
  moreover from this s(2) hm(2) have "torrent_ok t" by (simp add: torrent_ok_def t0(2,3) same_peers_def)
  ultimately show ?thesis using s by (auto simp: t0(2,3) torrent_shape_def same_peers_def)
qed

text \<open>
  C34: every torrent that is created is well typed, whatever the link says: five slots for
  trackers, of which exactly the first \<open>tracker_count\<close> are in use, a hash of twenty bytes, and an empty
  table of peers that is well formed; of the two downloads only the metadata is wanted.
\<close>

theorem torrent_new_well_typed:
  assumes new: "torrent_new unescape io uri pth prt ip = Some (Some t)" and hash: "length (hash_bytes io) = 20"
  shows "torrent_shape t \<and> torrent_ok t \<and> peer_ips t = [] \<and> needed (torrent_metadata t) = 1 \<and> needed (torrent_content t) = 0"
  using torrent_new_shape [OF assms] by simp

abbreviation (input) demo_link :: string where
  "demo_link \<equiv> ''magnet:?dn=x&xt=urn:btih:0707070707070707070707070707070707070707''"

lemma demo_named: "\<exists>t. torrent_new Some demo_new demo_link ''/tmp'' 5000 (Some ''10.0.0.1'') = Some (Some t)"
proof -
  have "(case torrent_new Some demo_new demo_link ''/tmp'' 5000 (Some ''10.0.0.1'') of Some (Some t) \<Rightarrow> True | _ \<Rightarrow> False)"
    by code_simp
  then show ?thesis by (auto split: option.splits)
qed

theorem torrent_new_well_typed_witness:
  "\<exists>t. torrent_new Some demo_new demo_link ''/tmp'' 5000 (Some ''10.0.0.1'') = Some (Some t) \<and> torrent_shape t \<and> torrent_ok t"
proof -
  obtain t where t: "torrent_new Some demo_new demo_link ''/tmp'' 5000 (Some ''10.0.0.1'') = Some (Some t)" using demo_named by blast
  have "length (hash_bytes demo_new) = 20" by (simp add: demo_new_def)
  from torrent_new_well_typed [OF t this] t show ?thesis by blast
qed

subsection \<open>Releasing\<close>

lemma free_peers_run:
  assumes "distinct as" "\<forall>a \<in> set as. \<exists>p. mem a = Some p \<and> peer_free (d a) (Some p) = Some None"
  shows "free_peers d as mem = Some (\<lambda>a. if a \<in> set as then None else mem a)"
  using assms
proof (induction as arbitrary: mem)
  case (Cons a as)
  have "free_peers d as (mem(a := None)) = Some (\<lambda>b. if b \<in> set as then None else (mem(a := None)) b)"
    using Cons.prems by (intro Cons.IH) auto
  with Cons.prems(2) show ?case by (auto simp: fun_eq_iff)
qed simp

lemma distinct_concat_nth:
  "(\<And>i. i < length bs \<Longrightarrow> distinct (bs ! i)) \<Longrightarrow> (\<And>i j. i < j \<Longrightarrow> j < length bs \<Longrightarrow> set (bs ! i) \<inter> set (bs ! j) = {})
   \<Longrightarrow> distinct (concat bs)"
proof (induction bs)
  case (Cons b bs)
  have "distinct (concat bs)"
  proof (rule Cons.IH)
    show "distinct (bs ! i)" if "i < length bs" for i using Cons.prems(1) [of "Suc i"] that by simp
    show "set (bs ! i) \<inter> set (bs ! j) = {}" if "i < j" "j < length bs" for i j using Cons.prems(2) [of "Suc i" "Suc j"] that by simp
  qed
  moreover have "set b \<inter> set c = {}" if "c \<in> set bs" for c
  proof -
    from that obtain j where "j < length bs" "c = bs ! j" by (auto simp: in_set_conv_nth)
    then show ?thesis using Cons.prems(2) [of 0 "Suc j"] by simp
  qed
  moreover have "distinct b" using Cons.prems(1) [of 0] by simp
  ultimately show ?case by auto
qed simp

lemma hm_entry:
  assumes "hm_wf hm" "i < length (buckets hm)" "(k, v) \<in> set (buckets hm ! i)"
  shows "hm_lookup hm k = Some v" "bucket_index hm k = Some i"
proof -
  show b: "bucket_index hm k = Some i" using assms unfolding hm_wf_def by blast
  have "distinct (map fst (buckets hm ! i))" using assms unfolding hm_wf_def by blast
  with assms(3) b show "hm_lookup hm k = Some v" by (simp add: hm_lookup_def)
qed

lemma hm_values_addresses:
  assumes wf: "hm_wf hm" and inj: "\<And>k l v. hm_lookup hm k = Some v \<Longrightarrow> hm_lookup hm l = Some v \<Longrightarrow> k = l"
  shows "distinct (map snd (concat (buckets hm)))" "set (map snd (concat (buckets hm))) = ran (hm_lookup hm)"
proof -
  have "distinct (map snd b)" if b: "b = buckets hm ! i" "i < length (buckets hm)" for b i
  proof -
    have "distinct (map fst b)" using wf b by (auto simp: hm_wf_def)
    moreover have "inj_on snd (set b)"
      using hm_entry(1) [OF wf b(2)] inj b(1) by (intro inj_onI) (metis prod.collapse)
    ultimately show ?thesis by (simp add: distinct_map)
  qed
  moreover have "set (map snd (buckets hm ! i)) \<inter> set (map snd (buckets hm ! j)) = {}" if ij: "i < j" "j < length (buckets hm)" for i j
  proof -
    have False if v: "(k, v) \<in> set (buckets hm ! i)" "(l, v) \<in> set (buckets hm ! j)" for k l v
    proof -
      have i: "i < length (buckets hm)" using ij by simp
      have "k = l" using hm_entry(1) [OF wf i v(1)] hm_entry(1) [OF wf ij(2) v(2)] by (rule inj)
      then show False using hm_entry(2) [OF wf i v(1)] hm_entry(2) [OF wf ij(2) v(2)] ij(1) by simp
    qed
    then show ?thesis by auto
  qed
  ultimately show "distinct (map snd (concat (buckets hm)))"
    unfolding map_concat by (intro distinct_concat_nth) auto
  show "set (map snd (concat (buckets hm))) = ran (hm_lookup hm)"
  proof
    show "set (map snd (concat (buckets hm))) \<subseteq> ran (hm_lookup hm)"
      using hm_entry(1) [OF wf] by (fastforce simp: in_set_conv_nth ran_def)
    show "ran (hm_lookup hm) \<subseteq> set (map snd (concat (buckets hm)))"
      by (force simp: ran_def hm_lookup_def dest: bucket_index_less map_of_SomeD split: bind_splits)
  qed
qed

lemma drain_addresses:
  assumes "torrent_ok t" "peers t = Some hm"
  shows "distinct (fst (hashmap_drain hm))" "set (fst (hashmap_drain hm)) = ran (peer_addr t)"
proof -
  have v: "peer_addr t = hm_lookup hm" "hm_wf hm" using assms by (auto simp: peer_addr_def torrent_ok_def fun_eq_iff)
  have d: "distinct (map snd (concat (buckets hm)))" "set (map snd (concat (buckets hm))) = ran (hm_lookup hm)"
    using hm_values_addresses [OF v(2)] torrent_ok_inj [OF assms(1)] unfolding v(1) by blast+
  have m: "mset (fst (hashmap_drain hm)) = mset (map snd (concat (buckets hm)))"
    using hashmap_drain_run [of hm] by (simp add: hm_values_def)
  show "distinct (fst (hashmap_drain hm))" using d(1) mset_eq_imp_distinct_iff [OF m] by simp
  show "set (fst (hashmap_drain hm)) = ran (peer_addr t)" using d(2) mset_eq_setD [OF m] v(1) by simp
qed

text \<open>
  C35: releasing a torrent with a well-formed table frees every peer of the table exactly once and no
  other object, closes the sockets its trackers still hold, and returns NULL.
\<close>

theorem torrent_free_releases_peers:
  assumes ok: "torrent_ok t"
    and free: "\<forall>ip a p. peer_addr t ip = Some a \<longrightarrow> peer_mem t a = Some p \<longrightarrow> peer_free (d a) (Some p) = Some None"
  shows "\<exists>pieces. torrent_free d (Some t) = Some (None, \<lambda>a. if a \<in> ran (peer_addr t) then None else peer_mem t a,
      [tracker_socket tr. Some tr \<leftarrow> take (tracker_count t) (trackers t), tracker_socket tr \<noteq> 0], pieces)"
proof -
  from ok obtain hm where hm: "peers t = Some hm" by (auto simp: torrent_ok_def)
  note d = drain_addresses [OF ok hm]
  have "\<exists>p. peer_mem t a = Some p \<and> peer_free (d a) (Some p) = Some None" if "a \<in> ran (peer_addr t)" for a
  proof -
    from that obtain ip where ip: "peer_addr t ip = Some a" by (auto simp: ran_def)
    from torrent_ok_entry [OF ok ip] obtain p where "peer_mem t a = Some p" by blast
    with free ip show ?thesis by blast
  qed
  with free_peers_run [OF d(1), of "peer_mem t" d] d(2)
  have f: "free_peers d (fst (hashmap_drain hm)) (peer_mem t) = Some (\<lambda>a. if a \<in> ran (peer_addr t) then None else peer_mem t a)" by simp
  have s: "concat (map (\<lambda>tr. snd (tracker_free tr)) trs) = [tracker_socket tr. Some tr \<leftarrow> trs, tracker_socket tr \<noteq> 0]" for trs
    by (induction trs) (auto simp: tracker_free_def split: option.splits)
  show ?thesis unfolding torrent_free_def using hm f s by simp
qed

theorem torrent_free_releases_peers_witness:
  "\<exists>hm pieces. demo_table hm \<and> torrent_free (\<lambda>_. demo_disconnect) (Some (demo_torrent hm)) = Some (None, [8 \<mapsto> demo_peer], [], pieces)"
proof -
  obtain hm where hm: "demo_table hm" using demo_table_exists by blast
  have mem: "peer_mem (demo_torrent hm) = [7 \<mapsto> demo_peer, 8 \<mapsto> demo_peer]" "tracker_count (demo_torrent hm) = 0"
    by (simp_all add: demo_torrent_def)
  have f: "\<forall>ip a p. peer_addr (demo_torrent hm) ip = Some a \<longrightarrow> peer_mem (demo_torrent hm) a = Some p \<longrightarrow> peer_free demo_disconnect (Some p) = Some None"
    by (auto simp: demo_view(1) [OF hm] mem demo_peer_free split: if_splits)
  obtain pieces where r: "torrent_free (\<lambda>_. demo_disconnect) (Some (demo_torrent hm))
      = Some (None, \<lambda>a. if a \<in> ran (peer_addr (demo_torrent hm)) then None else peer_mem (demo_torrent hm) a, [], pieces)"
    using torrent_free_releases_peers [OF demo_view(2) [OF hm] f] by (auto simp: mem)
  have "(\<lambda>a. if a \<in> ran (peer_addr (demo_torrent hm)) then None else peer_mem (demo_torrent hm) a) = [8 \<mapsto> demo_peer]"
    by (auto simp: demo_view(1) [OF hm] mem ran_def)
  with r hm show ?thesis by auto
qed

end
