(* ===== verification/Uvg_Main.thy ===== *)
theory Uvg_Main
  imports Uvg_Magnet Uvg_Metadata Uvg_Ipify
begin

text \<open>
  The command line (\<^verbatim>\<open>src/src/args/args.c\<close>) and the program around the torrent (\<^verbatim>\<open>src/src/main.c\<close>): set-up, the
  loop of the main thread, and the clean-up. The jobs of the pool run between the iterations; each
  iteration is a function of the state it finds.
\<close>

subsection \<open>The command line\<close>

abbreviation (input) MAX_ARG_LENGTH :: nat where "MAX_ARG_LENGTH \<equiv> 512"

record options =
  opt_magnet_uri :: string
  opt_path :: string
  opt_port :: u16
  opt_debug :: int

definition set_default_options :: options where
  "set_default_options = \<lparr>opt_magnet_uri = replicate MAX_ARG_LENGTH NUL, opt_path = replicate MAX_ARG_LENGTH NUL,
     opt_port = 5000, opt_debug = 0\<rparr>"

text \<open>\<open>strncpy\<close> of a text into an array of 512 characters: a longer text is cut off and not terminated.\<close>

definition strncpy_arg :: "string \<Rightarrow> string" where
  "strncpy_arg s = take MAX_ARG_LENGTH (s @ replicate MAX_ARG_LENGTH NUL)"

text \<open>One option with its argument; the first component is false when the program prints its help and
  exits. The case of the port has no \<open>break\<close>.\<close>

definition switch_options :: "char \<times> string \<Rightarrow> options \<Rightarrow> (bool \<times> options) option" where
  "switch_options a o1 =
     (if fst a = CHR ''h'' then Some (False, o1)
      else if fst a = CHR ''m'' then Some (True, o1\<lparr>opt_magnet_uri := strncpy_arg (snd a)\<rparr>)
      else if fst a = CHR ''p'' then Some (True, o1\<lparr>opt_path := strncpy_arg (snd a)\<rparr>)
      else if fst a = CHR ''o'' then do {
        n \<leftarrow> atoi (snd a @ [NUL]) 0;
        Some (True, o1\<lparr>opt_port := of_int n, opt_debug := 1\<rparr>)
      }
      else if fst a = CHR ''d'' then Some (True, o1\<lparr>opt_debug := 1\<rparr>)
      else Some (True, o1))"

text \<open>The options in the order \<open>getopt_long\<close> returns them.\<close>

primrec options_loop :: "(char \<times> string) list \<Rightarrow> options \<Rightarrow> (bool \<times> options) option" where
  "options_loop [] o1 = Some (True, o1)"
| "options_loop (a # as) o1 = do {
     (go, o1) \<leftarrow> switch_options a o1;
     if go then options_loop as o1 else Some (False, o1)
   }"

definition options_parser :: "(char \<times> string) list \<Rightarrow> (bool \<times> options) option" where
  "options_parser as = options_loop as set_default_options"

subsection \<open>Signals and listening\<close>

definition SIGINT_handle :: "int \<times> int \<Rightarrow> int \<times> int" where
  "SIGINT_handle s = (if fst s = 0 then (1, 0) else (fst s, 0))"

definition listen_for_peers :: "spawn_io \<Rightarrow> t_job pool \<Rightarrow> (status \<times> t_job pool) option" where
  "listen_for_peers io tp = do {
     j \<leftarrow> job_new (job_ok io) ListenForPeers 2 [ArgTorrent, ArgPeerQueue];
     case j of
       None \<Rightarrow> Some (EXIT_FAILURE, tp)
     | Some j \<Rightarrow> thread_pool_add_job (spawn_create io) (job_node io) j tp
   }"

subsection \<open>The state of the main thread\<close>

record main_state =
  the_torrent :: torrent
  tp :: "t_job pool"
  peer_queue :: "peer option queue"
  main_metadata_queue :: "u8 list queue"
  main_data_queue :: "u8 list queue"
  main_disk :: disk
  main_running :: int

record add_io =
  peer_address :: addr
  item_malloc :: bool
  ip_malloc :: bool
  duplicate_free :: disconnect_io

text \<open>The loop that collects the peers found by trackers and by the listening socket; the \<open>k\<close>-th lives at
  the address \<open>peer_address (io k)\<close>. A NULL peer is dereferenced.\<close>

function collect_peers :: "(nat \<Rightarrow> add_io) \<Rightarrow> nat \<Rightarrow> torrent \<times> peer option queue \<Rightarrow> (torrent \<times> peer option queue) option" where
  "collect_peers io k (t, q) =
     (if queue_get_count q > 0 then do {
        (p, q') \<leftarrow> queue_pop q;
        p \<leftarrow> Option.bind p (\<lambda>p. p);
        (_, t) \<leftarrow> torrent_add_peer (item_malloc (io k)) (ip_malloc (io k)) (duplicate_free (io k))
          (t\<lparr>peer_mem := (peer_mem t)(peer_address (io k) \<mapsto> p)\<rparr>) (peer_address (io k));
        collect_peers io (Suc k) (t, q')
      }
      else Some (t, q))"
  by pat_completeness auto

termination collect_peers
  by (relation "measure (\<lambda>(io, k, t, q). nat (queue.count q))")
    (auto simp: queue_get_count_def queue_pop_def split: if_splits bind_splits)

declare collect_peers.simps [simp del]

subsection \<open>One iteration\<close>

record iteration_io =
  it_trackers :: "nat \<Rightarrow> spawn_io"
  it_times :: "nat \<Rightarrow> int \<times> int"
  it_add :: "nat \<Rightarrow> add_io"
  it_slots :: slots_io
  it_peers :: "string \<Rightarrow> spawn_io"
  it_metadata_clock :: "nat \<Rightarrow> int"
  it_metadata :: metadata_msg_io
  it_data_clock :: "nat \<Rightarrow> int"
  it_chunk :: chunk_io
  it_key :: "char option"

text \<open>Scheduling: trackers, new peers, upload slots, peers. The results of the calls are ignored.\<close>

definition schedule_step :: "int \<Rightarrow> iteration_io \<Rightarrow> main_state \<Rightarrow> main_state option" where
  "schedule_step debug io s = do {
     (t, p) \<leftarrow> (if debug = 0 then map_option snd (torrent_run_trackers (it_trackers io) (it_times io) (the_torrent s, tp s))
               else Some (the_torrent s, tp s));
     (t, q) \<leftarrow> collect_peers (it_add io) 0 (t, peer_queue s);
     (_, t) \<leftarrow> torrent_assign_upload_slots (it_slots io) t;
     (_, t, p) \<leftarrow> torrent_run_peers (it_peers io) (t, p);
     Some (s\<lparr>the_torrent := t, tp := p, peer_queue := q\<rparr>)
   }"

text \<open>Metadata: expired claims are released, then one message of the queue is handled.\<close>

definition metadata_step :: "bool \<Rightarrow> iteration_io \<Rightarrow> main_state \<Rightarrow> main_state option" where
  "metadata_step le io s = do {
     (_, md) \<leftarrow> torrent_data_release_expired_claims (it_metadata_clock io) (torrent_metadata (the_torrent s));
     let s = s\<lparr>the_torrent := (the_torrent s)\<lparr>torrent_metadata := md\<rparr>\<rparr>;
     if queue_get_count (main_metadata_queue s) > 0 then do {
       (m, q) \<leftarrow> queue_pop (main_metadata_queue s);
       m \<leftarrow> m;
       (_, t, disk) \<leftarrow> torrent_process_metadata_piece le (it_metadata io) (the_torrent s) (main_disk s) m;
       Some (s\<lparr>the_torrent := t, main_metadata_queue := q, main_disk := disk\<rparr>)
     }
     else Some s
   }"

definition data_step :: "bool \<Rightarrow> iteration_io \<Rightarrow> main_state \<Rightarrow> main_state option" where
  "data_step le io s = do {
     (_, td) \<leftarrow> torrent_data_release_expired_claims (it_data_clock io) (torrent_content (the_torrent s));
     let s = s\<lparr>the_torrent := (the_torrent s)\<lparr>torrent_content := td\<rparr>\<rparr>;
     if queue_get_count (main_data_queue s) > 0 then do {
       (m, q) \<leftarrow> queue_pop (main_data_queue s);
       m \<leftarrow> m;
       (_, t, disk) \<leftarrow> torrent_process_data_chunk le (it_chunk io) (the_torrent s) (main_disk s) m;
       Some (s\<lparr>the_torrent := t, main_data_queue := q, main_disk := disk\<rparr>)
     }
     else Some s
   }"

definition key_step :: "iteration_io \<Rightarrow> main_state \<Rightarrow> main_state" where
  "key_step io s = (case it_key io of
      None \<Rightarrow> s
    | Some c \<Rightarrow> if main_running s = 1 \<and> c = CHR ''q'' then s\<lparr>main_running := 0\<rparr> else s)"

definition main_iteration :: "bool \<Rightarrow> int \<Rightarrow> iteration_io \<Rightarrow> main_state \<Rightarrow> main_state option" where
  "main_iteration le debug io s = do {
     s \<leftarrow> schedule_step debug io s;
     s \<leftarrow> metadata_step le io s;
     s \<leftarrow> data_step le io s;
     Some (key_step io s)
   }"

text \<open>The loop, over the iterations the program makes: before each test of \<open>running\<close> the jobs and the
  signals have changed the state (\<open>fst\<close> of each element). \<open>None\<close> when it is still running after all of them.\<close>

primrec main_loop :: "bool \<Rightarrow> int \<Rightarrow> ((main_state \<Rightarrow> main_state) \<times> iteration_io) list \<Rightarrow> main_state \<Rightarrow> main_state option" where
  "main_loop le debug [] s = (if main_running s = 0 then Some s else None)"
| "main_loop le debug (x # xs) s =
     (if main_running (fst x s) = 0 then Some (fst x s)
      else do {
        s \<leftarrow> main_iteration le debug (snd x) (fst x s);
        main_loop le debug xs s
      })"

subsection \<open>Start and end\<close>

record start_io =
  start_ipify :: ipify_io
  start_new :: new_io
  queue_mallocs :: "bool \<times> bool \<times> bool"
  pool_mallocs :: "bool \<times> bool"
  listen_spawn :: spawn_io
  debug_alloc :: "bool \<times> bool \<times> bool"
  debug_now :: int
  debug_add :: add_io
  error_disconnects :: "nat \<Rightarrow> disconnect_io"
  error_frees :: "addr \<Rightarrow> disconnect_io"

datatype start = Exited | Failed "status \<times> (addr \<rightharpoonup> peer)" | Started main_state

text \<open>The peers that are still in the queue.\<close>

primrec free_queued :: "(nat \<Rightarrow> disconnect_io) \<Rightarrow> nat \<Rightarrow> peer option option list \<Rightarrow> unit option" where
  "free_queued d k [] = Some ()"
| "free_queued d k (x # xs) = do {
     x \<leftarrow> x;
     _ \<leftarrow> peer_free (d k) x;
     free_queued d (Suc k) xs
   }"

text \<open>The error path, behind \<open>thread_pool_free\<close>; the queue of the data is not released.\<close>

definition main_error :: "(nat \<Rightarrow> disconnect_io) \<Rightarrow> (addr \<Rightarrow> disconnect_io) \<Rightarrow> torrent \<Rightarrow> peer option queue \<Rightarrow> u8 list queue \<Rightarrow> start option" where
  "main_error d d' t q1 q2 = do {
     (xs, q1) \<leftarrow> queue_drain q1;
     _ \<leftarrow> free_queued d 0 xs;
     _ \<leftarrow> queue_drain q2;
     _ \<leftarrow> queue_free (Some q1);
     (_, mem, _) \<leftarrow> torrent_free d' (Some t);
     Some (Failed (EXIT_FAILURE, mem))
   }"

text \<open>The public address, or NULL.\<close>

definition public_address :: "ipify_io \<Rightarrow> string option ipify option" where
  "public_address io = do {
     c \<leftarrow> ipify_connect io;
     case c of
       IpExit \<Rightarrow> Some IpExit
     | IpOk sfd \<Rightarrow> do {
         r \<leftarrow> ipify_getIP io (replicate 4069 NUL);
         case r of
           IpExit \<Rightarrow> Some IpExit
         | IpOk (p, m) \<Rightarrow> (case ipify_disconnect io sfd of
             IpExit \<Rightarrow> Some IpExit
           | IpOk _ \<Rightarrow> (case p of None \<Rightarrow> Some (IpOk None) | Some p \<Rightarrow> map_option (\<lambda>s. IpOk (Some s)) (text_at m p)))
       }
   }"

text \<open>The queues, the pool, the listening job, and in debug mode a peer on the local host.\<close>

definition start_threads :: "bool \<Rightarrow> start_io \<Rightarrow> disk \<Rightarrow> int \<Rightarrow> torrent \<Rightarrow> start option" where
  "start_threads le io disk debug t = do {
     let (m1, m2, m3) = queue_mallocs io;
     q1 \<leftarrow> queue_new m1; q1 \<leftarrow> q1;
     q2 \<leftarrow> queue_new m2; q2 \<leftarrow> q2;
     q3 \<leftarrow> queue_new m3; q3 \<leftarrow> q3;
     p \<leftarrow> thread_pool_new (fst (pool_mallocs io)) (snd (pool_mallocs io)) 10;
     case p of
       None \<Rightarrow> main_error (error_disconnects io) (error_frees io) t q1 q2
     | Some p \<Rightarrow> do {
         (r, p) \<leftarrow> listen_for_peers (listen_spawn io) p;
         if r = EXIT_FAILURE then main_error (error_disconnects io) (error_frees io) t q1 q2
         else do {
           t \<leftarrow> (if debug = 1 then do {
                  x \<leftarrow> (case debug_alloc io of (a, b, c) \<Rightarrow> peer_new le a b c (debug_now io) 2130706433 5000);
                  x \<leftarrow> x;
                  (_, t) \<leftarrow> torrent_add_peer (item_malloc (debug_add io)) (ip_malloc (debug_add io)) (duplicate_free (debug_add io))
                    (t\<lparr>peer_mem := (peer_mem t)(peer_address (debug_add io) \<mapsto> x)\<rparr>) (peer_address (debug_add io));
                  Some t
                }
                else Some t);
           Some (Started \<lparr>the_torrent = t, tp = p, peer_queue = q1, main_metadata_queue = q2, main_data_queue = q3,
             main_disk = disk, main_running = 1\<rparr>)
         }
       }
   }"

text \<open>Up to the loop. When the torrent cannot be created, the error path reads the queues, which are
  declared behind the jump and hold no value: undefined.\<close>

definition main_start :: "bool \<Rightarrow> (string \<Rightarrow> string option) \<Rightarrow> start_io \<Rightarrow> disk \<Rightarrow> bool \<times> options \<Rightarrow> start option" where
  "main_start le unescape io disk opts = (let o1 = snd opts in
     if \<not> fst opts then Some Exited
     else do {
       uri \<leftarrow> text_at (opt_magnet_uri o1) 0;
       if uri = [] then Some Exited
       else do {
         pth \<leftarrow> text_at (opt_path o1) 0;
         if pth = [] then Some Exited
         else do {
           ip \<leftarrow> public_address (start_ipify io);
           case ip of
             IpExit \<Rightarrow> Some Exited
           | IpOk ip \<Rightarrow> do {
               t \<leftarrow> torrent_new unescape (start_new io) uri pth (uint (opt_port o1)) ip;
               t \<leftarrow> t;
               start_threads le io disk (opt_debug o1) t
             }
         }
       }
     })"

text \<open>After the loop and after \<open>thread_pool_free\<close>: the peers still queued are freed, the messages dropped,
  the torrent is released.\<close>

definition main_finish :: "(nat \<Rightarrow> disconnect_io) \<Rightarrow> (addr \<Rightarrow> disconnect_io) \<Rightarrow> main_state \<Rightarrow> (status \<times> (addr \<rightharpoonup> peer)) option" where
  "main_finish d d' s = do {
     (xs, q1) \<leftarrow> queue_drain (peer_queue s);
     _ \<leftarrow> free_queued d 0 xs;
     (_, q2) \<leftarrow> queue_drain (main_metadata_queue s);
     (_, q3) \<leftarrow> queue_drain (main_data_queue s);
     _ \<leftarrow> queue_free (Some q1);
     _ \<leftarrow> queue_free (Some q2);
     _ \<leftarrow> queue_free (Some q3);
     (_, mem, _) \<leftarrow> torrent_free d' (Some (the_torrent s));
     Some (EXIT_SUCCESS, mem)
   }"

subsection \<open>What the queue of peers becomes\<close>

text \<open>Entering one address text after the other, each once.\<close>

definition enter_ips :: "peer list \<Rightarrow> string list \<Rightarrow> string list" where
  "enter_ips = fold (\<lambda>p ips. if str_ip p \<in> set ips then ips else ips @ [str_ip p])"

lemma torrent_ok_alloc:
  assumes "torrent_ok t" "peer_mem t a = None"
  shows "torrent_ok (t\<lparr>peer_mem := (peer_mem t)(a \<mapsto> p)\<rparr>)" "peer_addr t ip \<noteq> Some a"
    "peer_addr (t\<lparr>peer_mem := (peer_mem t)(a \<mapsto> p)\<rparr>) = peer_addr t"
proof -
  show n: "peer_addr t ip \<noteq> Some a" for ip using assms torrent_ok_entry [OF assms(1), of ip a] by auto
  show v: "peer_addr (t\<lparr>peer_mem := (peer_mem t)(a \<mapsto> p)\<rparr>) = peer_addr t" by (simp add: peer_addr_def fun_eq_iff)
  show "torrent_ok (t\<lparr>peer_mem := (peer_mem t)(a \<mapsto> p)\<rparr>)"
    using assms(1) n unfolding torrent_ok_def v by auto
qed

text \<open>What the system grants to the loop from its \<open>k\<close>-th round on: memory for the table, and addresses
  of peers that are not in use.\<close>

definition grants :: "(nat \<Rightarrow> add_io) \<Rightarrow> nat \<Rightarrow> (addr \<rightharpoonup> peer) \<Rightarrow> bool" where
  "grants io k mem \<longleftrightarrow> (\<forall>j. item_malloc (io j) \<and> ip_malloc (io j)) \<and> inj (\<lambda>j. peer_address (io j))
     \<and> (\<forall>j \<ge> k. mem (peer_address (io j)) = None)"

lemma collect_peers_run:
  assumes "torrent_ok t" "queue_rep q (map Some ps)" "grants io k (peer_mem t)"
    and "\<forall>p \<in> set ps. \<forall>j. peer_free (duplicate_free (io j)) (Some p) = Some None"
    and "length (peer_ips t) + length ps < 2 ^ 32"
  shows "\<exists>t' q'. collect_peers io k (t, q) = Some (t', q') \<and> queue_rep q' [] \<and> torrent_ok t'
    \<and> peer_ips t' = enter_ips ps (peer_ips t)"
  using assms
proof (induction ps arbitrary: t q k)
  case Nil
  then have "queue_get_count q = 0" using qi.size_law by fastforce
  with Nil show ?case by (subst collect_peers.simps) (simp add: enter_ips_def)
next
  case (Cons p ps)
  let ?a = "peer_address (io k)"
  let ?t = "t\<lparr>peer_mem := (peer_mem t)(?a \<mapsto> p)\<rparr>"
  from Cons.prems(2) obtain q1 where q1: "queue_pop q = Some (Some (Some p), q1)" "queue_rep q1 (map Some ps)"
    using qi.pop_law [of q "Some p" "map Some ps"] by auto
  have c: "queue_get_count q > 0" using qi.size_law [OF Cons.prems(2)] by simp
  have a: "peer_mem t ?a = None" using Cons.prems(3) by (auto simp: grants_def)
  note ok = torrent_ok_alloc(1,3) [OF Cons.prems(1) a, of p] torrent_ok_alloc(2) [OF Cons.prems(1) a]
  have "\<exists>t'. torrent_add_peer True True (duplicate_free (io k)) ?t ?a = Some (EXIT_SUCCESS, t') \<and> torrent_ok t'
    \<and> (if str_ip p \<in> set (peer_ips ?t)
        then peer_ips t' = peer_ips ?t \<and> peer_addr t' = peer_addr ?t \<and> peer_mem t' = (peer_mem ?t)(?a := None)
        else peer_ips t' = peer_ips ?t @ [str_ip p] \<and> peer_addr t' = (peer_addr ?t)(str_ip p \<mapsto> ?a) \<and> peer_mem t' = peer_mem ?t)"
    using Cons.prems ok by (intro torrent_add_peer_run) auto
  then obtain t1 where t1: "torrent_add_peer True True (duplicate_free (io k)) ?t ?a = Some (EXIT_SUCCESS, t1)" "torrent_ok t1"
    "peer_ips t1 = enter_ips [p] (peer_ips t)" "\<forall>b. b \<noteq> ?a \<longrightarrow> peer_mem t1 b = peer_mem t b"
    by (auto simp: enter_ips_def split: if_splits)
  have "peer_mem t1 (peer_address (io j)) = None" if "Suc k \<le> j" for j
  proof -
    have "peer_address (io j) \<noteq> ?a" using that Cons.prems(3) by (auto simp: grants_def dest!: inj_eq [of "\<lambda>j. peer_address (io j)" j k])
    with that Cons.prems(3) t1(4) show ?thesis by (simp add: grants_def)
  qed
  then have g: "grants io (Suc k) (peer_mem t1)" using Cons.prems(3) by (auto simp: grants_def)
  have "length (peer_ips t1) \<le> Suc (length (peer_ips t))" using t1(3) by (auto simp: enter_ips_def)
  then obtain t' q' where "collect_peers io (Suc k) (t1, q1) = Some (t', q')" "queue_rep q' []" "torrent_ok t'"
    "peer_ips t' = enter_ips ps (peer_ips t1)"
    using Cons.IH [OF t1(2) q1(2) g] Cons.prems(4,5) by auto
  with q1 c t1 Cons.prems(3) show ?case
    by (subst collect_peers.simps) (simp add: grants_def enter_ips_def)
qed

lemma enter_ips_facts:
  "set (enter_ips ps ips) = set ips \<union> str_ip ` set ps" "distinct ips \<Longrightarrow> distinct (enter_ips ps ips)"
  by (induction ps arbitrary: ips) (auto simp: enter_ips_def)

text \<open>
  Collecting the found peers empties the queue and keeps the table of the torrent well formed;
  afterwards the table has exactly the addresses it had and those of the queued peers, in the order of
  their first arrival and each once.
\<close>

theorem collect_peers_spec:
  assumes "torrent_ok t" "queue_rep q (map Some ps)" "grants io 0 (peer_mem t)"
    and "\<forall>p \<in> set ps. \<forall>j. peer_free (duplicate_free (io j)) (Some p) = Some None"
    and "length (peer_ips t) + length ps < 2 ^ 32"
  shows "\<exists>t' q'. collect_peers io 0 (t, q) = Some (t', q') \<and> queue_rep q' [] \<and> torrent_ok t' \<and> distinct (peer_ips t')
    \<and> peer_ips t' = enter_ips ps (peer_ips t) \<and> set (peer_ips t') = set (peer_ips t) \<union> str_ip ` set ps"
proof -
  have "distinct (peer_ips t)" using assms(1) by (simp add: torrent_ok_def)
  with collect_peers_run [OF assms] show ?thesis by (auto simp: enter_ips_facts)
qed

definition demo_add :: "nat \<Rightarrow> add_io" where
  "demo_add k = \<lparr>peer_address = 10 + k, item_malloc = True, ip_malloc = True, duplicate_free = demo_disconnect\<rparr>"

theorem collect_peers_spec_witness:
  "\<exists>hm t' q'. demo_table hm \<and> collect_peers demo_add 0 (demo_torrent hm, \<lparr>nodes = [1 \<mapsto> (Some demo_peer, None)], count = 1, head = Some 1, tail = Some 1\<rparr>)
      = Some (t', q') \<and> queue_rep q' [] \<and> torrent_ok t' \<and> peer_ips t' = [''10.0.0.2'']"
proof -
  let ?q = "\<lparr>nodes = [1 \<mapsto> (Some demo_peer, None)], count = 1, head = Some 1, tail = Some 1\<rparr>"
  obtain hm where hm: "demo_table hm" using demo_table_exists by blast
  have q: "queue_rep ?q (map Some [demo_peer])"
    by (auto simp: queue_rep_def linked_def node_value_def intro!: exI [of _ "[1]"])
  have g: "grants demo_add 0 (peer_mem (demo_torrent hm))"
    by (auto simp: grants_def demo_add_def demo_torrent_def inj_on_def)
  have i: "peer_ips (demo_torrent hm) = [''10.0.0.2'']" "str_ip demo_peer = ''10.0.0.2''"
    by (simp_all add: demo_torrent_def demo_peer_def)
  have f: "\<forall>p \<in> set [demo_peer]. \<forall>j. peer_free (duplicate_free (demo_add j)) (Some p) = Some None"
    by (simp add: demo_add_def demo_peer_free)
  have r: "length (peer_ips (demo_torrent hm)) + length [demo_peer] < 2 ^ 32" by (simp add: i)
  from collect_peers_spec [OF demo_view(2) [OF hm] q g f r] hm show ?thesis by (auto simp: enter_ips_def i)
qed

subsection \<open>The port option\<close>

text \<open>Nothing in an iteration but \<open>torrent_run_trackers\<close> changes the trackers.\<close>

lemma fetch_peer_trackers: "fetch_peer b t ip = Some (a, p, t') \<Longrightarrow> trackers t' = trackers t"
  by (auto simp: fetch_peer_def split: bind_splits)

lemma add_peer_trackers: "torrent_add_peer b b' d t a = Some (r, t') \<Longrightarrow> trackers t' = trackers t"
  by (auto simp: torrent_add_peer_def Let_def split: bind_splits if_splits)

lemma collect_peers_trackers: "collect_peers io k (t, q) = Some (t', q') \<Longrightarrow> trackers t' = trackers t"
proof (induction io k "(t, q)" arbitrary: t q rule: collect_peers.induct)
  case (1 io k t q)
  show ?case
  proof (cases "queue_get_count q > 0")
    case True
    with "1.prems" obtain p q1 r t1 where p: "queue_pop q = Some (Some (Some p), q1)"
      and t1: "torrent_add_peer (item_malloc (io k)) (ip_malloc (io k)) (duplicate_free (io k))
          (t\<lparr>peer_mem := (peer_mem t)(peer_address (io k) \<mapsto> p)\<rparr>) (peer_address (io k)) = Some (r, t1)"
      and c: "collect_peers io (Suc k) (t1, q1) = Some (t', q')"
      by (subst (asm) collect_peers.simps) (auto split: bind_splits)
    have "trackers t' = trackers t1" by (rule "1.hyps" [OF True p refl _ t1 refl c]) simp
    with add_peer_trackers [OF t1] show ?thesis by simp
  qed (use "1.prems" in \<open>subst (asm) collect_peers.simps, simp\<close>)
qed

lemma collect_interested_trackers: "collect_interested b ips t = Some (as, t') \<Longrightarrow> trackers t' = trackers t"
  by (induction ips arbitrary: t as t') (fastforce split: bind_splits dest: fetch_peer_trackers)+

lemma slot_loop_trackers: "slot_loop opt1 as i u t = Some t' \<Longrightarrow> trackers t' = trackers t"
  by (induction as arbitrary: i u t) (auto simp: set_uploader_def set_peer_def split: if_splits bind_splits)

lemma assign_slots_trackers: "torrent_assign_upload_slots io t = Some (r, t') \<Longrightarrow> trackers t' = trackers t"
  by (auto simp: torrent_assign_upload_slots_def Let_def split: if_splits bind_splits
      dest!: collect_interested_trackers slot_loop_trackers)

lemma run_peer_trackers: "run_peer io ip (t, p) = Some (r, t', p') \<Longrightarrow> trackers t' = trackers t"
  by (auto simp: run_peer_def set_peer_def Let_def split: if_splits bind_splits option.splits dest!: fetch_peer_trackers)

lemma run_peers_trackers: "run_peers_loop io ips (t, p) = Some (r, t', p') \<Longrightarrow> trackers t' = trackers t"
  by (induction ips arbitrary: t p) (fastforce split: if_splits bind_splits dest: run_peer_trackers)+

lemma announce_piece_trackers: "announce_piece io pid ips t = Some t' \<Longrightarrow> trackers t' = trackers t"
  by (induction ips arbitrary: t) (fastforce simp: set_peer_def split: if_splits bind_splits dest: fetch_peer_trackers)+

lemma process_chunk_trackers: "torrent_process_data_chunk le io t d m = Some (r, t', d') \<Longrightarrow> trackers t' = trackers t"
  by (auto simp: torrent_process_data_chunk_def Let_def split: if_splits bind_splits dest!: announce_piece_trackers)

lemma process_metadata_trackers: "torrent_process_metadata_piece le io t d m = Some (r, t', d') \<Longrightarrow> trackers t' = trackers t"
  by (auto simp: torrent_process_metadata_piece_def Let_def split: if_splits bind_splits sum.splits)

lemmas step_trackers = collect_peers_trackers assign_slots_trackers run_peers_trackers process_metadata_trackers process_chunk_trackers

lemma debug_iteration_trackers:
  "main_iteration le 1 io s = Some s' \<Longrightarrow> trackers (the_torrent s') = trackers (the_torrent s)"
  by (auto simp: main_iteration_def schedule_step_def metadata_step_def data_step_def key_step_def torrent_run_peers_def Let_def
      split: if_splits bind_splits option.splits dest!: step_trackers)

lemma options_debug_stays: "options_loop as o1 = Some (b, o2) \<Longrightarrow> opt_debug o1 = 1 \<Longrightarrow> opt_debug o2 = 1"
  by (induction as arbitrary: o1) (fastforce simp: switch_options_def split: if_splits bind_splits)+

lemma options_port_debug: "options_loop as o1 = Some (True, o2) \<Longrightarrow> (CHR ''o'', v) \<in> set as \<Longrightarrow> opt_debug o2 = 1"
proof (induction as arbitrary: o1)
  case (Cons a as)
  then show ?case
    by (cases "a = (CHR ''o'', v)") (auto simp: switch_options_def split: if_splits bind_splits dest: options_debug_stays)
qed simp

text \<open>
  C38: choosing a port on the command line also switches on the debug mode, as the case has no
  \<open>break\<close>; in that mode the main loop runs no tracker: no iteration changes a tracker, whatever
  the queues hold.
\<close>

theorem port_option_stops_trackers:
  assumes "options_parser as = Some (True, o1)" "(CHR ''o'', v) \<in> set as" "main_iteration le (opt_debug o1) io s = Some s'"
  shows "opt_debug o1 = 1 \<and> trackers (the_torrent s') = trackers (the_torrent s)"
proof -
  have "opt_debug o1 = 1" using assms(1,2) options_port_debug unfolding options_parser_def by blast
  with assms(3) debug_iteration_trackers show ?thesis by auto
qed

text \<open>An iteration with nothing to do: a torrent of one tracker and no peers.\<close>

definition idle_state :: main_state where
  "idle_state = \<lparr>the_torrent = \<lparr>magnet_uri = ''magnet:'', path = ''/tmp'', t_port = 7000, t_name = None, t_info_hash = None,
     info_hash_hex = replicate 20 0, tracker_count = 1, trackers = [Some sample_tracker, None, None, None, None], peers = None,
     peer_ips = [], peer_count = 0, assign_upload_slots_deadline = 0, torrent_metadata = the (torrent_data_new True ''/tmp''),
     torrent_content = the (torrent_data_new True ''/tmp''), peer_mem = Map.empty\<rparr>,
     tp = demo_tp, peer_queue = sample_queue, main_metadata_queue = sample_queue, main_data_queue = sample_queue,
     main_disk = Map.empty, main_running = 1\<rparr>"

lemma idle_iteration:
  assumes "it_key io = None"
  shows "main_iteration le 1 io idle_state = Some idle_state"
  using assms
  by (simp add: main_iteration_def schedule_step_def metadata_step_def data_step_def key_step_def idle_state_def sample_queue_def
      collect_peers.simps queue_get_count_def torrent_assign_upload_slots_def torrent_run_peers_def
      torrent_data_release_expired_claims_def torrent_data_new_def)

theorem port_option_stops_trackers_witness:
  "\<exists>o1 io. options_parser [(CHR ''m'', ''magnet:''), (CHR ''o'', ''7000'')] = Some (True, o1) \<and> opt_debug o1 = 1 \<and> opt_port o1 = 7000
     \<and> main_iteration True (opt_debug o1) io idle_state = Some idle_state"
proof -
  have "(case options_parser [(CHR ''m'', ''magnet:''), (CHR ''o'', ''7000'')] of Some (b, o1) \<Rightarrow> b \<and> opt_port o1 = 7000 \<and> opt_debug o1 = 1 | None \<Rightarrow> False)"
    by code_simp
  then obtain o1 where o1: "options_parser [(CHR ''m'', ''magnet:''), (CHR ''o'', ''7000'')] = Some (True, o1)" "opt_port o1 = 7000" "opt_debug o1 = 1"
    by (auto split: option.splits)
  obtain io :: iteration_io where "it_key io = None" using iteration_io.select_convs(10) by metis
  then have i: "main_iteration True (opt_debug o1) io idle_state = Some idle_state" using o1(3) by (simp add: idle_iteration)
  from port_option_stops_trackers [OF o1(1) _ i, of "''7000''"] o1(1,2) i show ?thesis by auto
qed

end
