(* ===== verification/Uvg_MainInvariant.thy ===== *)
theory Uvg_MainInvariant
  imports Uvg_Main
begin

text \<open>
  What the main thread keeps over a whole run of the program: the table of the peers stays well formed
  and no peer is lost from it, whatever arrives in the queues, as long as the small allocations of the
  hash map succeed. The lemmas follow the calls of one iteration.
\<close>

subsection \<open>The table between two states\<close>

definition keeps :: "torrent \<Rightarrow> torrent \<Rightarrow> bool" where
  "keeps t t' \<longleftrightarrow> torrent_ok t' \<and> (\<exists>new. peer_ips t' = peer_ips t @ new) \<and> peer_addr t \<subseteq>\<^sub>m peer_addr t'"

lemma keeps_refl: "torrent_ok t \<Longrightarrow> keeps t t"
  by (simp add: keeps_def)

lemma keeps_trans: "keeps t t1 \<Longrightarrow> keeps t1 t2 \<Longrightarrow> keeps t t2"
  by (auto simp: keeps_def intro: map_le_trans)

lemma keeps_ok: "keeps t t' \<Longrightarrow> torrent_ok t'"
  by (simp add: keeps_def)

text \<open>Fields outside the table do not matter.\<close>

definition table_of :: "torrent \<Rightarrow> addr hash_map option \<times> string list \<times> u32 \<times> (addr \<rightharpoonup> peer)" where
  "table_of t = (peers t, peer_ips t, peer_count t, peer_mem t)"

lemma table_of_addr: "table_of t' = table_of t \<Longrightarrow> peer_addr t' = peer_addr t"
  by (simp add: table_of_def fun_eq_iff peer_addr_def)

lemma table_of_ok: "table_of t' = table_of t \<Longrightarrow> torrent_ok t \<Longrightarrow> torrent_ok t'"
  using table_of_addr [of t' t] by (simp add: table_of_def torrent_ok_def)

lemma table_of_keeps: "table_of t' = table_of t \<Longrightarrow> torrent_ok t \<Longrightarrow> keeps t t'"
  using table_of_ok [of t' t] table_of_addr [of t' t] by (auto simp: keeps_def table_of_def)

subsection \<open>Trackers\<close>

lemma run_tracker_table: "run_tracker io now i (t, p) = Some (b, t', p') \<Longrightarrow> table_of t' = table_of t"
  by (auto simp: run_tracker_def table_of_def Let_def split: if_splits bind_splits option.splits)

lemma run_trackers_table: "run_trackers_loop io now is (t, p) = Some (r, t', p') \<Longrightarrow> table_of t' = table_of t"
  by (induction "is" arbitrary: t p) (fastforce split: if_splits bind_splits dest: run_tracker_table)+

subsection \<open>Loops over the peers\<close>

lemma fetch_peer_keeps:
  assumes "torrent_ok t" "ip \<in> set (peer_ips t)" "fetch_peer True t ip = Some (a, p, t')"
  shows "torrent_ok t'" "peer_ips t' = peer_ips t" "peer_mem t' a = Some p" "peer_addr t' = peer_addr t" "peer_addr t ip = Some a"
proof -
  from fetch_peer_run [OF assms(1,2)] assms(3) have "same_table t t'" "peer_mem t a = Some p" "peer_addr t ip = Some a" by auto
  then show "torrent_ok t'" "peer_ips t' = peer_ips t" "peer_mem t' a = Some p" "peer_addr t' = peer_addr t" "peer_addr t ip = Some a"
    using same_table_ok assms(1) by (auto simp: same_table_view)
qed

text \<open>A loop over the list of peers keeps the table when one round does: every round may fetch its peer
  and change the object of that peer, but not its address text.\<close>

lemma set_peer_keeps:
  "torrent_ok t \<Longrightarrow> peer_mem t a = Some p \<Longrightarrow> str_ip p' = str_ip p \<Longrightarrow> torrent_ok (set_peer a p' t) \<and> peer_ips (set_peer a p' t) = peer_ips t \<and> peer_addr (set_peer a p' t) = peer_addr t"
  by (simp add: set_peer_ok)

lemma run_peer_keeps:
  assumes "torrent_ok t" "ip \<in> set (peer_ips t)" "item_ok io" "run_peer io ip (t, q) = Some (b, t', q')"
  shows "torrent_ok t' \<and> peer_ips t' = peer_ips t \<and> peer_addr t' = peer_addr t"
proof -
  from assms(3,4) obtain a p t1 where f: "fetch_peer True t ip = Some (a, p, t1)" "t' = t1 \<or> t' = set_peer a (p\<lparr>running := 1\<rparr>) t1"
    by (auto simp: run_peer_def Let_def split: if_splits bind_splits option.splits)
  note k = fetch_peer_keeps [OF assms(1,2) f(1)]
  from f(2) k set_peer_keeps [OF k(1,3), of "p\<lparr>running := 1\<rparr>"] show ?thesis by auto
qed

lemma run_peers_loop_keeps:
  assumes "torrent_ok t" "set ips \<subseteq> set (peer_ips t)" "\<forall>ip. item_ok (io ip)" "run_peers_loop io ips (t, q) = Some (r, t', q')"
  shows "torrent_ok t' \<and> peer_ips t' = peer_ips t \<and> peer_addr t' = peer_addr t"
  using assms
proof (induction ips arbitrary: t q)
  case (Cons ip ips)
  from Cons.prems(4) obtain b t1 q1 where s: "run_peer (io ip) ip (t, q) = Some (b, t1, q1)"
    "if b then run_peers_loop io ips (t1, q1) = Some (r, t', q') else t' = t1"
    by (auto split: if_splits bind_splits)
  have "torrent_ok t1 \<and> peer_ips t1 = peer_ips t \<and> peer_addr t1 = peer_addr t"
    using run_peer_keeps [OF Cons.prems(1) _ _ s(1)] Cons.prems(2,3) by simp
  with s(2) Cons.IH [of t1 q1] Cons.prems(2,3) show ?case by (auto split: if_splits)
qed simp

lemma slot_loop_keeps:
  "torrent_ok t \<Longrightarrow> slot_loop ob as i u t = Some t' \<Longrightarrow> torrent_ok t' \<and> peer_ips t' = peer_ips t \<and> peer_addr t' = peer_addr t"
proof (induction as arbitrary: i u t)
  case (Cons a as)
  from Cons.prems(2) obtain v j w t1 where s: "set_uploader a v t = Some t1" "slot_loop ob as j w t1 = Some t'"
    by (auto split: if_splits bind_splits)
  from s(1) obtain p where "peer_mem t a = Some p" "t1 = set_peer a (p\<lparr>uploader := v\<rparr>) t"
    by (auto simp: set_uploader_def split: bind_splits)
  with set_peer_keeps [OF Cons.prems(1), of a p] have "torrent_ok t1 \<and> peer_ips t1 = peer_ips t \<and> peer_addr t1 = peer_addr t" by simp
  with s(2) Cons.IH show ?case by metis
qed simp

lemma assign_slots_keeps:
  assumes ok: "torrent_ok t" and io: "\<forall>ip. slots_item io ip" and r: "torrent_assign_upload_slots io t = Some (r, t')"
  shows "torrent_ok t' \<and> peer_ips t' = peer_ips t \<and> peer_addr t' = peer_addr t"
proof -
  let ?t = "t\<lparr>assign_upload_slots_deadline := size_t_of (slots_now2 io + 10 * 1000)\<rparr>"
  have t: "torrent_ok ?t" by (rule table_of_ok [OF _ ok]) (simp add: table_of_def)
  from r consider "t' = t" | as t1 ob where "collect_interested (slots_item io) (peer_ips ?t) ?t = Some (as, t1)"
    "slot_loop ob (sorted_by_speed io as) 0 0 t1 = Some t'"
    by (auto simp: torrent_assign_upload_slots_def Let_def split: if_splits bind_splits)
  then show ?thesis
  proof cases
    case (2 as t1 ob)
    from collect_interested_run [OF t subset_refl, of "slots_item io"] io 2(1) have "same_table ?t t1" by auto
    moreover have "peer_addr ?t = peer_addr t" by (rule table_of_addr) (simp add: table_of_def)
    ultimately have "torrent_ok t1" "peer_ips t1 = peer_ips t" "peer_addr t1 = peer_addr t"
      using same_table_ok [OF _ t] by (auto simp: same_table_view)
    with slot_loop_keeps [OF _ 2(2)] show ?thesis by simp
  qed (use ok in simp)
qed

lemma announce_piece_keeps:
  assumes "torrent_ok t" "set ips \<subseteq> set (peer_ips t)" "\<forall>ip. chunk_fetch io ip" "announce_piece io pid ips t = Some t'"
  shows "torrent_ok t' \<and> peer_ips t' = peer_ips t \<and> peer_addr t' = peer_addr t"
  using assms
proof (induction ips arbitrary: t)
  case (Cons ip ips)
  from Cons.prems(3,4) obtain a p t1 where f: "fetch_peer True t ip = Some (a, p, t1)"
    and "announce_piece io pid ips t1 = Some t' \<or> (\<exists>q. announce_piece io pid ips (set_peer a (p\<lparr>progress_queue := q\<rparr>) t1) = Some t')"
    by (auto split: if_splits bind_splits) blast
  then obtain t2 where t2: "t2 = t1 \<or> (\<exists>q. t2 = set_peer a (p\<lparr>progress_queue := q\<rparr>) t1)" and rest: "announce_piece io pid ips t2 = Some t'"
    by auto
  have ip: "ip \<in> set (peer_ips t)" using Cons.prems(2) by simp
  note k = fetch_peer_keeps [OF Cons.prems(1) ip f]
  from t2 k set_peer_keeps [OF k(1,3)] have t2: "torrent_ok t2 \<and> peer_ips t2 = peer_ips t \<and> peer_addr t2 = peer_addr t" by auto
  then show ?case using Cons.IH [OF _ _ Cons.prems(3) rest] Cons.prems(2) by simp
qed simp

lemma process_chunk_keeps:
  assumes "torrent_ok t" "\<forall>ip. chunk_fetch io ip" "torrent_process_data_chunk le io t d m = Some (r, t', d')"
  shows "torrent_ok t' \<and> peer_ips t' = peer_ips t \<and> peer_addr t' = peer_addr t"
proof -
  have ok: "torrent_ok (t\<lparr>torrent_content := td\<rparr>)" for td using assms(1) by (simp add: torrent_content_frame)
  have k: "torrent_ok t1 \<and> peer_ips t1 = peer_ips t \<and> peer_addr t1 = peer_addr t"
    if "announce_piece io pid (peer_ips t) (t\<lparr>torrent_content := td\<rparr>) = Some t1" for pid td t1
    using announce_piece_keeps [OF ok _ assms(2) that] by (simp add: torrent_content_frame)
  show ?thesis
    using assms(3) ok by (auto simp: torrent_process_data_chunk_def Let_def torrent_content_frame split: if_splits bind_splits dest!: k)
qed

lemma process_metadata_fields:
  assumes "torrent_process_metadata_piece le io t d m = Some (r, t', d')"
  shows "peers t' = peers t" "peer_ips t' = peer_ips t" "peer_count t' = peer_count t" "peer_mem t' = peer_mem t"
  using assms by (auto simp: torrent_process_metadata_piece_def Let_def split: if_splits bind_splits sum.splits)

lemma process_metadata_table: "torrent_process_metadata_piece le io t d m = Some (r, t', d') \<Longrightarrow> table_of t' = table_of t"
  by (simp add: table_of_def process_metadata_fields)

subsection \<open>New peers\<close>

lemma add_peer_keeps:
  assumes ok: "torrent_ok t" "peer_mem t a = None" and room: "length (peer_ips t) < 2 ^ 32 - 1"
    and r: "torrent_add_peer True True d (t\<lparr>peer_mem := (peer_mem t)(a \<mapsto> p)\<rparr>) a = Some (r, t')"
  shows "keeps t t'" "length (peer_ips t') \<le> Suc (length (peer_ips t))" "\<And>b. b \<noteq> a \<Longrightarrow> peer_mem t' b = peer_mem t b"
proof -
  let ?t = "t\<lparr>peer_mem := (peer_mem t)(a \<mapsto> p)\<rparr>"
  note a = torrent_ok_alloc(1,3) [OF ok, of p] torrent_ok_alloc(2) [OF ok]
  have d: "str_ip p \<in> set (peer_ips ?t) \<longleftrightarrow> peer_addr ?t (str_ip p) \<noteq> None" using a(1) by (auto simp: torrent_ok_def)
  have f: "peer_free d (Some p) = Some None" if dup: "str_ip p \<in> set (peer_ips ?t)"
  proof -
    from a(1) obtain hm where hm: "peers ?t = Some hm" "hm_wf hm" by (auto simp: torrent_ok_def)
    then have "peer_addr ?t = hm_lookup hm" by (auto simp: peer_addr_def fun_eq_iff)
    with hm dup d have "hashmap_has_key hm (str_ip p) = Some 1" by (simp add: hmi.has_law)
    with r hm(1) show ?thesis by (auto simp: torrent_add_peer_def peer_free_def split: bind_splits)
  qed
  have "\<exists>t'. torrent_add_peer True True d ?t a = Some (EXIT_SUCCESS, t') \<and> torrent_ok t'
    \<and> (if str_ip p \<in> set (peer_ips ?t)
        then peer_ips t' = peer_ips ?t \<and> peer_addr t' = peer_addr ?t \<and> peer_mem t' = (peer_mem ?t)(a := None)
        else peer_ips t' = peer_ips ?t @ [str_ip p] \<and> peer_addr t' = (peer_addr ?t)(str_ip p \<mapsto> a) \<and> peer_mem t' = peer_mem ?t)"
    using a f room by (intro torrent_add_peer_run) auto
  with r a(2) have t': "torrent_ok t'" "if str_ip p \<in> set (peer_ips t)
      then peer_ips t' = peer_ips t \<and> peer_addr t' = peer_addr t \<and> peer_mem t' = (peer_mem ?t)(a := None)
      else peer_ips t' = peer_ips t @ [str_ip p] \<and> peer_addr t' = (peer_addr t)(str_ip p \<mapsto> a) \<and> peer_mem t' = peer_mem ?t"
    by (auto split: if_splits)
  then show "length (peer_ips t') \<le> Suc (length (peer_ips t))" "\<And>b. b \<noteq> a \<Longrightarrow> peer_mem t' b = peer_mem t b"
    by (auto split: if_splits)
  have "peer_addr t \<subseteq>\<^sub>m peer_addr t'" using t'(2) d a(2) by (auto simp: map_le_def split: if_splits)
  with t' show "keeps t t'" by (auto simp: keeps_def split: if_splits)
qed

lemma grants_step:
  assumes "grants io k (peer_mem t)" "\<And>b. b \<noteq> peer_address (io k) \<Longrightarrow> peer_mem t' b = peer_mem t b"
  shows "grants io (Suc k) (peer_mem t')"
proof -
  have "peer_address (io j) \<noteq> peer_address (io k)" if "Suc k \<le> j" for j
    using that assms(1) by (auto simp: grants_def dest!: inj_eq [of "\<lambda>j. peer_address (io j)" j k])
  with assms show ?thesis by (auto simp: grants_def)
qed

lemma collect_peers_keeps:
  assumes "torrent_ok t" "grants io k (peer_mem t)" "int (length (peer_ips t)) + queue_get_count q < 2 ^ 32"
    and "collect_peers io k (t, q) = Some (t', q')"
  shows "keeps t t'"
  using assms
proof (induction "nat (queue_get_count q)" arbitrary: k t q)
  case 0
  have "queue_get_count q \<le> 0" using 0(1) by simp
  with 0(5) have "t' = t" by (subst (asm) collect_peers.simps) simp
  with 0(2) show ?case by (simp add: keeps_refl)
next
  case (Suc n)
  from Suc.prems(4) [unfolded collect_peers.simps [of io k t q]] Suc.hyps(2) Suc.prems(2) obtain p q1 r t1 where p: "queue_pop q = Some (Some (Some p), q1)"
    and t1: "torrent_add_peer True True (duplicate_free (io k)) (t\<lparr>peer_mem := (peer_mem t)(peer_address (io k) \<mapsto> p)\<rparr>) (peer_address (io k)) = Some (r, t1)"
    and c: "collect_peers io (Suc k) (t1, q1) = Some (t', q')"
    by (auto simp: grants_def split: bind_splits if_splits)
  have n: "queue_get_count q1 = queue_get_count q - 1"
    using p by (auto simp: queue_pop_def queue_get_count_def split: if_splits bind_splits)
  have a: "peer_mem t (peer_address (io k)) = None" using Suc.prems(2) by (simp add: grants_def)
  have room: "length (peer_ips t) < 2 ^ 32 - 1" using Suc.hyps(2) Suc.prems(3) by simp
  note k = add_peer_keeps [OF Suc.prems(1) a room t1]
  have "keeps t1 t'"
    using Suc.hyps(1) [OF _ keeps_ok [OF k(1)] grants_step [OF Suc.prems(2) k(3)] _ c] n k(2) Suc.hyps(2) Suc.prems(3) by simp
  with k(1) show ?case by (rule keeps_trans)
qed

subsection \<open>One iteration\<close>

text \<open>What the system grants during one iteration: memory for the entries of the table, addresses for
  new peers, and less than \<open>2 ^ 32\<close> peers. Jobs and data may fail.\<close>

definition granted :: "iteration_io \<Rightarrow> main_state \<Rightarrow> bool" where
  "granted io s \<longleftrightarrow> grants (it_add io) 0 (peer_mem (the_torrent s)) \<and> (\<forall>ip. item_ok (it_peers io ip))
     \<and> (\<forall>ip. slots_item (it_slots io) ip) \<and> (\<forall>ip. chunk_fetch (it_chunk io) ip)
     \<and> int (length (peer_ips (the_torrent s))) + queue_get_count (peer_queue s) < 2 ^ 32"

lemma schedule_keeps:
  assumes ok: "torrent_ok (the_torrent s)" and g: "granted io s" and r: "schedule_step debug io s = Some s'"
  shows "keeps (the_torrent s) (the_torrent s')"
proof -
  from r obtain t1 p1 t2 q2 r3 t3 r4 t4 p4 where
    t1: "(if debug = 0 then map_option snd (torrent_run_trackers (it_trackers io) (it_times io) (the_torrent s, tp s))
          else Some (the_torrent s, tp s)) = Some (t1, p1)"
    and t2: "collect_peers (it_add io) 0 (t1, peer_queue s) = Some (t2, q2)"
    and t3: "torrent_assign_upload_slots (it_slots io) t2 = Some (r3, t3)"
    and t4: "torrent_run_peers (it_peers io) (t3, p1) = Some (r4, t4, p4)" "the_torrent s' = t4"
    unfolding schedule_step_def by (auto split: bind_splits)
  have tab: "table_of t1 = table_of (the_torrent s)"
    using t1 by (auto simp: torrent_run_trackers_def split: if_splits dest: run_trackers_table)
  have k1: "keeps (the_torrent s) t1" using table_of_keeps [OF tab ok] .
  have "peer_mem t1 = peer_mem (the_torrent s)" "peer_ips t1 = peer_ips (the_torrent s)" using tab by (simp_all add: table_of_def)
  then have k2: "keeps t1 t2" using collect_peers_keeps [OF keeps_ok [OF k1] _ _ t2] g by (simp add: granted_def)
  have k3: "torrent_ok t3 \<and> peer_ips t3 = peer_ips t2 \<and> peer_addr t3 = peer_addr t2" using assign_slots_keeps [OF keeps_ok [OF k2] _ t3] g by (simp add: granted_def)
  have "torrent_ok t4 \<and> peer_ips t4 = peer_ips t3 \<and> peer_addr t4 = peer_addr t3"
    using run_peers_loop_keeps [of t3 "peer_ips t3" "it_peers io" p1 r4 t4 p4] k3 g t4(1) by (simp add: torrent_run_peers_def granted_def)
  with k3 have "keeps t2 t4" by (simp add: keeps_def)
  with k1 k2 t4(2) keeps_trans show ?thesis by blast
qed

lemma metadata_step_table: "metadata_step le io s = Some s' \<Longrightarrow> table_of (the_torrent s') = table_of (the_torrent s)"
proof -
  have f: "table_of (t\<lparr>torrent_metadata := md\<rparr>) = table_of t" for t md by (simp add: table_of_def)
  assume "metadata_step le io s = Some s'"
  then show ?thesis
    by (auto simp: metadata_step_def Let_def f split: if_splits bind_splits dest!: process_metadata_table)
qed

lemma data_step_keeps:
  assumes "torrent_ok (the_torrent s)" "\<forall>ip. chunk_fetch (it_chunk io) ip" "data_step le io s = Some s'"
  shows "keeps (the_torrent s) (the_torrent s')"
proof -
  have f: "torrent_ok ((the_torrent s)\<lparr>torrent_content := td\<rparr>)" for td using assms(1) by (simp add: torrent_content_frame)
  show ?thesis
    using assms(3) f by (auto simp: data_step_def Let_def keeps_def torrent_content_frame split: if_splits bind_splits dest!: process_chunk_keeps [OF f assms(2)])
qed

lemma iteration_keeps:
  assumes ok: "torrent_ok (the_torrent s)" and g: "granted io s" and r: "main_iteration le debug io s = Some s'"
  shows "keeps (the_torrent s) (the_torrent s')"
proof -
  from r obtain s1 s2 s3 where s: "schedule_step debug io s = Some s1" "metadata_step le io s1 = Some s2" "data_step le io s2 = Some s3"
    "s' = key_step io s3"
    unfolding main_iteration_def by (auto split: bind_splits)
  note k1 = schedule_keeps [OF ok g s(1)]
  note k2 = table_of_keeps [OF metadata_step_table [OF s(2)] keeps_ok [OF k1]]
  have "keeps (the_torrent s2) (the_torrent s3)" using data_step_keeps [OF keeps_ok [OF k2] _ s(3)] g by (simp add: granted_def)
  moreover have "the_torrent s' = the_torrent s3" using s(4) by (simp add: key_step_def split: option.splits)
  ultimately show ?thesis using k1 k2 keeps_trans by metis
qed

subsection \<open>The whole run\<close>

text \<open>The jobs and signals between the iterations keep the table, and every iteration is granted its memory.\<close>

primrec granted_run :: "bool \<Rightarrow> int \<Rightarrow> ((main_state \<Rightarrow> main_state) \<times> iteration_io) list \<Rightarrow> main_state \<Rightarrow> bool" where
  "granted_run le debug [] s \<longleftrightarrow> True"
| "granted_run le debug (x # xs) s \<longleftrightarrow> keeps (the_torrent s) (the_torrent (fst x s)) \<and> granted (snd x) (fst x s)
     \<and> (case main_iteration le debug (snd x) (fst x s) of None \<Rightarrow> True | Some s' \<Rightarrow> granted_run le debug xs s')"

lemma main_loop_keeps:
  "torrent_ok (the_torrent s) \<Longrightarrow> granted_run le debug xs s \<Longrightarrow> main_loop le debug xs s = Some s' \<Longrightarrow> keeps (the_torrent s) (the_torrent s')"
proof (induction xs arbitrary: s)
  case Nil
  then show ?case by (simp add: keeps_refl split: if_splits)
next
  case (Cons x xs)
  then have k: "keeps (the_torrent s) (the_torrent (fst x s))" "granted (snd x) (fst x s)" by simp_all
  show ?case
  proof (cases "main_running (fst x s) = 0")
    case False
    with Cons.prems(3) obtain s1 where s1: "main_iteration le debug (snd x) (fst x s) = Some s1" "main_loop le debug xs s1 = Some s'"
      by (auto split: bind_splits)
    note k1 = iteration_keeps [OF keeps_ok [OF k(1)] k(2) s1(1)]
    have "keeps (the_torrent s1) (the_torrent s')" using Cons.IH [OF keeps_ok [OF k1] _ s1(2)] Cons.prems(2) s1(1) by simp
    with k(1) k1 keeps_trans show ?thesis by blast
  qed (use Cons.prems(3) k(1) in simp)
qed

text \<open>Without the memory of an entry, taking a peer out of the table and setting it again loses it: it stays in the
  list of the peers, and the next loop over them finds nothing under its key.\<close>

lemma fetch_without_memory_loses:
  assumes ok: "torrent_ok t" and ip: "ip \<in> set (peer_ips t)"
  shows "\<exists>a p t'. fetch_peer False t ip = Some (a, p, t') \<and> peer_ips t' = peer_ips t \<and> peer_addr t' ip = None \<and> fetch_peer m t' ip = None"
proof -
  from torrent_ok_live [OF ok ip] obtain a p where a: "peer_addr t ip = Some a" "peer_mem t a = Some p" "str_ip p = ip" by blast
  from ok obtain hm where hm: "peers t = Some hm" "hm_wf hm" by (auto simp: torrent_ok_def)
  then have "hm_lookup hm ip = Some a" using a(1) by (simp add: peer_addr_def)
  with hmi.take_law [OF hm(2), of ip] obtain m1 where m1: "hashmap_get hm ip = Some (Some a, m1)" "hm_wf m1" "hm_lookup m1 ip = None" by auto
  then have "hashmap_set False m1 ip a = Some (EXIT_FAILURE, m1)" by (simp add: hashmap_set_def hmi.has_law)
  then have f: "fetch_peer False t ip = Some (a, p, t\<lparr>peers := Some m1\<rparr>)" using hm m1 a by (simp add: fetch_peer_def)
  from hmi.take_law [OF m1(2), of ip] m1(3) have "fetch_peer m (t\<lparr>peers := Some m1\<rparr>) ip = None" by (auto simp: fetch_peer_def)
  with f m1(3) show ?thesis by (simp add: peer_addr_def)
qed

end
