(* ===== verification/Uvg_PeerIdentity.thy ===== *)
theory Uvg_PeerIdentity
  imports Uvg_PeerInvariant
begin

text \<open>
  The address text of a peer is its key in the table of the torrent and the list of the torrent shares
  its storage. No step of the job of a peer changes it; the collection \<open>same_ip\<close> holds the facts, one
  for each operation of a peer.
\<close>

named_theorems same_ip

lemma peer_write_ip [same_ip]: "peer_write w m p = Some (taken, p') \<Longrightarrow> str_ip p' = str_ip p"
  by (auto elim!: peer_writeD)

lemma peer_disconnect_ip [same_ip]: "peer_disconnect d p = Some p' \<Longrightarrow> str_ip p' = str_ip p"
  by (auto simp: peer_disconnect_def peer_reset_def split: bind_splits)

lemma peer_connect_ip [same_ip]: "peer_connect io p = Some (r, p') \<Longrightarrow> str_ip p' = str_ip p"
  by (auto simp: peer_connect_def Let_def split: bind_splits if_splits prod.splits option.splits)

lemma peer_send_handshake_ip [same_ip]: "peer_send_handshake w ih p = Some (r, p') \<Longrightarrow> str_ip p' = str_ip p"
  by (auto simp: peer_send_handshake_def split: bind_splits if_splits dest!: same_ip)

lemma peer_handle_handshake_ip [same_ip]: "peer_handle_handshake le rok ok em w ih n p = Some (r, p') \<Longrightarrow> str_ip p' = str_ip p"
  by (auto simp: peer_handle_handshake_def Let_def split: bind_splits if_splits prod.splits dest!: same_ip)

lemma peer_handle_network_buffers_ip [same_ip]: "peer_handle_network_buffers io d p = Some (r, p', out) \<Longrightarrow> str_ip p' = str_ip p"
  by (auto simp: peer_handle_network_buffers_def Let_def split: bind_splits if_splits prod.splits dest!: same_ip)

subsection \<open>Messages\<close>

lemma send_basic_ip [same_ip]: "send_basic le w i p = Some (r, p') \<Longrightarrow> str_ip p' = str_ip p"
  by (auto simp: send_basic_def split: bind_splits dest!: same_ip)

lemma peer_send_keepalive_ip [same_ip]: "peer_send_keepalive le w p = Some (r, p') \<Longrightarrow> str_ip p' = str_ip p"
  by (auto simp: peer_send_keepalive_def split: bind_splits dest!: same_ip)

lemma send_flags_ip [same_ip]:
  "peer_send_msg_choke le w p = Some (r, p') \<Longrightarrow> str_ip p' = str_ip p"
  "peer_send_msg_unchoke le w p = Some (r, p') \<Longrightarrow> str_ip p' = str_ip p"
  "peer_send_msg_not_interested le w p = Some (r, p') \<Longrightarrow> str_ip p' = str_ip p"
  "peer_send_msg_interested le w p = Some (r, p') \<Longrightarrow> str_ip p' = str_ip p"
  unfolding peer_send_msg_choke_def peer_send_msg_unchoke_def peer_send_msg_not_interested_def peer_send_msg_interested_def
  by (drule send_basic_ip, simp)+

lemma handle_flags_ip [simp]:
  "str_ip (peer_handle_msg_choke p) = str_ip p" "str_ip (peer_handle_msg_unchoke p) = str_ip p"
  "str_ip (peer_handle_msg_interested p) = str_ip p" "str_ip (peer_handle_msg_not_interested p) = str_ip p"
  "str_ip (peer_handle_ut_metadata_reject p) = str_ip p" "str_ip (peer_handle_msg_cancel p) = str_ip p"
  "str_ip (peer_handle_msg_port p) = str_ip p"
  by (simp_all add: peer_handle_msg_choke_def peer_handle_msg_unchoke_def peer_handle_msg_interested_def
      peer_handle_msg_not_interested_def peer_handle_ut_metadata_reject_def peer_handle_msg_cancel_def peer_handle_msg_port_def)

lemma peer_update_interested_ip [same_ip]: "peer_update_interested le w td p = Some p' \<Longrightarrow> str_ip p' = str_ip p"
  by (auto simp: peer_update_interested_def split: bind_splits option.splits if_splits dest!: same_ip)

lemma send_have_loop_ip [same_ip]: "send_have_loop le ws p = Some (b, p') \<Longrightarrow> str_ip p' = str_ip p"
proof (induction ws arbitrary: p)
  case (Cons w ws)
  from Cons.prems show ?case by (auto split: bind_splits if_splits dest!: Cons.IH same_ip)
qed (auto split: if_splits)

lemma peer_send_msg_have_ip [same_ip]: "peer_send_msg_have le ws w td p = Some (r, p') \<Longrightarrow> str_ip p' = str_ip p"
  by (auto simp: peer_send_msg_have_def split: bind_splits if_splits dest!: same_ip)

lemma peer_handle_msg_have_ip [same_ip]: "peer_handle_msg_have le bm w m td p = Some p' \<Longrightarrow> str_ip p' = str_ip p"
  by (auto simp: peer_handle_msg_have_def split: bind_splits option.splits if_splits dest!: same_ip)

lemma peer_handle_msg_bitfield_ip [same_ip]: "peer_handle_msg_bitfield le bm w m td p = Some (r, p') \<Longrightarrow> str_ip p' = str_ip p"
  by (auto simp: peer_handle_msg_bitfield_def Let_def split: bind_splits if_splits dest!: same_ip)

lemma resize_peer_bitfield_ip [same_ip]: "resize_peer_bitfield nm td b p = Some p' \<Longrightarrow> str_ip p' = str_ip p"
  by (auto simp: resize_peer_bitfield_def split: bind_splits option.splits if_splits)

lemma peer_send_msg_bitfield_ip [same_ip]: "peer_send_msg_bitfield le m1 m2 m3 w td p = Some (r, p') \<Longrightarrow> str_ip p' = str_ip p"
  by (auto simp: peer_send_msg_bitfield_def Let_def split: bind_splits if_splits dest!: same_ip)

lemma request_loop_ip [same_ip]: "request_loop le ws td cids k p = Some (b, p') \<Longrightarrow> str_ip p' = str_ip p"
proof (induction cids arbitrary: k p)
  case (Cons c cids)
  from Cons.prems show ?case by (auto split: bind_splits if_splits dest!: Cons.IH same_ip)
qed simp

lemma peer_send_msg_request_ip [same_ip]: "peer_send_msg_request le io td p = Some (r, p', td') \<Longrightarrow> str_ip p' = str_ip p"
  by (auto simp: peer_send_msg_request_def Let_def split: bind_splits if_splits dest!: same_ip)

lemma peer_handle_msg_request_ip [same_ip]: "peer_handle_msg_request le io m td disk p = Some (r, p') \<Longrightarrow> str_ip p' = str_ip p"
  by (auto simp: peer_handle_msg_request_def Let_def split: bind_splits if_splits dest!: same_ip)

lemma peer_handle_msg_piece_ip [same_ip]: "peer_handle_msg_piece node m q p = Some (p', q') \<Longrightarrow> str_ip p' = str_ip p"
  by (auto simp: peer_handle_msg_piece_def split: bind_splits)

subsection \<open>Reading\<close>

lemma disconnect_null_ip [same_ip]: "disconnect_null d p = Some (m, p') \<Longrightarrow> str_ip p' = str_ip p"
  by (auto simp: disconnect_null_def dest!: same_ip)

lemma load_msg_body_ip [same_ip]: "load_msg_body le io d p = Some (m, p') \<Longrightarrow> str_ip p' = str_ip p"
  by (auto simp: load_msg_body_def Let_def split: if_splits prod.splits dest!: same_ip)

lemma load_msg_id_ip:
  "load_msg_id io d cont p = Some (m, p') \<Longrightarrow> (\<And>q. cont q = Some (m, p') \<Longrightarrow> str_ip p' = str_ip q) \<Longrightarrow> str_ip p' = str_ip p"
  by (fastforce simp: load_msg_id_def Let_def split: if_splits prod.splits dest!: same_ip)

lemma load_msg_length_ip:
  "load_msg_length le io d cont p = Some (m, p') \<Longrightarrow> (\<And>q. cont q = Some (m, p') \<Longrightarrow> str_ip p' = str_ip q) \<Longrightarrow> str_ip p' = str_ip p"
  by (fastforce simp: load_msg_length_def Let_def split: if_splits prod.splits dest!: same_ip)

lemma peer_read_message_ip [same_ip]: "peer_read_message le io d p = Some (m, p') \<Longrightarrow> str_ip p' = str_ip p"
  unfolding peer_read_message_def by (erule load_msg_length_ip, erule load_msg_id_ip, erule load_msg_body_ip)

subsection \<open>The metadata extension\<close>

lemma peer_handle_ut_metadata_handshake_ip [same_ip]: "peer_handle_ut_metadata_handshake le ok m p = Some (r, p') \<Longrightarrow> str_ip p' = str_ip p"
  by (auto simp: peer_handle_ut_metadata_handshake_def split: bind_splits sum.splits option.splits)

lemma peer_handle_ut_metadata_request_ip [same_ip]: "peer_handle_ut_metadata_request le io c td disk p = Some (r, p') \<Longrightarrow> str_ip p' = str_ip p"
  by (auto simp: peer_handle_ut_metadata_request_def Let_def split: bind_splits if_splits dest!: same_ip)

lemma peer_send_ut_metadata_request_ip [same_ip]: "peer_send_ut_metadata_request le io td p = Some (r, p', td') \<Longrightarrow> str_ip p' = str_ip p"
  by (auto simp: peer_send_ut_metadata_request_def Let_def split: bind_splits if_splits dest!: same_ip)

lemma peer_handle_msg_extension_ip [same_ip]: "peer_handle_msg_extension le ok io node d m sh p = Some (r, p', sh') \<Longrightarrow> str_ip p' = str_ip p"
  unfolding peer_handle_msg_extension_def
  by (auto split: bind_splits if_splits sum.splits dest!: same_ip)

lemma dispatch_message_ip [same_ip]: "dispatch_message le io m sh p = Some (p', sh') \<Longrightarrow> str_ip p' = str_ip p"
  unfolding dispatch_message_def by (auto split: bind_splits if_splits dest!: same_ip)

subsection \<open>The steps of the job\<close>

definition step_same_ip :: "run_step \<Rightarrow> bool" where
  "step_same_ip f \<longleftrightarrow> (\<forall>p sh out go p' sh' out'. f (p, sh, out) = Some (go, p', sh', out') \<longrightarrow> str_ip p' = str_ip p)"

lemma step_same_ipI:
  "(\<And>p sh out go p' sh' out'. f (p, sh, out) = Some (go, p', sh', out') \<Longrightarrow> str_ip p' = str_ip p) \<Longrightarrow> step_same_ip f"
  unfolding step_same_ip_def by blast

lemma step_same_ipD: "step_same_ip f \<Longrightarrow> f (p, sh, out) = Some (go, p', sh', out') \<Longrightarrow> str_ip p' = str_ip p"
  unfolding step_same_ip_def by blast

lemma run_step_same_ip:
  "step_same_ip (run_connect io)" "step_same_ip (run_network t a d)"
  "step_same_ip (run_send_handshake io ih)" "step_same_ip (run_handle_handshake le io ih)"
  "step_same_ip (run_send_have le io)" "step_same_ip (run_send_bitfield le io)"
  "step_same_ip (run_metadata_request le io)" "step_same_ip (run_request le io)"
  "step_same_ip (run_choke le io)" "step_same_ip (run_read_message le io)"
  "step_same_ip (run_keepalive le io)" "step_same_ip (run_timeout io)"
  by (rule step_same_ipI; auto simp: run_connect_def run_network_def run_send_handshake_def run_handle_handshake_def
      run_send_have_def run_send_bitfield_def run_metadata_request_def run_request_def run_choke_def
      run_read_message_def run_keepalive_def run_timeout_def
      split: if_splits bind_splits option.splits dest!: same_ip)+

lemma peer_run_steps_same_ip: "f \<in> set (peer_run_steps le io ih) \<Longrightarrow> step_same_ip f"
  by (auto simp: peer_run_steps_def run_step_same_ip)

end
