(* ===== verification/Uvg_Program.thy ===== *)
theory Uvg_Program
  imports Uvg_MainInvariant Uvg_PeerIdentity
begin

text \<open>
  The running program: the main thread and the workers of the pool on the shared state. An iteration of
  the main loop is one step; a worker takes a job from the queue of the pool and then runs it, the job of
  a peer as the thirteen steps of \<open>peer_run\<close>, between which the main thread and the other workers may act.
  The theorems are about every interleaving, from the start of the program on.
\<close>

subsection \<open>Jobs and workers\<close>

definition peer_task :: "addr \<Rightarrow> t_job" where
  "peer_task a = \<lparr>execute = PeerRun, arg_count = 6, args = peer_job a\<rparr>"

definition tracker_task :: "nat \<Rightarrow> t_job" where
  "tracker_task i = \<lparr>execute = TrackerRun, arg_count = 5, args = tracker_job i\<rparr>"

definition listen_task :: t_job where
  "listen_task = \<lparr>execute = ListenForPeers, arg_count = 2, args = [ArgTorrent, ArgPeerQueue]\<rparr>"

text \<open>What a worker is doing: the rest of a run of a peer, with the bytes sent so far; a tracker; listening.\<close>

datatype activity =
    RunPeer addr "run_step list" "u8 list"
  | RunTracker nat
  | RunListen

record program =
  prog_main :: main_state
  active :: "activity list"

text \<open>A worker takes a job: \<open>sem_wait\<close>, the test of the count, \<open>queue_pop\<close>.\<close>

definition take_job :: "t_job pool \<Rightarrow> (t_job \<times> t_job pool) option" where
  "take_job p = (if blocked (WWait :: t_job worker) p then None
     else do {
       (w, p) \<leftarrow> thread_handle WWait p;
       (w, p) \<leftarrow> thread_handle w p;
       (w, p) \<leftarrow> thread_handle w p;
       (case w of WRun j \<Rightarrow> Some (j, p) | _ \<Rightarrow> None)
     })"

text \<open>\<open>job_execute\<close> calls the function with its arguments; the job of a peer copies the info hash first.\<close>

definition begin_job :: "bool \<Rightarrow> run_io \<Rightarrow> torrent \<Rightarrow> t_job \<Rightarrow> activity option" where
  "begin_job le io t j = (case execute j of
      PeerRun \<Rightarrow> (case args j of ArgPeer a # _ \<Rightarrow> Some (RunPeer a (peer_run_steps le io (info_hash_hex t)) []) | _ \<Rightarrow> None)
    | TrackerRun \<Rightarrow> (case args j of ArgTracker i # _ \<Rightarrow> Some (RunTracker i) | _ \<Rightarrow> None)
    | ListenForPeers \<Rightarrow> Some RunListen)"

text \<open>What the arguments of \<open>peer_run\<close> point at, and the state after a step has changed it.\<close>

definition shared_of :: "main_state \<Rightarrow> shared" where
  "shared_of m = \<lparr>metadata = torrent_metadata (the_torrent m), content = torrent_content (the_torrent m), sdisk = main_disk m,
     metadata_queue = main_metadata_queue m, data_queue = main_data_queue m\<rparr>"

definition put_run :: "addr \<Rightarrow> peer \<Rightarrow> shared \<Rightarrow> main_state \<Rightarrow> main_state" where
  "put_run a p sh m = m\<lparr>the_torrent := (set_peer a p (the_torrent m))\<lparr>torrent_metadata := metadata sh, torrent_content := content sh\<rparr>,
     main_disk := sdisk sh, main_metadata_queue := metadata_queue sh, main_data_queue := data_queue sh\<rparr>"

definition set_tracker :: "nat \<Rightarrow> tracker \<Rightarrow> torrent \<Rightarrow> torrent" where
  "set_tracker i tr t = t\<lparr>trackers := (trackers t)[i := Some tr]\<rparr>"

text \<open>The nodes of the queue of the pool that an iteration may allocate, by tracker and by peer: not in
  use, and different from each other.\<close>

definition spawn_node :: "iteration_io \<Rightarrow> nat + string \<Rightarrow> addr option" where
  "spawn_node io = case_sum (\<lambda>i. job_node (it_trackers io i)) (\<lambda>ip. job_node (it_peers io ip))"

definition nodes_granted :: "(nat + string \<Rightarrow> addr option) \<Rightarrow> (nat + string) set \<Rightarrow> t_job queue \<Rightarrow> bool" where
  "nodes_granted N U q \<longleftrightarrow> (\<forall>x. x \<notin> U \<longrightarrow> node_fresh (N x) q) \<and> (\<forall>x y. N x = N y \<longrightarrow> x = y \<or> N x = None)"

subsection \<open>The steps\<close>

inductive prog_step :: "bool \<Rightarrow> int \<Rightarrow> program \<Rightarrow> program \<Rightarrow> bool" for le :: bool and debug :: int where
  iterate: "main_running (prog_main s) \<noteq> 0 \<Longrightarrow> granted io (prog_main s) \<Longrightarrow>
    nodes_granted (spawn_node io) {} (job_queue (tp (prog_main s))) \<Longrightarrow>
    main_iteration le debug io (prog_main s) = Some m \<Longrightarrow>
    prog_step le debug s (s\<lparr>prog_main := m\<rparr>)"
| signal: "prog_step le debug s (s\<lparr>prog_main := (prog_main s)\<lparr>main_running := 0\<rparr>\<rparr>)"
| take: "int (length (active s)) < thread_count (tp (prog_main s)) \<Longrightarrow> take_job (tp (prog_main s)) = Some (j, p) \<Longrightarrow> begin_job le io (the_torrent (prog_main s)) j = Some act \<Longrightarrow>
    prog_step le debug s (s\<lparr>prog_main := (prog_main s)\<lparr>tp := p\<rparr>, active := active s @ [act]\<rparr>)"
| peer: "active s = as @ RunPeer a (f # fs) out # bs \<Longrightarrow> peer_mem (the_torrent (prog_main s)) a = Some p \<Longrightarrow>
    f (p, shared_of (prog_main s), out) = Some (go, p', sh, out') \<Longrightarrow>
    prog_step le debug s (s\<lparr>prog_main := put_run a p' sh (prog_main s), active := as @ RunPeer a (if go then fs else []) out' # bs\<rparr>)"
| peer_end: "active s = as @ RunPeer a [] out # bs \<Longrightarrow> peer_mem (the_torrent (prog_main s)) a = Some p \<Longrightarrow>
    prog_step le debug s (s\<lparr>prog_main := put_run a (p\<lparr>running := 0\<rparr>) (shared_of (prog_main s)) (prog_main s), active := as @ bs\<rparr>)"
| tracker: "active s = as @ RunTracker i # bs \<Longrightarrow> i < length (trackers (the_torrent (prog_main s))) \<Longrightarrow>
    trackers (the_torrent (prog_main s)) ! i = Some tr \<Longrightarrow>
    tracker_run le io (torrent_content (the_torrent (prog_main s))) (t_port (the_torrent (prog_main s)))
      (info_hash_hex (the_torrent (prog_main s))) (peer_queue (prog_main s)) tr = Some (r, tr', q, sent) \<Longrightarrow>
    prog_step le debug s (s\<lparr>prog_main := (prog_main s)\<lparr>the_torrent := set_tracker i tr' (the_torrent (prog_main s)), peer_queue := q\<rparr>,
      active := as @ bs\<rparr>)"
| accept: "RunListen \<in> set (active s) \<Longrightarrow> accept_peer le io (peer_queue (prog_main s)) = Some q \<Longrightarrow>
    prog_step le debug s (s\<lparr>prog_main := (prog_main s)\<lparr>peer_queue := q\<rparr>\<rparr>)"
| listen_end: "active s = as @ RunListen # bs \<Longrightarrow> prog_step le debug s (s\<lparr>active := as @ bs\<rparr>)"

text \<open>A worker that runs the steps of a peer without interruption computes \<open>peer_run\<close>.\<close>

lemma put_run_fields [simp]:
  "peer_mem (the_torrent (put_run a p sh m)) = (peer_mem (the_torrent m))(a \<mapsto> p)"
  "shared_of (put_run a p sh m) = sh" "put_run a p' sh' (put_run a p sh m) = put_run a p' sh' m"
  by (simp_all add: put_run_def shared_of_def set_peer_def)

lemma run_alone_steps:
  assumes "run_steps fs (p, shared_of (prog_main s), out) = Some (go, p', sh, out')"
    and "active s = as @ RunPeer a fs out # bs" "peer_mem (the_torrent (prog_main s)) a = Some p"
  shows "(prog_step le debug)\<^sup>*\<^sup>* s (s\<lparr>prog_main := put_run a (p'\<lparr>running := 0\<rparr>) sh (prog_main s), active := as @ bs\<rparr>)"
  using assms
proof (induction fs arbitrary: s p out)
  case Nil
  then have "prog_step le debug s (s\<lparr>prog_main := put_run a (p'\<lparr>running := 0\<rparr>) sh (prog_main s), active := as @ bs\<rparr>)"
    using peer_end [OF Nil.prems(2,3), of le debug] by simp
  then show ?case by simp
next
  case (Cons f fs)
  from Cons.prems(1) obtain g p1 sh1 out1 where f: "f (p, shared_of (prog_main s), out) = Some (g, p1, sh1, out1)"
    and rest: "(if g then run_steps fs (p1, sh1, out1) else Some (False, p1, sh1, out1)) = Some (go, p', sh, out')"
    by (auto split: bind_splits)
  let ?s = "s\<lparr>prog_main := put_run a p1 sh1 (prog_main s), active := as @ RunPeer a (if g then fs else []) out1 # bs\<rparr>"
  have st: "prog_step le debug s ?s" using peer [OF Cons.prems(2,3) f] .
  show ?case
  proof (cases g)
    case True
    from Cons.IH [of p1 ?s out1] rest True
    have "(prog_step le debug)\<^sup>*\<^sup>* ?s (?s\<lparr>prog_main := put_run a (p'\<lparr>running := 0\<rparr>) sh (prog_main ?s), active := as @ bs\<rparr>)" by simp
    with st show ?thesis by (simp add: converse_rtranclp_into_rtranclp)
  next
    case False
    have "prog_step le debug ?s (?s\<lparr>prog_main := put_run a (p1\<lparr>running := 0\<rparr>) (shared_of (prog_main ?s)) (prog_main ?s), active := as @ bs\<rparr>)"
      by (rule peer_end [where out = out1]) (use False in simp_all)
    with st rest False show ?thesis by (simp add: converse_rtranclp_into_rtranclp)
  qed
qed

subsection \<open>The queue of the pool\<close>

lemma peer_task_inject [simp]: "peer_task a = peer_task b \<longleftrightarrow> a = b"
  by (simp add: peer_task_def peer_job_def)

lemma task_distinct [simp]: "peer_task a \<noteq> tracker_task i" "peer_task a \<noteq> listen_task"
  by (simp_all add: peer_task_def tracker_task_def listen_task_def)

lemma add_job_effect:
  assumes add: "thread_pool_add_job c node j p = Some (r, p')" and q: "queue_rep (job_queue p) js" and node: "node_fresh node (job_queue p)"
  shows "(queue_rep (job_queue p') js \<or> queue_rep (job_queue p') (js @ [j]))
    \<and> (\<forall>b. node_fresh b (job_queue p) \<longrightarrow> b = None \<or> b \<noteq> node \<longrightarrow> node_fresh b (job_queue p'))"
proof (cases node)
  case None
  with add q show ?thesis
    by (auto simp: thread_pool_add_job_def start_thread_def push_job_def sem_post_def queue_push_def split: if_splits)
next
  case (Some a)
  with node have a: "fresh_in (nodes (job_queue p)) a" by (simp add: node_fresh_def)
  from qi.push_law [OF q a, of j] obtain q' where q': "queue_push (job_queue p) (Some a) j = Some (EXIT_SUCCESS, q')" "queue_rep q' (js @ [j])"
    by blast
  have f: "node_fresh b q'" if "node_fresh b (job_queue p)" "b = None \<or> b \<noteq> node" for b
    using that queue_push_nodes [OF q'(1)] Some by (auto simp: node_fresh_def)
  from add Some q' q f show ?thesis
    by (auto simp: thread_pool_add_job_def start_thread_def push_job_def sem_post_def split: if_splits)
qed

lemma job_new_task:
  "job_new b PeerRun 6 (peer_job a) = Some j \<Longrightarrow> j = None \<or> j = Some (peer_task a)"
  "job_new b TrackerRun 5 (tracker_job i) = Some j \<Longrightarrow> j = None \<or> j = Some (tracker_task i)"
  "job_new b ListenForPeers 2 [ArgTorrent, ArgPeerQueue] = Some j \<Longrightarrow> j = None \<or> j = Some listen_task"
  by (auto simp: job_new_def job_free_def peer_task_def peer_job_def tracker_task_def tracker_job_def listen_task_def
      numeral_eq_Suc split: if_splits)

text \<open>One job is added or not, for the key \<open>x\<close> whose node has not been used yet.\<close>

lemma add_key:
  assumes "thread_pool_add_job c (N x) j p = Some (r, p')" "queue_rep (job_queue p) js" "nodes_granted N U (job_queue p)" "x \<notin> U"
  shows "\<exists>new. set new \<subseteq> {j} \<and> length new \<le> 1 \<and> queue_rep (job_queue p') (js @ new) \<and> nodes_granted N (insert x U) (job_queue p')"
proof -
  have n: "node_fresh (N x) (job_queue p)" using assms(3,4) by (simp add: nodes_granted_def)
  note e = add_job_effect [OF assms(1,2) n]
  have "node_fresh (N y) (job_queue p')" if "y \<noteq> x" "y \<notin> U" for y
  proof -
    have "N y = None \<or> N y \<noteq> N x" using assms(3) that(1) unfolding nodes_granted_def by metis
    moreover have "node_fresh (N y) (job_queue p)" using assms(3) that(2) by (simp add: nodes_granted_def)
    ultimately show ?thesis using e by blast
  qed
  then have "nodes_granted N (insert x U) (job_queue p')" using assms(3) by (simp add: nodes_granted_def)
  with e show ?thesis by (auto intro: exI [of _ "[]"] exI [of _ "[j]"])
qed

subsection \<open>Busy trackers\<close>

fun task_tracker :: "t_job \<Rightarrow> nat list" where
  "task_tracker j = (case (execute j, args j) of (TrackerRun, ArgTracker i # _) \<Rightarrow> [i] | _ \<Rightarrow> [])"

fun activity_tracker :: "activity \<Rightarrow> nat list" where
  "activity_tracker (RunTracker i) = [i]"
| "activity_tracker _ = []"

text \<open>The trackers that have a job, queued or running.\<close>

definition busy :: "t_job list \<Rightarrow> activity list \<Rightarrow> nat list" where
  "busy js acts = concat (map task_tracker js) @ concat (map activity_tracker acts)"

lemma task_tracker_simps [simp]:
  "task_tracker (tracker_task i) = [i]" "task_tracker (peer_task a) = []" "task_tracker listen_task = []"
  by (simp_all add: tracker_task_def tracker_job_def peer_task_def listen_task_def)

declare task_tracker.simps [simp del]

definition busy_ok :: "torrent \<Rightarrow> nat list \<Rightarrow> bool" where
  "busy_ok t is \<longleftrightarrow> distinct is
     \<and> (\<forall>i \<in> set is. i < length (trackers t) \<and> (\<exists>tr. trackers t ! i = Some tr \<and> tracker_running tr = 1))"

lemma run_tracker_busy:
  assumes run: "run_tracker io now i (t, p) = Some (b, t', p')" and node: "job_node io = N (Inl i)"
    and q: "queue_rep (job_queue p) js" "nodes_granted N U (job_queue p)" "Inl i \<notin> U" and ok: "busy_ok t (busy js acts)"
  shows "\<exists>new. set new \<subseteq> {tracker_task i} \<and> queue_rep (job_queue p') (js @ new) \<and> nodes_granted N (insert (Inl i) U) (job_queue p')
    \<and> busy_ok t' (busy (js @ new) acts)"
proof -
  from run obtain tr where tr: "i < length (trackers t)" "trackers t ! i = Some tr"
    by (auto simp: run_tracker_def split: bind_splits if_splits)
  show ?thesis
  proof (cases "tracker_should_run (fst now) (snd now) tr")
    case False
    with run tr q ok show ?thesis
      by (intro exI [of _ "[]"]) (auto simp: run_tracker_def nodes_granted_def)
  next
    case True
    let ?t = "t\<lparr>trackers := (trackers t)[i := Some (tr\<lparr>tracker_running := 1\<rparr>)]\<rparr>"
    have i: "i \<notin> set (busy js acts)" using True ok tr by (auto simp: busy_ok_def tracker_should_run_def)
    have ok1: "busy_ok ?t (busy js acts)" using ok i by (auto simp: busy_ok_def) (metis nth_list_update_neq)
    have ok2: "busy_ok ?t (busy (js @ [tracker_task i]) acts)" using ok1 i tr by (auto simp: busy_ok_def busy_def)
    from run True tr consider "t' = ?t" "p' = p"
      | r where "t' = ?t" "thread_pool_add_job (spawn_create io) (N (Inl i)) (tracker_task i) p = Some (r, p')"
      by (auto simp: run_tracker_def node Let_def split: bind_splits option.splits dest!: job_new_task)
    then show ?thesis
    proof cases
      case 1
      with q ok1 show ?thesis by (intro exI [of _ "[]"]) (auto simp: nodes_granted_def)
    next
      case (2 r)
      from add_key [OF 2(2) q] obtain new where new: "set new \<subseteq> {tracker_task i}" "length new \<le> 1"
        "queue_rep (job_queue p') (js @ new)" "nodes_granted N (insert (Inl i) U) (job_queue p')" by blast
      then have "new = [] \<or> new = [tracker_task i]" by (cases new) auto
      with new ok1 ok2 2(1) show ?thesis by auto
    qed
  qed
qed

lemma run_trackers_busy:
  assumes "run_trackers_loop io now is (t, p) = Some (r, t', p')" "\<forall>i. job_node (io i) = N (Inl i)" "distinct is"
    and "queue_rep (job_queue p) js" "nodes_granted N U (job_queue p)" "\<forall>i \<in> set is. Inl i \<notin> U" "busy_ok t (busy js acts)"
  shows "\<exists>new. set new \<subseteq> range tracker_task \<and> queue_rep (job_queue p') (js @ new) \<and> nodes_granted N (U \<union> range Inl) (job_queue p')
    \<and> busy_ok t' (busy (js @ new) acts)"
  using assms
proof (induction "is" arbitrary: t p js U)
  case Nil
  then show ?case by (intro exI [of _ "[]"]) (auto simp: nodes_granted_def)
next
  case (Cons i "is")
  from Cons.prems(1) obtain b t1 p1 where s: "run_tracker (io i) (now i) i (t, p) = Some (b, t1, p1)"
    "if b then run_trackers_loop io now is (t1, p1) = Some (r, t', p') else t' = t1 \<and> p' = p1"
    by (auto split: bind_splits if_splits)
  have u: "Inl i \<notin> U" "job_node (io i) = N (Inl i)" using Cons.prems by auto
  from run_tracker_busy [OF s(1) u(2) Cons.prems(4,5) u(1) Cons.prems(7)] obtain n1 where n1: "set n1 \<subseteq> {tracker_task i}"
    "queue_rep (job_queue p1) (js @ n1)" "nodes_granted N (insert (Inl i) U) (job_queue p1)" "busy_ok t1 (busy (js @ n1) acts)" by blast
  show ?case
  proof (cases b)
    case True
    with s(2) have "run_trackers_loop io now is (t1, p1) = Some (r, t', p')" by simp
    from Cons.IH [OF this Cons.prems(2) _ n1(2,3) _ n1(4)] Cons.prems(3,6) obtain n2 where n2: "set n2 \<subseteq> range tracker_task"
      "queue_rep (job_queue p') ((js @ n1) @ n2)" "nodes_granted N (insert (Inl i) U \<union> range Inl) (job_queue p')"
      "busy_ok t' (busy ((js @ n1) @ n2) acts)" by auto
    moreover have "insert (Inl i) U \<union> range Inl = U \<union> range Inl" by auto
    ultimately show ?thesis using n1(1) by (intro exI [of _ "n1 @ n2"]) auto
  next
    case False
    with s(2) n1 show ?thesis by (intro exI [of _ n1]) (auto simp: nodes_granted_def)
  qed
qed

subsection \<open>Jobs of peers\<close>

lemma run_peer_jobs:
  assumes run: "run_peer io ip (t, p) = Some (b, t', p')" and node: "job_node io = N (Inr ip)" "item_ok io"
    and t: "torrent_ok t" "ip \<in> set (peer_ips t)" and q: "queue_rep (job_queue p) js" "nodes_granted N U (job_queue p)" "Inr ip \<notin> U"
  shows "\<exists>new. set new \<subseteq> peer_task ` ran (peer_addr t) \<and> queue_rep (job_queue p') (js @ new) \<and> nodes_granted N (insert (Inr ip) U) (job_queue p')"
proof -
  from run node obtain a x t1 where f: "fetch_peer True t ip = Some (a, x, t1)"
    and "p' = p \<or> (\<exists>r. thread_pool_add_job (spawn_create io) (N (Inr ip)) (peer_task a) p = Some (r, p'))"
    by (auto simp: run_peer_def Let_def split: bind_splits if_splits option.splits dest!: job_new_task)
  then consider "p' = p" | r where "thread_pool_add_job (spawn_create io) (N (Inr ip)) (peer_task a) p = Some (r, p')" by blast
  then show ?thesis
  proof cases
    case 1
    with q show ?thesis by (intro exI [of _ "[]"]) (auto simp: nodes_granted_def)
  next
    case (2 r)
    have "a \<in> ran (peer_addr t)" using fetch_peer_keeps(5) [OF t f] by (rule ranI)
    with add_key [OF 2 q] show ?thesis by blast
  qed
qed

lemma run_peers_jobs:
  assumes "run_peers_loop io ips (t, p) = Some (r, t', p')" "\<forall>ip. job_node (io ip) = N (Inr ip) \<and> item_ok (io ip)" "distinct ips"
    and "torrent_ok t" "set ips \<subseteq> set (peer_ips t)" "queue_rep (job_queue p) js" "nodes_granted N U (job_queue p)" "\<forall>ip \<in> set ips. Inr ip \<notin> U"
  shows "\<exists>new. set new \<subseteq> peer_task ` ran (peer_addr t) \<and> queue_rep (job_queue p') (js @ new)"
  using assms
proof (induction ips arbitrary: t p js U)
  case Nil
  then show ?case by (intro exI [of _ "[]"]) auto
next
  case (Cons ip ips)
  from Cons.prems(1) obtain b t1 p1 where s: "run_peer (io ip) ip (t, p) = Some (b, t1, p1)"
    "if b then run_peers_loop io ips (t1, p1) = Some (r, t', p') else t' = t1 \<and> p' = p1"
    by (auto split: bind_splits if_splits)
  have ip: "job_node (io ip) = N (Inr ip)" "item_ok (io ip)" "ip \<in> set (peer_ips t)" "Inr ip \<notin> U" using Cons.prems by auto
  from run_peer_jobs [OF s(1) ip(1,2) Cons.prems(4) ip(3) Cons.prems(6,7) ip(4)] obtain n1 where n1: "set n1 \<subseteq> peer_task ` ran (peer_addr t)"
    "queue_rep (job_queue p1) (js @ n1)" "nodes_granted N (insert (Inr ip) U) (job_queue p1)" by blast
  have t1: "torrent_ok t1" "peer_ips t1 = peer_ips t" "peer_addr t1 = peer_addr t"
    using run_peer_keeps [OF Cons.prems(4) ip(3,2) s(1)] by auto
  show ?case
  proof (cases b)
    case True
    with s(2) have "run_peers_loop io ips (t1, p1) = Some (r, t', p')" by simp
    from Cons.IH [OF this Cons.prems(2) _ t1(1) _ n1(2,3)] Cons.prems(3,5,8) t1(2) obtain n2 where
      "set n2 \<subseteq> peer_task ` ran (peer_addr t1)" "queue_rep (job_queue p') ((js @ n1) @ n2)" by auto
    with n1(1) t1(3) show ?thesis by (intro exI [of _ "n1 @ n2"]) auto
  qed (use s(2) n1 in auto)
qed

subsection \<open>Jobs of an iteration\<close>

lemma peer_task_tracker: "set new \<subseteq> peer_task ` A \<Longrightarrow> concat (map task_tracker new) = []"
  by (induction new) auto

lemma schedule_jobs:
  assumes ok: "torrent_ok (the_torrent m)" and g: "granted io m" "nodes_granted (spawn_node io) {} (job_queue (tp m))"
    and r: "schedule_step debug io m = Some m'" and q: "queue_rep (job_queue (tp m)) js" and b: "busy_ok (the_torrent m) (busy js acts)"
  shows "\<exists>new. queue_rep (job_queue (tp m')) (js @ new) \<and> set new \<subseteq> range tracker_task \<union> peer_task ` ran (peer_addr (the_torrent m'))
    \<and> busy_ok (the_torrent m') (busy (js @ new) acts)"
proof -
  let ?N = "spawn_node io"
  from r obtain t1 p1 t2 q2 r3 t3 r4 t4 p4 where
    t1: "(if debug = 0 then map_option snd (torrent_run_trackers (it_trackers io) (it_times io) (the_torrent m, tp m))
          else Some (the_torrent m, tp m)) = Some (t1, p1)"
    and t2: "collect_peers (it_add io) 0 (t1, peer_queue m) = Some (t2, q2)"
    and t3: "torrent_assign_upload_slots (it_slots io) t2 = Some (r3, t3)"
    and t4: "torrent_run_peers (it_peers io) (t3, p1) = Some (r4, t4, p4)" and m': "the_torrent m' = t4" "tp m' = p4"
    unfolding schedule_step_def by (auto split: bind_splits)
  have N: "\<forall>i. job_node (it_trackers io i) = ?N (Inl i)" "\<forall>ip. job_node (it_peers io ip) = ?N (Inr ip) \<and> item_ok (it_peers io ip)"
    using g(1) by (simp_all add: spawn_node_def granted_def)
  have "\<exists>new. set new \<subseteq> range tracker_task \<and> queue_rep (job_queue p1) (js @ new) \<and> nodes_granted ?N (range Inl) (job_queue p1)
      \<and> busy_ok t1 (busy (js @ new) acts)"
  proof (cases "debug = 0")
    case True
    with t1 obtain r where "run_trackers_loop (it_trackers io) (it_times io) [0..<tracker_count (the_torrent m)] (the_torrent m, tp m) = Some (r, t1, p1)"
      by (auto simp: torrent_run_trackers_def)
    from run_trackers_busy [OF this N(1) _ q g(2) _ b] show ?thesis by simp
  next
    case False
    with t1 q b g(2) show ?thesis by (intro exI [of _ "[]"]) (auto simp: nodes_granted_def)
  qed
  then obtain n1 where n1: "set n1 \<subseteq> range tracker_task" "queue_rep (job_queue p1) (js @ n1)" "nodes_granted ?N (range Inl) (job_queue p1)"
    "busy_ok t1 (busy (js @ n1) acts)" by blast
  have tab: "table_of t1 = table_of (the_torrent m)"
    using t1 by (auto simp: torrent_run_trackers_def split: if_splits dest: run_trackers_table)
  have "peer_mem t1 = peer_mem (the_torrent m)" "peer_ips t1 = peer_ips (the_torrent m)" using tab by (simp_all add: table_of_def)
  then have k2: "keeps t1 t2" using collect_peers_keeps [OF table_of_ok [OF tab ok] _ _ t2] g(1) by (simp add: granted_def)
  have k3: "torrent_ok t3" using assign_slots_keeps [OF keeps_ok [OF k2] _ t3] g(1) by (simp add: granted_def)
  have l: "run_peers_loop (it_peers io) (peer_ips t3) (t3, p1) = Some (r4, t4, p4)" using t4 by (simp add: torrent_run_peers_def)
  have d: "distinct (peer_ips t3)" using k3 by (simp add: torrent_ok_def)
  have u: "\<forall>ip \<in> set (peer_ips t3). Inr ip \<notin> range Inl" by auto
  from run_peers_jobs [OF l N(2) d k3 subset_refl n1(2,3) u] obtain n2 where
    n2: "set n2 \<subseteq> peer_task ` ran (peer_addr t3)" "queue_rep (job_queue p4) ((js @ n1) @ n2)" by auto
  have a: "peer_addr t4 = peer_addr t3" using run_peers_loop_keeps [OF k3 subset_refl _ l] N(2) by simp
  have "trackers t4 = trackers t1" using collect_peers_trackers [OF t2] assign_slots_trackers [OF t3] run_peers_trackers [OF l] by simp
  moreover have "busy (js @ n1 @ n2) acts = busy (js @ n1) acts" using peer_task_tracker [OF n2(1)] by (simp add: busy_def)
  ultimately have "busy_ok t4 (busy (js @ n1 @ n2) acts)" using n1(4) by (simp add: busy_ok_def)
  then show ?thesis using n1(1) n2 a m' by (intro exI [of _ "n1 @ n2"]) auto
qed

lemma metadata_step_frame: "metadata_step le io m = Some m' \<Longrightarrow> tp m' = tp m \<and> trackers (the_torrent m') = trackers (the_torrent m)"
  by (auto simp: metadata_step_def Let_def split: if_splits bind_splits dest!: process_metadata_trackers)

lemma data_step_frame: "data_step le io m = Some m' \<Longrightarrow> tp m' = tp m \<and> trackers (the_torrent m') = trackers (the_torrent m)"
  by (auto simp: data_step_def Let_def split: if_splits bind_splits dest!: process_chunk_trackers)

lemma iteration_jobs:
  assumes ok: "torrent_ok (the_torrent m)" and g: "granted io m" "nodes_granted (spawn_node io) {} (job_queue (tp m))"
    and r: "main_iteration le debug io m = Some m'" and q: "queue_rep (job_queue (tp m)) js" and b: "busy_ok (the_torrent m) (busy js acts)"
  shows "\<exists>new. queue_rep (job_queue (tp m')) (js @ new) \<and> set new \<subseteq> range tracker_task \<union> peer_task ` ran (peer_addr (the_torrent m'))
    \<and> busy_ok (the_torrent m') (busy (js @ new) acts)"
proof -
  from r obtain m1 m2 m3 where s: "schedule_step debug io m = Some m1" "metadata_step le io m1 = Some m2" "data_step le io m2 = Some m3"
    "m' = key_step io m3"
    unfolding main_iteration_def by (auto split: bind_splits)
  have k1: "keeps (the_torrent m) (the_torrent m1)" by (rule schedule_keeps [OF ok g(1) s(1)])
  note k2 = table_of_keeps [OF metadata_step_table [OF s(2)] keeps_ok [OF k1]]
  have k3: "keeps (the_torrent m2) (the_torrent m3)" using data_step_keeps [OF keeps_ok [OF k2] _ s(3)] g(1) by (simp add: granted_def)
  from keeps_trans [OF k2 k3] have "peer_addr (the_torrent m1) \<subseteq>\<^sub>m peer_addr (the_torrent m3)" by (simp add: keeps_def)
  then have a: "ran (peer_addr (the_torrent m1)) \<subseteq> ran (peer_addr (the_torrent m3))" by (force simp: map_le_def ran_def)
  have m3: "the_torrent m' = the_torrent m3" "tp m' = tp m3" using s(4) by (simp_all add: key_step_def split: option.splits)
  have f: "tp m3 = tp m1" "trackers (the_torrent m3) = trackers (the_torrent m1)" using metadata_step_frame [OF s(2)] data_step_frame [OF s(3)] by simp_all
  from schedule_jobs [OF ok g s(1) q b] obtain new where new: "queue_rep (job_queue (tp m1)) (js @ new)"
    "set new \<subseteq> range tracker_task \<union> peer_task ` ran (peer_addr (the_torrent m1))" "busy_ok (the_torrent m1) (busy (js @ new) acts)" by blast
  have "set new \<subseteq> range tracker_task \<union> peer_task ` ran (peer_addr (the_torrent m3))" using new(2) a by blast
  with new(1,3) m3 f show ?thesis by (auto simp: busy_ok_def)
qed

subsection \<open>The invariant of the program\<close>

definition task_ok :: "torrent \<Rightarrow> t_job \<Rightarrow> bool" where
  "task_ok t j \<longleftrightarrow> j = listen_task \<or> j \<in> range tracker_task \<or> j \<in> peer_task ` ran (peer_addr t)"

fun activity_ok :: "torrent \<Rightarrow> activity \<Rightarrow> bool" where
  "activity_ok t (RunPeer a fs out) \<longleftrightarrow> a \<in> ran (peer_addr t) \<and> (\<forall>f \<in> set fs. step_same_ip f)"
| "activity_ok t _ \<longleftrightarrow> True"

definition prog_inv :: "program \<Rightarrow> t_job list \<Rightarrow> bool" where
  "prog_inv s js \<longleftrightarrow> torrent_ok (the_torrent (prog_main s)) \<and> queue_rep (job_queue (tp (prog_main s))) js
     \<and> (\<forall>j \<in> set js. task_ok (the_torrent (prog_main s)) j) \<and> (\<forall>act \<in> set (active s). activity_ok (the_torrent (prog_main s)) act)
     \<and> busy_ok (the_torrent (prog_main s)) (busy js (active s))"

lemma map_le_ran: "f \<subseteq>\<^sub>m g \<Longrightarrow> ran f \<subseteq> ran g"
  by (force simp: map_le_def ran_def)

lemma task_ok_mono: "peer_addr t \<subseteq>\<^sub>m peer_addr t' \<Longrightarrow> task_ok t j \<Longrightarrow> task_ok t' j"
  using map_le_ran [of "peer_addr t" "peer_addr t'"] by (auto simp: task_ok_def)

lemma activity_ok_mono: "peer_addr t \<subseteq>\<^sub>m peer_addr t' \<Longrightarrow> activity_ok t act \<Longrightarrow> activity_ok t' act"
  using map_le_ran [of "peer_addr t" "peer_addr t'"] by (cases act) auto

lemma take_job_pop:
  assumes "take_job p = Some (j, p')" "queue_rep (job_queue p) js"
  shows "\<exists>js'. js = j # js' \<and> queue_rep (job_queue p') js'"
proof (cases js)
  case Nil
  then have "queue_get_count (job_queue p) = 0" using qi.size_law [OF assms(2)] by simp
  with assms(1) show ?thesis by (auto simp: take_job_def split: if_splits bind_splits)
next
  case (Cons x xs)
  with assms(2) obtain q where q: "queue_pop (job_queue p) = Some (Some x, q)" "queue_rep q xs"
    using qi.pop_law [of "job_queue p" x xs] by auto
  have "queue_get_count (job_queue p) > 0" using qi.size_law [OF assms(2)] Cons by simp
  with assms(1) q Cons show ?thesis by (auto simp: take_job_def split: if_splits)
qed

lemma begin_job_ok:
  assumes "begin_job le io t j = Some act" "task_ok t j"
  shows "activity_ok t act" "activity_tracker act = task_tracker j"
proof -
  have "activity_ok t act \<and> activity_tracker act = task_tracker j"
    using assms peer_run_steps_same_ip [of _ le io "info_hash_hex t"] unfolding task_ok_def
    by (auto simp: begin_job_def listen_task_def tracker_task_def peer_task_def tracker_job_def peer_job_def task_tracker.simps)
  then show "activity_ok t act" "activity_tracker act = task_tracker j" by simp_all
qed

text \<open>A change of one live peer that keeps its address text, and of the data, keeps the invariant.\<close>

lemma put_run_table:
  assumes "torrent_ok (the_torrent m)" "peer_mem (the_torrent m) a = Some p" "str_ip p' = str_ip p"
  shows "torrent_ok (the_torrent (put_run a p' sh m))" "peer_addr (the_torrent (put_run a p' sh m)) = peer_addr (the_torrent m)"
    "trackers (the_torrent (put_run a p' sh m)) = trackers (the_torrent m)" "tp (put_run a p' sh m) = tp m"
proof -
  let ?t = "set_peer a p' (the_torrent m)"
  have tab: "table_of (the_torrent (put_run a p' sh m)) = table_of ?t" by (simp add: put_run_def table_of_def)
  from set_peer_keeps [OF assms] have "torrent_ok ?t" "peer_addr ?t = peer_addr (the_torrent m)" by simp_all
  with tab show "torrent_ok (the_torrent (put_run a p' sh m))" "peer_addr (the_torrent (put_run a p' sh m)) = peer_addr (the_torrent m)"
    using table_of_ok table_of_addr by metis+
qed (simp_all add: put_run_def set_peer_def)

lemma set_tracker_table: "table_of (set_tracker i tr t) = table_of t"
  by (simp add: set_tracker_def table_of_def)

lemma tracker_free_busy:
  assumes "busy_ok t (busy js (as @ RunTracker i # bs))"
  shows "busy_ok (set_tracker i tr t) (busy js (as @ bs))"
proof -
  have "i \<notin> set (busy js (as @ bs))" using assms by (auto simp: busy_ok_def busy_def)
  moreover have "set (busy js (as @ bs)) \<subseteq> set (busy js (as @ RunTracker i # bs))" "distinct (busy js (as @ bs))"
    using assms by (auto simp: busy_ok_def busy_def)
  ultimately show ?thesis
    using assms by (auto simp: busy_ok_def set_tracker_def subset_iff) (metis nth_list_update_neq)
qed

lemma busy_peer [simp]: "busy js (as @ RunPeer a fs out # bs) = busy js (as @ bs)" "busy js (as @ RunListen # bs) = busy js (as @ bs)"
  by (simp_all add: busy_def)

text \<open>The invariant depends on the torrent only through its table and its trackers.\<close>

lemma prog_inv_frame:
  assumes "prog_inv s js" "torrent_ok (the_torrent (prog_main s'))" "tp (prog_main s') = tp (prog_main s)"
    and "peer_addr (the_torrent (prog_main s')) = peer_addr (the_torrent (prog_main s))"
    and "busy_ok (the_torrent (prog_main s')) (busy js (active s'))" "\<forall>act \<in> set (active s'). activity_ok (the_torrent (prog_main s)) act"
  shows "prog_inv s' js"
proof -
  have le: "peer_addr (the_torrent (prog_main s)) \<subseteq>\<^sub>m peer_addr (the_torrent (prog_main s'))" using assms(4) by simp
  show ?thesis using assms task_ok_mono [OF le] activity_ok_mono [OF le] unfolding prog_inv_def by auto
qed

lemma prog_step_inv:
  assumes "prog_step le debug s s'" "prog_inv s js"
  shows "\<exists>js'. prog_inv s' js'"
  using assms
proof (cases rule: prog_step.cases)
  case (iterate io m)
  from assms(2) have i: "torrent_ok (the_torrent (prog_main s))" "queue_rep (job_queue (tp (prog_main s))) js"
    "busy_ok (the_torrent (prog_main s)) (busy js (active s))" by (simp_all add: prog_inv_def)
  have k: "keeps (the_torrent (prog_main s)) (the_torrent m)" by (rule iteration_keeps [OF i(1) iterate(3,5)])
  then have le: "peer_addr (the_torrent (prog_main s)) \<subseteq>\<^sub>m peer_addr (the_torrent m)" by (simp add: keeps_def)
  from iteration_jobs [OF i(1) iterate(3,4,5) i(2,3)] obtain new where new: "queue_rep (job_queue (tp m)) (js @ new)"
    "set new \<subseteq> range tracker_task \<union> peer_task ` ran (peer_addr (the_torrent m))" "busy_ok (the_torrent m) (busy (js @ new) (active s))" by blast
  have "\<forall>j \<in> set js. task_ok (the_torrent m) j" using assms(2) task_ok_mono [OF le] by (auto simp: prog_inv_def)
  moreover have "\<forall>j \<in> set new. task_ok (the_torrent m) j" using new(2) by (auto simp: task_ok_def)
  moreover have "\<forall>act \<in> set (active s). activity_ok (the_torrent m) act" using assms(2) activity_ok_mono [OF le] by (auto simp: prog_inv_def)
  ultimately have "prog_inv s' (js @ new)" using new(1,3) keeps_ok [OF k] iterate(1) by (auto simp: prog_inv_def)
  then show ?thesis ..
next
  case signal
  with assms(2) show ?thesis by (auto simp: prog_inv_def)
next
  case (take j p io act)
  from assms(2) take_job_pop [OF take(3)] obtain js' where js': "js = j # js'" "queue_rep (job_queue p) js'" by (auto simp: prog_inv_def)
  have j: "task_ok (the_torrent (prog_main s)) j" using assms(2) js'(1) by (simp add: prog_inv_def)
  have "distinct (busy js' (active s @ [act])) = distinct (busy js (active s))" "set (busy js' (active s @ [act])) = set (busy js (active s))"
    using begin_job_ok(2) [OF take(4) j] js'(1) by (auto simp: busy_def)
  then have "prog_inv s' js'" using assms(2) js' begin_job_ok(1) [OF take(4) j] take(1) by (auto simp: prog_inv_def busy_ok_def)
  then show ?thesis ..
next
  case (peer as a f fs out bs p go p' sh out')
  have f: "step_same_ip f" using assms(2) peer(2) by (simp add: prog_inv_def)
  have ok: "torrent_ok (the_torrent (prog_main s))" using assms(2) by (simp add: prog_inv_def)
  note tab = put_run_table [OF ok peer(3) step_same_ipD [OF f peer(4)], of sh]
  have "prog_inv s' js"
    by (rule prog_inv_frame [OF assms(2)]) (use assms(2) peer(1,2) tab in \<open>auto simp: prog_inv_def busy_ok_def\<close>)
  then show ?thesis ..
next
  case (peer_end as a out bs p)
  have ok: "torrent_ok (the_torrent (prog_main s))" using assms(2) by (simp add: prog_inv_def)
  have ip: "str_ip (p\<lparr>running := 0\<rparr>) = str_ip p" by simp
  note tab = put_run_table [OF ok peer_end(3) ip, of "shared_of (prog_main s)"]
  have "prog_inv s' js"
    by (rule prog_inv_frame [OF assms(2)]) (use assms(2) peer_end(1,2) tab in \<open>auto simp: prog_inv_def busy_ok_def\<close>)
  then show ?thesis ..
next
  case (tracker as i bs tr io r tr' q sent)
  let ?t = "set_tracker i tr' (the_torrent (prog_main s))"
  have t: "torrent_ok ?t" "peer_addr ?t = peer_addr (the_torrent (prog_main s))"
    using table_of_ok [OF set_tracker_table] table_of_addr [OF set_tracker_table] assms(2) by (auto simp: prog_inv_def)
  have b: "busy_ok ?t (busy js (as @ bs))" using tracker_free_busy assms(2) tracker(2) by (auto simp: prog_inv_def)
  have "prog_inv s' js"
    by (rule prog_inv_frame [OF assms(2)]) (use assms(2) tracker(1,2) t b in \<open>auto simp: prog_inv_def\<close>)
  then show ?thesis ..
next
  case (accept io q)
  with assms(2) show ?thesis by (auto simp: prog_inv_def)
next
  case (listen_end as bs)
  with assms(2) have "prog_inv s' js" by (auto simp: prog_inv_def)
  then show ?thesis ..
qed

text \<open>Every step keeps the peers of the table, in their order and under their addresses.\<close>

lemma prog_step_keeps:
  assumes "prog_step le debug s s'" "prog_inv s js"
  shows "keeps (the_torrent (prog_main s)) (the_torrent (prog_main s'))"
proof -
  have ok: "torrent_ok (the_torrent (prog_main s))" using assms(2) by (simp add: prog_inv_def)
  have p: "keeps (the_torrent (prog_main s)) (the_torrent (put_run a p' sh (prog_main s)))"
    if "peer_mem (the_torrent (prog_main s)) a = Some p" "str_ip p' = str_ip p" for a p p' sh
    using put_run_table [OF ok that, of sh] by (simp add: keeps_def) (simp add: put_run_def set_peer_def)
  show ?thesis
    using assms(1)
  proof (cases rule: prog_step.cases)
    case (iterate io m)
    with iteration_keeps [OF ok iterate(3,5)] show ?thesis by simp
  next
    case (peer as a f fs out bs x go p' sh out')
    have f: "step_same_ip f" using assms(2) peer(2) by (simp add: prog_inv_def)
    from p [OF peer(3) step_same_ipD [OF f peer(4)]] peer(1) show ?thesis by simp
  next
    case (peer_end as a out bs x)
    with p [OF peer_end(3), of "x\<lparr>running := 0\<rparr>"] show ?thesis by simp
  next
    case (tracker as i bs tr io r tr' q sent)
    with table_of_keeps [OF set_tracker_table ok] show ?thesis by simp
  qed (simp_all add: keeps_refl [OF ok])
qed

lemma prog_steps_keep:
  assumes "(prog_step le debug)\<^sup>*\<^sup>* s s'" "prog_inv s js"
  shows "keeps (the_torrent (prog_main s)) (the_torrent (prog_main s'))"
  using assms
proof (induction arbitrary: js rule: converse_rtranclp_induct)
  case base
  then show ?case by (simp add: prog_inv_def keeps_refl)
next
  case (step s s1)
  then obtain js1 where "prog_inv s1 js1" using prog_step_inv by blast
  with step prog_step_keeps show ?case using keeps_trans by blast
qed

lemma prog_steps_inv:
  assumes "(prog_step le debug)\<^sup>*\<^sup>* s s'" "prog_inv s js"
  shows "\<exists>js'. prog_inv s' js'"
  using assms by (induction arbitrary: js rule: converse_rtranclp_induct) (blast dest: prog_step_inv)+

subsection \<open>The start\<close>

lemma listen_queue:
  assumes "listen_for_peers sp p = Some (r, p')" "nodes (job_queue p) = Map.empty" "queue_rep (job_queue p) []"
  shows "\<exists>js. queue_rep (job_queue p') js \<and> set js \<subseteq> {listen_task}"
proof -
  have f: "node_fresh (job_node sp) (job_queue p)" using assms(2) by (simp add: node_fresh_def fresh_in_def)
  from assms(1) consider "p' = p" | "thread_pool_add_job (spawn_create sp) (job_node sp) listen_task p = Some (r, p')"
    by (auto simp: listen_for_peers_def split: bind_splits option.splits dest!: job_new_task)
  then show ?thesis
  proof cases
    case 1
    with assms(3) show ?thesis by (intro exI [of _ "[]"]) simp
  next
    case 2
    from add_job_effect [OF 2 assms(3) f] show ?thesis by (auto intro: exI [of _ "[]"] exI [of _ "[listen_task]"])
  qed
qed

lemma main_error_not_started: "main_error d d' t q1 q2 \<noteq> Some (Started m)"
  by (auto simp: main_error_def split: bind_splits)

lemma empty_queue_rep: "queue_rep \<lparr>nodes = Map.empty, count = 0, head = None, tail = None\<rparr> []"
  by (simp add: queue_rep_def linked_def)

lemma start_threads_inv:
  assumes st: "start_threads le io disk debug t = Some (Started m)" and t: "torrent_ok t" "peer_mem t = Map.empty" "peer_ips t = []"
    and g: "item_malloc (debug_add io)" "ip_malloc (debug_add io)"
  shows "\<exists>js. prog_inv \<lparr>prog_main = m, active = []\<rparr> js"
proof -
  let ?q = "\<lparr>nodes = Map.empty, count = 0, head = None, tail = None\<rparr>"
  let ?p = "\<lparr>cancel_flag = 0, working_threads = 0, thread_count = 0, max_threads = 10, job_semaphore = 0, job_queue = ?q\<rparr>"
  from st obtain r p' where l: "listen_for_peers (listen_spawn io) ?p = Some (r, p')" and p': "tp m = p'"
    and tm: "the_torrent m = t \<or> (\<exists>x r. torrent_add_peer True True (duplicate_free (debug_add io))
      (t\<lparr>peer_mem := (peer_mem t)(peer_address (debug_add io) \<mapsto> x)\<rparr>) (peer_address (debug_add io)) = Some (r, the_torrent m))"
    using g by (auto simp: start_threads_def thread_pool_new_def queue_new_def queue_free_def main_error_not_started
        split: if_splits bind_splits option.splits prod.splits) blast+
  have "torrent_ok (the_torrent m)"
    using tm t keeps_ok [OF add_peer_keeps(1) [OF t(1)]] by auto
  moreover obtain js where "queue_rep (job_queue p') js" "set js \<subseteq> {listen_task}"
    using listen_queue [OF l] empty_queue_rep by auto
  moreover from this(2) have "busy js [] = []" by (induction js) (auto simp: busy_def)
  ultimately show ?thesis using p' by (auto simp: prog_inv_def task_ok_def busy_ok_def intro!: exI [of _ js])
qed

lemma main_start_inv:
  assumes st: "main_start le unescape io disk opts = Some (Started m)" and h: "length (hash_bytes (start_new io)) = 20"
    and g: "item_malloc (debug_add io)" "ip_malloc (debug_add io)"
  shows "\<exists>js. prog_inv \<lparr>prog_main = m, active = []\<rparr> js"
proof -
  from st obtain uri pth prt ip t where t: "torrent_new unescape (start_new io) uri pth prt ip = Some (Some t)"
    and s: "start_threads le io disk (opt_debug (snd opts)) t = Some (Started m)"
    by (auto simp: main_start_def Let_def split: if_splits bind_splits ipify.splits)
  from torrent_new_shape [OF t h] have "torrent_ok t" "peer_ips t = []" "peer_mem t = Map.empty" by simp_all
  from start_threads_inv [OF s this(1,3,2) g] show ?thesis .
qed

text \<open>
  C14: from the start of the program on, in every interleaving of the main loop with the steps of the workers, the
  table of the peers is well formed; the queue of the pool is a list of jobs of peers, of trackers and of
  the listener; every peer that a job in the queue or a running worker points at is alive and is the entry of
  the table under its own address text; and no tracker has two jobs, queued or running: each that has one is
  marked as running.
\<close>

theorem program_invariant:
  assumes "main_start le unescape io disk opts = Some (Started m)" "length (hash_bytes (start_new io)) = 20"
    and "item_malloc (debug_add io)" "ip_malloc (debug_add io)"
    and "(prog_step le (opt_debug (snd opts)))\<^sup>*\<^sup>* \<lparr>prog_main = m, active = []\<rparr> s"
  shows "torrent_ok (the_torrent (prog_main s))
    \<and> (\<exists>js. queue_rep (job_queue (tp (prog_main s))) js \<and> set js \<subseteq> {listen_task} \<union> range tracker_task \<union> range peer_task
         \<and> (\<forall>a. peer_task a \<in> set js \<or> (\<exists>fs out. RunPeer a fs out \<in> set (active s)) \<longrightarrow>
              (\<exists>p. peer_mem (the_torrent (prog_main s)) a = Some p \<and> peer_addr (the_torrent (prog_main s)) (str_ip p) = Some a))
         \<and> distinct (busy js (active s))
         \<and> (\<forall>i \<in> set (busy js (active s)). \<exists>tr. trackers (the_torrent (prog_main s)) ! i = Some tr \<and> tracker_running tr = 1))"
proof -
  let ?t = "the_torrent (prog_main s)"
  from main_start_inv [OF assms(1-4)] prog_steps_inv [OF assms(5)] obtain js where inv: "prog_inv s js" by blast
  then have ok: "torrent_ok ?t" by (simp add: prog_inv_def)
  then have live: "\<exists>p. peer_mem ?t a = Some p \<and> peer_addr ?t (str_ip p) = Some a" if "a \<in> ran (peer_addr ?t)" for a
    using that by (fastforce simp: torrent_ok_def ran_def)
  have "a \<in> ran (peer_addr ?t)" if "peer_task a \<in> set js \<or> (\<exists>fs out. RunPeer a fs out \<in> set (active s))" for a
    using that inv by (fastforce simp: prog_inv_def task_ok_def)
  with live have "\<forall>a. peer_task a \<in> set js \<or> (\<exists>fs out. RunPeer a fs out \<in> set (active s)) \<longrightarrow>
      (\<exists>p. peer_mem ?t a = Some p \<and> peer_addr ?t (str_ip p) = Some a)" by blast
  moreover have "set js \<subseteq> {listen_task} \<union> range tracker_task \<union> range peer_task" using inv by (auto simp: prog_inv_def task_ok_def)
  ultimately show ?thesis using inv ok by (auto simp: prog_inv_def busy_ok_def intro!: exI [of _ js])
qed

text \<open>A start without trackers and without an answer from the service; the listener is the first job.\<close>

definition demo_start :: start_io where
  "demo_start = \<lparr>start_ipify = \<lparr>ip_socket = 3, ip_resolved = True, ip_connect = 0, ip_send = 1, ip_recv = Some [], ip_shutdown = 0\<rparr>,
     start_new = demo_new, queue_mallocs = (True, True, True), pool_mallocs = (True, True), listen_spawn = demo_spawn [],
     debug_alloc = (True, True, True), debug_now = 0, debug_add = demo_add 0, error_disconnects = \<lambda>_. demo_disconnect,
     error_frees = \<lambda>_. demo_disconnect\<rparr>"

definition demo_options :: options where
  "demo_options = \<lparr>opt_magnet_uri = demo_link @ [NUL], opt_path = ''/tmp'' @ [NUL], opt_port = 5000, opt_debug = 0\<rparr>"

lemma demo_public: "public_address (start_ipify demo_start) = Some (IpOk None)"
proof -
  have "text_at (replicate 4069 NUL) 0 = Some []" by (simp add: text_at_def numeral_eq_Suc)
  moreover have "find_sub [] crlf2 = None" by (subst find_sub.simps) simp
  ultimately show ?thesis by (simp add: demo_start_def public_address_def ipify_connect_def ipify_getIP_def strstr_def ipify_disconnect_def)
qed

text \<open>The pool after the start: one worker, and the job of the listener in the queue.\<close>

definition listening_pool :: "t_job pool" where
  "listening_pool = \<lparr>cancel_flag = 0, working_threads = 0, thread_count = 1, max_threads = 10, job_semaphore = 1,
     job_queue = \<lparr>nodes = [1 \<mapsto> (listen_task, None)], count = 1, head = Some 1, tail = Some 1\<rparr>\<rparr>"

lemma demo_listen:
  "listen_for_peers (demo_spawn []) \<lparr>cancel_flag = 0, working_threads = 0, thread_count = 0, max_threads = 10, job_semaphore = 0,
     job_queue = \<lparr>nodes = Map.empty, count = 0, head = None, tail = None\<rparr>\<rparr> = Some (EXIT_SUCCESS, listening_pool)"
  by (simp add: listen_for_peers_def demo_spawn_def job_new_def numeral_eq_Suc thread_pool_add_job_def start_thread_def push_job_def
      queue_push_def sem_post_def listen_task_def listening_pool_def)

lemma demo_torrent_new: "\<exists>t. torrent_new Some demo_new demo_link ''/tmp'' 5000 None = Some (Some t)"
proof -
  have "(case torrent_new Some demo_new demo_link ''/tmp'' 5000 None of Some (Some t) \<Rightarrow> True | _ \<Rightarrow> False)" by code_simp
  then show ?thesis by (auto split: option.splits)
qed

lemma demo_texts:
  "text_at (opt_magnet_uri demo_options) 0 = Some demo_link" "text_at (opt_path demo_options) 0 = Some ''/tmp''"
  "uint (opt_port demo_options) = 5000" "opt_debug demo_options = 0" "start_new demo_start = demo_new"
  by (simp_all add: demo_options_def text_at_def demo_start_def)

lemma demo_started:
  obtains m where "main_start True Some demo_start Map.empty (True, demo_options) = Some (Started m)" "tp m = listening_pool"
proof -
  obtain t where t: "torrent_new Some demo_new demo_link ''/tmp'' 5000 None = Some (Some t)" using demo_torrent_new by blast
  obtain m where m: "start_threads True demo_start Map.empty 0 t = Some (Started m)" "tp m = listening_pool"
    by (simp add: start_threads_def demo_start_def thread_pool_new_def queue_new_def demo_listen [simplified])
  show thesis by (rule that [OF _ m(2)]) (simp add: main_start_def demo_public demo_texts t m(1))
qed

text \<open>The worker takes the job of the listener.\<close>

lemma demo_takes:
  assumes "tp m = listening_pool"
  shows "\<exists>p. prog_step True debug \<lparr>prog_main = m, active = []\<rparr> \<lparr>prog_main = m\<lparr>tp := p\<rparr>, active = [RunListen]\<rparr>"
proof -
  obtain p where t: "take_job (tp m) = Some (listen_task, p)"
    by (simp add: assms listening_pool_def take_job_def queue_get_count_def queue_pop_def)
  have b: "begin_job True io (the_torrent m) listen_task = Some RunListen" for io by (simp add: begin_job_def listen_task_def)
  show ?thesis
    using prog_step.take [where s = "\<lparr>prog_main = m, active = []\<rparr>" and le = True and debug = debug] b t assms
    by (fastforce simp: listening_pool_def)
qed

theorem program_invariant_witness:
  "\<exists>m s. main_start True Some demo_start Map.empty (True, demo_options) = Some (Started m)
     \<and> (prog_step True 0)\<^sup>*\<^sup>* \<lparr>prog_main = m, active = []\<rparr> s \<and> active s = [RunListen] \<and> torrent_ok (the_torrent (prog_main s))"
proof -
  obtain m where m: "main_start True Some demo_start Map.empty (True, demo_options) = Some (Started m)" "tp m = listening_pool"
    by (rule demo_started)
  from demo_takes [OF m(2), of 0] obtain p where s: "prog_step True 0 \<lparr>prog_main = m, active = []\<rparr> \<lparr>prog_main = m\<lparr>tp := p\<rparr>, active = [RunListen]\<rparr>" ..
  then have st: "(prog_step True (opt_debug (snd (True, demo_options))))\<^sup>*\<^sup>* \<lparr>prog_main = m, active = []\<rparr> \<lparr>prog_main = m\<lparr>tp := p\<rparr>, active = [RunListen]\<rparr>"
    by (simp add: demo_texts r_into_rtranclp)
  have "torrent_ok (the_torrent (prog_main \<lparr>prog_main = m\<lparr>tp := p\<rparr>, active = [RunListen]\<rparr>))"
    using program_invariant [OF m(1) _ _ _ st] by (simp add: demo_start_def demo_new_def demo_add_def)
  with m s show ?thesis by (metis program.select_convs(2) r_into_rtranclp)
qed

text \<open>
  C13: no interleaving of the main loop with the workers loses a peer. From the start of the program on, between any
  two states \<open>s\<close> and \<open>s'\<close> that follow each other the list of the peers only grows at its end, and every entry
  of the table is still there in \<open>s'\<close>: under the same key, with the same object, which is alive and carries the key as its
  address text. The start and every iteration of the main loop are granted the memory of the table entries: each loop over the
  peers takes every entry out of the table and sets it again, and a peer whose entry cannot be allocated is lost.
\<close>

theorem program_keeps_peers:
  assumes "main_start le unescape io disk opts = Some (Started m)" "length (hash_bytes (start_new io)) = 20"
    and "item_malloc (debug_add io)" "ip_malloc (debug_add io)"
    and "(prog_step le (opt_debug (snd opts)))\<^sup>*\<^sup>* \<lparr>prog_main = m, active = []\<rparr> s"
    and "(prog_step le (opt_debug (snd opts)))\<^sup>*\<^sup>* s s'"
  shows "(\<exists>new. peer_ips (the_torrent (prog_main s')) = peer_ips (the_torrent (prog_main s)) @ new)
    \<and> (\<forall>ip \<in> set (peer_ips (the_torrent (prog_main s))). \<exists>a p. peer_addr (the_torrent (prog_main s)) ip = Some a
         \<and> peer_addr (the_torrent (prog_main s')) ip = Some a \<and> peer_mem (the_torrent (prog_main s')) a = Some p \<and> str_ip p = ip)"
proof -
  let ?t = "the_torrent (prog_main s)" and ?t' = "the_torrent (prog_main s')"
  from main_start_inv [OF assms(1-4)] prog_steps_inv [OF assms(5)] obtain js where inv: "prog_inv s js" by blast
  then have ok: "torrent_ok ?t" by (simp add: prog_inv_def)
  have k: "keeps ?t ?t'" using prog_steps_keep [OF assms(6) inv] .
  have "\<exists>a p. peer_addr ?t ip = Some a \<and> peer_addr ?t' ip = Some a \<and> peer_mem ?t' a = Some p \<and> str_ip p = ip"
    if "ip \<in> set (peer_ips ?t)" for ip
  proof -
    from torrent_ok_live [OF ok that] obtain a where a: "peer_addr ?t ip = Some a" by metis
    with k have a': "peer_addr ?t' ip = Some a" by (auto simp: keeps_def map_le_def dom_def)
    have "ip \<in> set (peer_ips ?t')" using k that by (auto simp: keeps_def)
    from torrent_ok_live [OF keeps_ok [OF k] this] a a' show ?thesis by (metis option.inject)
  qed
  with k show ?thesis by (auto simp: keeps_def)
qed

text \<open>The start in debug mode, which enters the peer 127.0.0.1; a worker then takes the job of the listener.\<close>

lemma debug_address: "inet_ntoa 2130706433 = ''127.0.0.1''"
  by code_simp

lemma debug_started:
  obtains m where "main_start True Some demo_start Map.empty (True, demo_options\<lparr>opt_debug := 1\<rparr>) = Some (Started m)"
    "peer_ips (the_torrent m) = [''127.0.0.1'']" "tp m = listening_pool"
proof -
  obtain t where t: "torrent_new Some demo_new demo_link ''/tmp'' 5000 None = Some (Some t)" using demo_torrent_new by blast
  have "torrent_ok t" "peer_ips t = []" "peer_mem t = Map.empty" using torrent_new_shape [OF t] by (simp_all add: demo_new_def)
  note ok = torrent_ok_alloc [OF this(1), of 10] this
  obtain x where x: "peer_new True True True True 0 2130706433 5000 = Some (Some x)" "str_ip x = ''127.0.0.1''"
    by (simp add: peer_new_def queue_new_def peer_reset_def debug_address)
  let ?t = "t\<lparr>peer_mem := (peer_mem t)(10 \<mapsto> x)\<rparr>"
  from torrent_add_peer_run [of ?t 10 x Uvg_Torrent.demo_disconnect] ok x(2) obtain t' where
    t': "torrent_add_peer True True Uvg_Torrent.demo_disconnect ?t 10 = Some (EXIT_SUCCESS, t')" "peer_ips t' = [''127.0.0.1'']" by auto
  obtain m where m: "start_threads True demo_start Map.empty 1 t = Some (Started m)" "the_torrent m = t'" "tp m = listening_pool"
    using x(1) t'(1) by (simp add: start_threads_def demo_start_def thread_pool_new_def queue_new_def demo_listen demo_add_def ok)
  show thesis by (rule that [of m]) (use t m t'(2) in \<open>simp_all add: main_start_def demo_public demo_texts\<close>)
qed



theorem program_keeps_peers_witness:
  "\<exists>m s. main_start True Some demo_start Map.empty (True, demo_options\<lparr>opt_debug := 1\<rparr>) = Some (Started m)
     \<and> peer_ips (the_torrent m) = [''127.0.0.1''] \<and> (prog_step True 1)\<^sup>*\<^sup>* \<lparr>prog_main = m, active = []\<rparr> s \<and> active s = [RunListen]
     \<and> (\<exists>a p. peer_addr (the_torrent (prog_main s)) ''127.0.0.1'' = Some a \<and> peer_mem (the_torrent (prog_main s)) a = Some p \<and> str_ip p = ''127.0.0.1'')"
proof -
  let ?o = "(True, demo_options\<lparr>opt_debug := 1\<rparr>)"
  obtain m where m: "main_start True Some demo_start Map.empty ?o = Some (Started m)" "peer_ips (the_torrent m) = [''127.0.0.1'']"
    "tp m = listening_pool" by (rule debug_started)
  let ?s = "\<lparr>prog_main = m, active = []\<rparr>"
  from demo_takes [OF m(3), of 1] obtain p where "prog_step True 1 ?s \<lparr>prog_main = m\<lparr>tp := p\<rparr>, active = [RunListen]\<rparr>" ..
  then have st: "(prog_step True 1)\<^sup>*\<^sup>* ?s \<lparr>prog_main = m\<lparr>tp := p\<rparr>, active = [RunListen]\<rparr>" by (rule r_into_rtranclp)
  have g: "length (hash_bytes (start_new demo_start)) = 20" "item_malloc (debug_add demo_start)" "ip_malloc (debug_add demo_start)"
    by (simp_all add: demo_start_def demo_new_def demo_add_def)
  from program_keeps_peers [OF m(1) g, of ?s "\<lparr>prog_main = m\<lparr>tp := p\<rparr>, active = [RunListen]\<rparr>"] st m(2)
  have "\<exists>a p. peer_addr (the_torrent m) ''127.0.0.1'' = Some a \<and> peer_mem (the_torrent m) a = Some p \<and> str_ip p = ''127.0.0.1''" by auto
  with m st show ?thesis by (intro exI [of _ m] exI [of _ "\<lparr>prog_main = m\<lparr>tp := p\<rparr>, active = [RunListen]\<rparr>"]) simp
qed

subsection \<open>A peer that is disconnected while its job runs\<close>

text \<open>
  C40: \<open>peer_disconnect\<close> resets the mark that says that the peer has a job. In any state in which the job of a peer
  has come to the test of the timeout and the timeout is due, one step of the worker clears the mark while
  the job still has the rest of \<open>peer_run\<close> before it; the next \<open>torrent_run_peers\<close> then queues a second job
  for the same peer.
\<close>

theorem disconnected_peer_second_job:
  assumes ok: "torrent_ok (the_torrent (prog_main s))" and q: "queue_rep (job_queue (tp (prog_main s))) js"
    and sp: "spawns sp (set (peer_ips (the_torrent (prog_main s)))) (job_queue (tp (prog_main s)))"
    and a: "peer_addr (the_torrent (prog_main s)) ip = Some a" "peer_mem (the_torrent (prog_main s)) a = Some p"
    and act: "active s = as @ RunPeer a (run_timeout io # fs) out # bs"
    and due: "peer_should_timeout (timeout_time io) p" "peer_disconnect (timeout_disconnect io) p = Some p'"
  shows "\<exists>s' t' tp' js'. prog_step le debug s s' \<and> active s' = as @ RunPeer a fs out # bs
    \<and> torrent_run_peers sp (the_torrent (prog_main s'), tp (prog_main s')) = Some (EXIT_SUCCESS, t', tp')
    \<and> queue_rep (job_queue tp') js' \<and> peer_task a \<in> set js'"
proof -
  let ?m = "put_run a p' (shared_of (prog_main s)) (prog_main s)"
  have f: "run_timeout io (p, shared_of (prog_main s), out) = Some (True, p', shared_of (prog_main s), out)"
    using due by (simp add: run_timeout_def)
  note st = prog_step.peer [OF act a(2) f, of le debug]
  have r: "running p' = 0" using due(2) by (auto simp: peer_disconnect_def peer_reset_def split: bind_splits)
  note tab = put_run_table [OF ok a(2) peer_disconnect_ip [OF due(2)], of "shared_of (prog_main s)"]
  have ips: "peer_ips (the_torrent ?m) = peer_ips (the_torrent (prog_main s))" by (simp add: put_run_def set_peer_def)
  have d: "distinct (peer_ips (the_torrent ?m))" "ip \<in> set (peer_ips (the_torrent ?m))"
    using tab(1) a(1) by (auto simp: torrent_ok_def ips ok tab(2) dom_def)
  from run_peers_loop_run [OF tab(1) subset_refl d(1), where tp = "tp ?m" and io = sp and js = js] sp q obtain t' tp' where
    l: "torrent_run_peers sp (the_torrent ?m, tp ?m) = Some (EXIT_SUCCESS, t', tp')"
    "queue_rep (job_queue tp') (js @ idle_jobs (the_torrent ?m) (peer_ips (the_torrent ?m)))"
    by (auto simp: torrent_run_peers_def ips tab(4))
  have "peer_task a \<in> set (idle_jobs (the_torrent ?m) (peer_ips (the_torrent ?m)))"
    using d(2) r a(1) tab(2) by (auto simp: idle_jobs_def peer_task_def intro!: image_eqI [of _ _ ip])
  with st l show ?thesis by fastforce
qed

text \<open>A torrent with one peer, connected, marked and silent for more than two minutes.\<close>

definition silent_peer :: peer where
  "silent_peer = Uvg_PeerFraming.demo_peer\<lparr>str_ip := ''10.0.0.2''\<rparr>"

definition silent_state :: "addr hash_map \<Rightarrow> run_io \<Rightarrow> program" where
  "silent_state hm io = \<lparr>prog_main = idle_state\<lparr>the_torrent := set_peer 7 silent_peer (demo_torrent hm), tp := demo_tp\<rparr>,
     active = [RunPeer 7 [run_timeout io, run_network (network2 io) (network2_act io) (network2_disconnect io)] []]\<rparr>"

theorem disconnected_peer_second_job_witness:
  "\<exists>hm s' t' tp' js'. demo_table hm \<and> prog_step True 0 (silent_state hm (demo_run_io\<lparr>timeout_time := 200000\<rparr>)) s'
    \<and> length (active s') = 1 \<and> torrent_run_peers demo_spawn (the_torrent (prog_main s'), tp (prog_main s')) = Some (EXIT_SUCCESS, t', tp')
    \<and> queue_rep (job_queue tp') js' \<and> peer_task 7 \<in> set js'"
proof -
  obtain hm where hm: "demo_table hm" using demo_table_exists by blast
  let ?io = "demo_run_io\<lparr>timeout_time := 200000\<rparr>"
  let ?s = "silent_state hm ?io"
  have m7: "peer_mem (demo_torrent hm) 7 = Some Uvg_Torrent.demo_peer" "str_ip silent_peer = str_ip Uvg_Torrent.demo_peer"
    by (simp_all add: demo_torrent_def silent_peer_def Uvg_Torrent.demo_peer_def)
  note k = set_peer_keeps [OF demo_view(2) [OF hm] m7]
  have t: "the_torrent (prog_main ?s) = set_peer 7 silent_peer (demo_torrent hm)" "tp (prog_main ?s) = demo_tp" by (simp_all add: silent_state_def)
  have ok: "torrent_ok (the_torrent (prog_main ?s))" "peer_addr (the_torrent (prog_main ?s)) ''10.0.0.2'' = Some 7"
    "peer_mem (the_torrent (prog_main ?s)) 7 = Some silent_peer"
    using k demo_view(1) [OF hm] by (simp_all add: t set_peer_def)
  have sp: "queue_rep (job_queue (tp (prog_main ?s))) []"
    "spawns demo_spawn (set (peer_ips (the_torrent (prog_main ?s)))) (job_queue (tp (prog_main ?s)))"
    by (simp_all add: t spawns_def demo_spawn_def demo_tp_def sample_queue_rep demo_torrent_def set_peer_def)
       (simp add: sample_queue_def fresh_in_def)
  have due: "peer_should_timeout (timeout_time ?io) silent_peer"
    by (simp add: peer_should_timeout_def silent_peer_def Uvg_PeerFraming.demo_peer_def demo_socket_def size_t_of_def)
  obtain p' where p': "peer_disconnect (timeout_disconnect ?io) silent_peer = Some p'"
    by (simp add: peer_disconnect_def silent_peer_def Uvg_PeerFraming.demo_peer_def demo_socket_def demo_run_io_def Uvg_PeerFraming.demo_disconnect_def
        buffered_socket_free_def buffered_socket_close_def numeral_eq_Suc)
  have act: "active ?s = [] @ RunPeer 7 (run_timeout ?io # [run_network (network2 ?io) (network2_act ?io) (network2_disconnect ?io)]) [] # []"
    by (simp add: silent_state_def)
  from disconnected_peer_second_job [OF ok(1) sp ok(2,3) act due p', of True 0] hm show ?thesis by fastforce
qed

end
