(* ===== verification/Uvg_Output.thy ===== *)
theory Uvg_Output
  imports Uvg_BencodeCodec
begin

text \<open>
  What the program prints, and its clock: the dump of a bencode tree (\<open>be_dump\<close> of
  \<^verbatim>\<open>src/src/bencode/bencode.c\<close>), the log (\<^verbatim>\<open>src/src/log.c\<close>), the help
  (\<^verbatim>\<open>src/src/messages/messages.c\<close>) and \<open>now\<close> (\<^verbatim>\<open>src/src/deadline/deadline.c\<close>).
  The text a call prints is its value; the text that \<open>vfprintf\<close> makes of the format and its arguments, the
  local time and the result of \<open>gettimeofday\<close> are arguments.
\<close>

subsection \<open>The dump of a tree\<close>

definition c_int :: "int \<Rightarrow> int option" where
  "c_int i = (if - (2 ^ 31) \<le> i \<and> i < 2 ^ 31 then Some i else None)"

text \<open>The line feed and the blanks.\<close>

definition newline :: "int \<Rightarrow> string" where
  "newline indent = CHR 0x0A # replicate (nat indent) CHR '' ''"

text \<open>\<open>isprint\<close> of a signed \<open>char\<close>: the argument has to be an unsigned value or EOF, which is -1.\<close>

definition isprint_char :: "u8 \<Rightarrow> bool option" where
  "isprint_char c = (if c < 128 \<or> c = 255 then Some (32 \<le> c \<and> c < 127) else None)"

text \<open>The text, and the number of characters as an \<open>int\<close>.\<close>

definition be_str_dump :: "be_str \<Rightarrow> (string \<times> int) option" where
  "be_str_dump s =
     (if slen s \<ge> 2 ^ 31 then None
      else do {
        cs \<leftarrow> those (map (\<lambda>i. do {
          buf \<leftarrow> sbuf s;
          c \<leftarrow> byte_at buf i;
          pr \<leftarrow> isprint_char c;
          Some (if pr then char_of (unat c) else CHR ''.'')
        }) [0..<nat (slen s)]);
        Some (CHR 0x22 # cs @ [CHR 0x22], signed_take_bit 31 (2 + slen s))
      })"

text \<open>The entries of a list and of a dictionary; \<open>first\<close> is the variable of the code.\<close>

fun be_dump1 :: "int \<Rightarrow> be_node \<Rightarrow> string option"
  and dump_entries :: "int \<Rightarrow> bool \<Rightarrow> be_node list \<Rightarrow> string option"
  and dump_pairs :: "int \<Rightarrow> bool \<Rightarrow> (be_str \<times> be_node option) list \<Rightarrow> string option" where
  "be_dump1 indent (BE_NUM n) = Some (dec_int n)"
| "be_dump1 indent (BE_STR s) = map_option fst (be_str_dump s)"
| "be_dump1 indent (BE_LIST ns) = map_option (\<lambda>out. out @ '']'') (dump_entries indent True ns)"
| "be_dump1 indent (BE_DICT es) = map_option (\<lambda>out. out @ ''}'') (dump_pairs indent True es)"
| "dump_entries indent first [] = Some []"
| "dump_entries indent first (n # ns) = do {
     i \<leftarrow> c_int (indent + 2);
     out \<leftarrow> be_dump1 i n;
     rest \<leftarrow> dump_entries indent False ns;
     Some ((if first then ''[ '' else newline indent @ '', '') @ out @ rest)
   }"
| "dump_pairs indent first [] = Some []"
| "dump_pairs indent first ((k, None) # es) = None"
| "dump_pairs indent first ((k, Some v) # es) = do {
     (key, sz) \<leftarrow> be_str_dump k;
     i \<leftarrow> c_int (indent + sz + 4);
     out \<leftarrow> be_dump1 i v;
     rest \<leftarrow> dump_pairs indent False es;
     Some ((if first then ''{ '' else newline indent @ '', '') @ key @ '': '' @ out @ rest)
   }"

definition be_dump :: "be_node \<Rightarrow> string option" where
  "be_dump n = map_option (\<lambda>out. out @ [CHR 0x0A]) (be_dump1 0 n)"

subsection \<open>The log\<close>

abbreviation (input) LOG_TRACE :: int where "LOG_TRACE \<equiv> 0"
abbreviation (input) LOG_DEBUG :: int where "LOG_DEBUG \<equiv> 1"
abbreviation (input) LOG_INFO :: int where "LOG_INFO \<equiv> 2"
abbreviation (input) LOG_WARN :: int where "LOG_WARN \<equiv> 3"
abbreviation (input) LOG_ERROR :: int where "LOG_ERROR \<equiv> 4"
abbreviation (input) LOG_FATAL :: int where "LOG_FATAL \<equiv> 5"

text \<open>The static state; the lock is there or NULL, and a file is named by its stream.\<close>

record ('u, 'f) log_state =
  log_udata :: "'u option"
  log_lock :: bool
  log_fp :: "'f option"
  log_level :: int
  log_quiet :: int

definition log_init :: "('u, 'f) log_state" where
  "log_init = \<lparr>log_udata = None, log_lock = False, log_fp = None, log_level = 0, log_quiet = 0\<rparr>"

datatype ('u, 'f) log_event =
    LockCall "'u option" int
  | ToStderr string
  | ToFile 'f string

definition level_names :: "string list" where
  "level_names = [''TRACE'', ''DEBUG'', ''INFO'', ''WARN'', ''ERROR'', ''FATAL'']"

abbreviation (input) esc :: char where "esc \<equiv> CHR 0x1B"

definition level_colors :: "string list" where
  "level_colors = map (\<lambda>c. esc # CHR ''['' # c @ ''m'') [''94'', ''36'', ''32'', ''33'', ''31'', ''35'']"

definition log_do_lock :: "int \<Rightarrow> ('u, 'f) log_state \<Rightarrow> ('u, 'f) log_event list" where
  "log_do_lock b L = (if log_lock L then [LockCall (log_udata L) b] else [])"

definition log_set_udata :: "'u option \<Rightarrow> ('u, 'f) log_state \<Rightarrow> ('u, 'f) log_state" where
  "log_set_udata u L = L\<lparr>log_udata := u\<rparr>"

definition log_set_lock :: "bool \<Rightarrow> ('u, 'f) log_state \<Rightarrow> ('u, 'f) log_state" where
  "log_set_lock fn L = L\<lparr>log_lock := fn\<rparr>"

definition log_set_fp :: "'f option \<Rightarrow> ('u, 'f) log_state \<Rightarrow> ('u, 'f) log_state" where
  "log_set_fp fp L = L\<lparr>log_fp := fp\<rparr>"

definition log_set_level :: "int \<Rightarrow> ('u, 'f) log_state \<Rightarrow> ('u, 'f) log_state" where
  "log_set_level l L = L\<lparr>log_level := l\<rparr>"

definition log_set_quiet :: "int \<Rightarrow> ('u, 'f) log_state \<Rightarrow> ('u, 'f) log_state" where
  "log_set_quiet enable L = L\<lparr>log_quiet := (if enable \<noteq> 0 then 1 else 0)\<rparr>"

text \<open>The local time, the conversions of \<open>strftime\<close> that are used, and \<open>%-5s\<close>.\<close>

record tm =
  tm_year :: int
  tm_mon :: int
  tm_mday :: int
  tm_hour :: int
  tm_min :: int
  tm_sec :: int

definition two_digits :: "int \<Rightarrow> string" where
  "two_digits n = (if 0 \<le> n \<and> n < 10 then CHR ''0'' # dec_int n else dec_int n)"

definition clock_text :: "tm \<Rightarrow> string" where
  "clock_text lt = two_digits (tm_hour lt) @ '':'' @ two_digits (tm_min lt) @ '':'' @ two_digits (tm_sec lt)"

definition date_text :: "tm \<Rightarrow> string" where
  "date_text lt = dec_int (tm_year lt + 1900) @ ''-'' @ two_digits (tm_mon lt + 1) @ ''-'' @ two_digits (tm_mday lt) @ '' '' @ clock_text lt"

text \<open>A text that does not fit gives the length 0, and the code ends the buffer there.\<close>

definition strftime_buf :: "nat \<Rightarrow> string \<Rightarrow> string" where
  "strftime_buf n s = (if length s < n then s else [])"

definition pad5 :: "string \<Rightarrow> string" where
  "pad5 s = s @ replicate (5 - length s) CHR '' ''"

definition name_at :: "string list \<Rightarrow> int \<Rightarrow> string option" where
  "name_at xs i = (if 0 \<le> i \<and> nat i < length xs then Some (xs ! nat i) else None)"

definition log_log :: "int \<Rightarrow> string \<Rightarrow> int \<Rightarrow> string \<Rightarrow> tm option \<Rightarrow> ('u, 'f) log_state \<Rightarrow> ('u, 'f) log_event list option" where
  "log_log lvl fname lnum msg localtime L =
     (if lvl < log_level L then Some []
      else do {
        err \<leftarrow> (if log_quiet L = 0 then do {
            lt \<leftarrow> localtime;
            nm \<leftarrow> name_at level_names lvl;
            col \<leftarrow> name_at level_colors lvl;
            Some [ToStderr (strftime_buf 16 (clock_text lt) @ '' '' @ col @ pad5 nm @ [esc] @ ''[0m '' @ [esc] @ ''[90m'' @ fname @ '':'' @ dec_int lnum
              @ '':'' @ [esc] @ ''[0m '' @ msg @ [CHR 0x0A])]
          } else Some []);
        fil \<leftarrow> (case log_fp L of
            None \<Rightarrow> Some []
          | Some fp \<Rightarrow> do {
              lt \<leftarrow> localtime;
              nm \<leftarrow> name_at level_names lvl;
              Some [ToFile fp (strftime_buf 32 (date_text lt) @ '' '' @ pad5 nm @ '' '' @ fname @ '':'' @ dec_int lnum @ '': '' @ msg @ [CHR 0x0A])]
            });
        Some (log_do_lock 1 L @ err @ fil @ log_do_lock 0 L)
      })"

subsection \<open>The help\<close>

abbreviation (input) tab :: char where "tab \<equiv> CHR 0x09"
abbreviation (input) nl :: char where "nl \<equiv> CHR 0x0A"

definition no_color :: string where
  "no_color = esc # ''[0m''"

definition option_help :: "string \<Rightarrow> string \<Rightarrow> string" where
  "option_help name what = (esc # ''[37m'') @ [tab] @ name @ [nl] @ no_color @ [tab, tab] @ what @ [nl, nl]"

definition options_text :: string where
  "options_text = (esc # ''[33m'') @ ''Options:'' @ [nl, nl] @ no_color
     @ option_help ''-h|--help'' ''Prints this help message''
     @ option_help ''-m|--magnet_uri'' ''magnet_uri to download''
     @ option_help ''-p|--path'' ''folder to save the torrent to''
     @ option_help ''-o|--port'' ''port to listen for peers on''"

definition help_text :: string where
  "help_text = (esc # ''[34m'') @ ''uvgTorrent-c'' @ [nl, nl] @ no_color @ options_text"

subsection \<open>The clock\<close>

text \<open>\<open>gettimeofday\<close> gives seconds and microseconds, or fails.\<close>

definition now_ms :: "(int \<times> int) option \<Rightarrow> int option" where
  "now_ms tv = (case tv of
      None \<Rightarrow> Some (- 1)
    | Some (sec, usec) \<Rightarrow> do {
        a \<leftarrow> llong (sec * 1000);
        llong (a + (if 0 \<le> usec then usec div 1000 else - (- usec div 1000)))
      })"

subsection \<open>Properties of the dump\<close>

text \<open>The bracket that opens a list or a dictionary is printed with the first entry: an empty one has only the
  bracket that closes it.\<close>

lemma be_dump_empty: "be_dump (BE_LIST []) = Some ('']'' @ [CHR 0x0A])" "be_dump (BE_DICT []) = Some (''}'' @ [CHR 0x0A])"
  by (simp_all add: be_dump_def)

text \<open>A byte from 128 to 254 is passed to \<open>isprint\<close> as a negative number.\<close>

lemma those_none: "None \<in> set xs \<Longrightarrow> those xs = None"
  by (induction xs) (auto split: option.splits)

lemma be_dump_high_byte:
  assumes "i < nat (slen s)" "sbuf s = Some buf" "i < length buf" "128 \<le> buf ! i" "buf ! i \<noteq> 255"
  shows "be_dump (BE_STR s) = None"
proof -
  have "isprint_char (buf ! i) = None" using assms(4,5) by (simp add: isprint_char_def)
  then have "None \<in> set (map (\<lambda>i. do { buf \<leftarrow> sbuf s; c \<leftarrow> byte_at buf i; pr \<leftarrow> isprint_char c; Some (if pr then char_of (unat c) else CHR ''.'') })
      [0..<nat (slen s)])"
    using assms(1-3) by (auto simp: byte_at_def intro!: image_eqI [of _ _ i])
  then have "be_str_dump s = None" unfolding be_str_dump_def by (simp only: those_none) simp
  then show ?thesis by (simp add: be_dump_def)
qed

text \<open>A string of ASCII characters: the dump is defined, and it is as long as the number it returns.\<close>

lemma those_some: "those (map Some xs) = Some xs"
  by (induction xs) simp_all

lemma be_str_dump_ascii:
  assumes "sbuf s = Some (map of_char cs)" "slen s = int (length cs)" "length cs < 2 ^ 31 - 2" "\<forall>c \<in> set cs. of_char c < (128 :: nat)"
  shows "\<exists>out. be_str_dump s = Some (CHR 0x22 # out @ [CHR 0x22], 2 + int (length cs)) \<and> length out = length cs"
proof -
  let ?f = "\<lambda>c. if 32 \<le> (of_char c :: u8) \<and> of_char c < (127 :: u8) then char_of (unat (of_char c :: u8)) else CHR ''.''"
  have "(of_char c :: u8) < 128" if "c \<in> set cs" for c
  proof -
    have "of_char c < (128 :: nat)" using assms(4) that by blast
    moreover have "unat (of_char c :: u8) = of_char c" by simp
    ultimately show ?thesis by (simp add: word_less_nat_alt)
  qed
  then have "map (\<lambda>i. do { buf \<leftarrow> sbuf s; c \<leftarrow> byte_at buf i; pr \<leftarrow> isprint_char c; Some (if pr then char_of (unat c) else CHR ''.'') }) [0..<nat (slen s)]
      = map Some (map (\<lambda>i. ?f (cs ! i)) [0..<length cs])"
    using assms(1,2) by (auto simp: byte_at_def isprint_char_def)
  moreover have "signed_take_bit 31 (2 + int (length cs)) = 2 + int (length cs)"
    using assms(3) by (intro signed_take_bit_int_eq_self) simp_all
  ultimately show ?thesis using assms(2,3) by (auto simp: be_str_dump_def those_some simp del: map_map)
qed

subsection \<open>Properties of the log\<close>

text \<open>A sequence of events in which every line is written while the lock is held.\<close>

fun well_locked :: "bool \<Rightarrow> ('u, 'f) log_event list \<Rightarrow> bool" where
  "well_locked h [] \<longleftrightarrow> \<not> h"
| "well_locked h (LockCall u b # es) \<longleftrightarrow> (if b = 1 then \<not> h \<and> well_locked True es else b = 0 \<and> h \<and> well_locked False es)"
| "well_locked h (_ # es) \<longleftrightarrow> h \<and> well_locked h es"

text \<open>A sequence of calls, one after the other.\<close>

fun log_calls :: "(int \<times> string \<times> int \<times> string \<times> tm option) list \<Rightarrow> ('u, 'f) log_state \<Rightarrow> ('u, 'f) log_event list option" where
  "log_calls [] L = Some []"
| "log_calls ((lvl, fname, lnum, msg, lt) # xs) L = do {
     es \<leftarrow> log_log lvl fname lnum msg lt L;
     rest \<leftarrow> log_calls xs L;
     Some (es @ rest)
   }"

lemma well_locked_append: "well_locked h es \<Longrightarrow> well_locked False es' \<Longrightarrow> well_locked h (es @ es')"
proof (induction h es rule: well_locked.induct)
  case (1 h)
  then show ?case by (cases h) simp_all
qed (auto split: if_splits)

lemma log_log_well_locked: "log_log lvl fname lnum msg lt L = Some es \<Longrightarrow> log_lock L \<Longrightarrow> well_locked False es"
  by (auto simp: log_log_def log_do_lock_def split: if_splits bind_splits option.splits)

lemma log_calls_well_locked: "log_calls xs L = Some es \<Longrightarrow> log_lock L \<Longrightarrow> well_locked False es"
  by (induction xs L arbitrary: es rule: log_calls.induct) (auto split: bind_splits intro: well_locked_append log_log_well_locked)

text \<open>With the state that \<open>main\<close> sets up there is no lock, and the line goes to the terminal.\<close>

lemma log_main:
  assumes "log_log lvl fname lnum msg lt (log_set_level LOG_INFO log_init) = Some es"
  shows "es = [] \<and> lvl < LOG_INFO \<or> (\<exists>s. es = [ToStderr s] \<and> LOG_INFO \<le> lvl \<and> lvl \<le> LOG_FATAL)"
  using assms by (auto simp: log_log_def log_set_level_def log_init_def log_do_lock_def name_at_def level_names_def split: if_splits bind_splits)

subsection \<open>Properties of the clock\<close>

lemma now_floor:
  assumes "now_ms (Some (sec, usec)) = Some t" "0 \<le> usec"
  shows "t * 1000 \<le> sec * 1000000 + usec" "sec * 1000000 + usec < (t + 1) * 1000"
  using assms by (auto simp: now_ms_def llong_def split: if_splits bind_splits)

text \<open>A later time is never an earlier number of milliseconds, so a deadline that has passed stays passed.\<close>

lemma now_mono:
  assumes "now_ms (Some (sec, usec)) = Some t" "now_ms (Some (sec', usec')) = Some t'" "0 \<le> usec" "0 \<le> usec'"
    and "sec * 1000000 + usec \<le> sec' * 1000000 + usec'"
  shows "t \<le> t'"
proof -
  have "t * 1000 < (t' + 1) * 1000" using now_floor(1) [OF assms(1,3)] now_floor(2) [OF assms(2,4)] assms(5) by simp
  then have "t < t' + 1" by (rule mult_right_less_imp_less) simp
  then show ?thesis by simp
qed

end
