(* ===== verification/Spec2Isabelle.thy ===== *)
theory Spec2Isabelle
  imports Uvg_Bitfield Uvg_HashMap Uvg_Queue Uvg_NetUtils Uvg_BufferedSocket Uvg_Sha1 Uvg_Text
    Uvg_TorrentData Uvg_TorrentFiles Uvg_List Uvg_Bencode Uvg_BencodeCodec
    Uvg_Peer Uvg_PeerMessages Uvg_PeerFraming Uvg_PeerRun Uvg_PeerInvariant Uvg_PeerReturns Uvg_ThreadPool
    Uvg_Yuarel Uvg_Ipify Uvg_Tracker Uvg_Torrent Uvg_Metadata Uvg_Magnet Uvg_Main Uvg_MainInvariant
    Uvg_PeerIdentity Uvg_Program Uvg_Output
begin

text \<open>
  \<^bold>\<open>Verification of uvgTorrent-c.\<close>

  The program downloads one torrent, given as a magnet link. Its main thread (\<^verbatim>\<open>src/src/main.c\<close>) owns a torrent
  (\<^verbatim>\<open>torrent/torrent.c\<close>) and a pool of threads; trackers and peers run as jobs of the pool and hand back peers,
  metadata parts and chunks through queues, and the main thread turns these into entries of its table of
  peers and into verified pieces on disk (\<^verbatim>\<open>torrent/torrent_data.c\<close>). Every component that carries state is
  modelled, each in a theory of its own and function by function, under the names of the C functions.

  \<^bold>\<open>Theories and sources\<close> (all under \<^verbatim>\<open>src/src\<close>):

  \<^item> \<^verbatim>\<open>Uvg_Prelude\<close>, \<^verbatim>\<open>Uvg_Text\<close>: types, loop rules, collections; what is used of the C library's strings.
  \<^item> \<^verbatim>\<open>Uvg_Bitfield\<close> (\<^verbatim>\<open>bitfield\<close>): the packed bits; locale \<open>bit_vector\<close>.
  \<^item> \<^verbatim>\<open>Uvg_HashMap\<close> (\<^verbatim>\<open>hash_map\<close>): the chained map with its Jenkins hash; locale \<open>taking_map\<close> is the
    interface, whose lookup removes the entry, and the clients' facts are proved in it.
  \<^item> \<^verbatim>\<open>Uvg_Queue\<close> (\<^verbatim>\<open>thread_pool/queue.c\<close>): linked nodes in a store; locale \<open>fifo\<close>, refinement of a list.
  \<^item> \<^verbatim>\<open>Uvg_NetUtils\<close> (\<^verbatim>\<open>net_utils\<close>), \<^verbatim>\<open>Uvg_BufferedSocket\<close> (\<^verbatim>\<open>buffered_socket\<close>): byte order, polling reads, and
    the non-blocking socket (locale \<open>byte_stream\<close>): no byte is lost, repeated or reordered, and the partial send that breaks it.
  \<^item> \<^verbatim>\<open>Uvg_Sha1\<close> (\<^verbatim>\<open>sha1\<close>): the unrolled in-place code equals FIPS 180-4, for messages fed in any pieces.
  \<^item> \<^verbatim>\<open>Uvg_TorrentData\<close>, \<^verbatim>\<open>Uvg_TorrentFiles\<close> (\<^verbatim>\<open>torrent/torrent_data.c\<close>): claims, deadlines, pieces, files; the
    invariant of the download over every sequence of claims, releases and writes, and that what is written
    is what is read.
  \<^item> \<^verbatim>\<open>Uvg_List\<close> (\<^verbatim>\<open>bencode/list.h\<close>), \<^verbatim>\<open>Uvg_Bencode\<close>, \<^verbatim>\<open>Uvg_BencodeCodec\<close> (\<^verbatim>\<open>bencode/bencode.c\<close>): linked lists as
    sequences; reader and writer, their round trip, their bounds and their memory.
  \<^item> \<^verbatim>\<open>Uvg_Peer\<close>, \<^verbatim>\<open>Uvg_PeerMessages\<close>, \<^verbatim>\<open>Uvg_PeerRun\<close> (\<^verbatim>\<open>peer\<close>): the connection, the wire protocol, the metadata
    extension and the job; \<^verbatim>\<open>Uvg_PeerFraming\<close>: messages are reassembled from any arrivals;
    \<^verbatim>\<open>Uvg_PeerInvariant\<close>: what every run of the job that is defined and returns keeps; \<^verbatim>\<open>Uvg_PeerReturns\<close>: until the
    handshake of the peer has arrived, every run is defined and returns.
  \<^item> \<^verbatim>\<open>Uvg_ThreadPool\<close> (\<^verbatim>\<open>thread_pool/thread_pool.c\<close>, \<^verbatim>\<open>job.c\<close>): the workers and the main thread as an
    interleaving; order, no lost wake-up, and the end of the shutdown.
  \<^item> \<^verbatim>\<open>Uvg_Yuarel\<close> (\<^verbatim>\<open>yuarel\<close>), \<^verbatim>\<open>Uvg_Ipify\<close> (\<^verbatim>\<open>ipify\<close>): the in-place parser of URLs and queries, and the public
    address from an HTTP answer; what is written is read back.
  \<^item> \<^verbatim>\<open>Uvg_Tracker\<close> (\<^verbatim>\<open>tracker\<close>): connect, announce and scrape over UDP, with the job; its invariant, the peers
    it delivers, and the tracker that is lost when its name is not resolved.
  \<^item> \<^verbatim>\<open>Uvg_Torrent\<close>, \<^verbatim>\<open>Uvg_Metadata\<close>, \<^verbatim>\<open>Uvg_Magnet\<close> (\<^verbatim>\<open>torrent/torrent.c\<close>): the table of peers, scheduling,
    upload slots, listening and received chunks; the set-up of the download from the complete metadata;
    the magnet link, creation and release.
  \<^item> \<^verbatim>\<open>Uvg_Main\<close>, \<^verbatim>\<open>Uvg_MainInvariant\<close> (\<^verbatim>\<open>main.c\<close>, \<^verbatim>\<open>args\<close>): options, start, one iteration, the loop and the
    clean-up, what an iteration keeps of the table of peers, and how a failed allocation loses a peer.
  \<^item> \<^verbatim>\<open>Uvg_Program\<close> (\<^verbatim>\<open>main.c\<close>, \<^verbatim>\<open>thread_pool/thread_pool.c\<close>, \<^verbatim>\<open>peer/peer.c\<close>): the running program, the step relation
    \<open>prog_step\<close> of the main loop and the workers on the shared state; its invariant from the start on, that no
    step loses a peer, and the second job for a peer that is disconnected while its job runs. \<^verbatim>\<open>Uvg_PeerIdentity\<close>: no step of the job of a
    peer changes its address text.
  \<^item> \<^verbatim>\<open>Uvg_Output\<close> (\<^verbatim>\<open>log.c\<close>, \<^verbatim>\<open>messages\<close>, \<^verbatim>\<open>deadline\<close>, \<open>be_dump\<close> of \<^verbatim>\<open>bencode/bencode.c\<close>): what is printed, the lock around
    it, and the clock in milliseconds.

  \<^bold>\<open>Conventions.\<close> An operation returns \<open>None\<close> where the C code has no defined behaviour: a NULL or dangling
  pointer, an access outside an object, a signed overflow, an indeterminate value. NULL and error codes are
  values inside \<open>Some\<close>, so that every error path is a branch, and a statement of the form
  \<open>\<exists>r. f x = Some r \<and> \<dots>\<close> says that the call is defined and returns. What the environment decides (the result of
  an allocation, of a system call, of the clock or of \<open>rand\<close>) is an argument, mostly a field of a
  record whose name ends in \<open>io\<close>; the theorems quantify over it. \<open>size_t\<close> is \<open>nat\<close> with its wrap-around written out
  (\<open>size_sub\<close>, \<open>size_t_of\<close>), C \<open>int\<close> is \<open>int\<close> with \<open>int32_of\<close> where a value is converted; fixed-width fields of
  messages are words, and \<open>le\<close> is the byte order of the host. Objects that several parts point at (queue
  nodes, list links, peers) live in a map from addresses. Operations under a mutex are atomic.

  \<^bold>\<open>Loops and fuel.\<close> Loops are recursions on their data or functions with a measure (\<open>queue_drain\<close>,
  \<open>exchange\<close>, \<open>peer_loop\<close>, \<open>split_loop\<close>, \<open>collect_peers\<close>). Where the C loop depends on the environment the
  list of its answers is the argument (\<open>read_poll\<close>, \<open>listen_loop\<close>, \<open>main_loop\<close>). Fuel appears in
  \<open>read_data_loop\<close>, which the code can run for ever, in \<open>list_for_each\<close>, in the loops of the bencode reader and in the pending writes of a socket that
  is freed; the theorems about these operations show that the fuel of the statement is enough. In \<open>peer_run\<close> the fuel of an answer to
  a request (\<open>answer_fuel\<close>, \<open>meta_fuel\<close>), the steps to free the pending writes (\<open>free_steps\<close>) and the list
  \<open>have_writes\<close> are arguments, and \<open>None\<close> means undefined or not finished within them: a request across the end of the
  data makes the C loop run for ever. \<open>peer_run_returns\<close> excludes both before the handshake; after it there is only the partial
  \<open>peer_run_keeps\<close>.

  \<^bold>\<open>Composition.\<close> In \<open>main_loop\<close> the change that the jobs make between two iterations is an argument. \<open>prog_step\<close>
  replaces the argument by the jobs: an iteration, a signal, a job taken from the queue of the pool, one of the thirteen
  parts of \<open>peer_run\<close>, the run of a tracker or an accepted peer is one step, and the steps of different threads
  come in any order. The grain is that of these parts: a data race inside one of them is not seen. An
  iteration is granted its memory (\<open>granted\<close>, \<open>nodes_granted\<close>), as the allocations of a map entry that fail
  lose a peer (\<open>fetch_without_memory_loses\<close>). \<open>main_loop\<close> is the loop of \<^verbatim>\<open>main.c\<close> over a given list of rounds, \<open>None\<close> when it
  has not ended within the list; the properties of whole runs are stated over \<open>prog_step\<close>. In the relation of the pool alone a job is one step
  from its start to its end: that jobs return is what \<^verbatim>\<open>thread_pool.h\<close> asks of them, and the theorem on
  the shutdown rests on it. The hash map and the queue are used through the interpretations \<open>hmi\<close> and \<open>qi\<close> of their locales.

  \<^bold>\<open>Not modelled.\<close> The example \<^verbatim>\<open>thread_pool/example.c\<close>, which the program does not call, the logo and the installation
  of signal handlers. What \<open>vfprintf\<close> makes of a format, the local time, \<open>getopt_long\<close>, \<open>getaddrinfo\<close>,
  \<open>stdin_available\<close> and the URL decoder of curl are arguments; so are the readings of the clock in the operations that use it.
  The comparison of upload rates subtracts \<open>float\<close> values; the order it leaves the peers in is an argument
  of \<open>torrent_assign_upload_slots\<close>, and its theorem needs only that \<open>qsort\<close> permutes: the rates change with the clock, which
  is read in each comparison, and the difference is truncated to \<open>int\<close>, so the comparison is no order. The copy of the
  key of a map entry is taken to succeed when its item does, and the count of a queue not to reach \<open>2 ^ 31\<close>.
\<close>

end
